(* ===== verification/Prelude.thy ===== *)
theory Prelude
  imports Complex_Main "HOL-Library.Word"
begin

text \<open>
  Shared vocabulary of the development: Rust's machine integers as words of their
  width, its saturating operations and \<^verbatim>\<open>as\<close> casts, and the lemmas on lists and
  words that several components use. Arithmetic is that of a release build, so
  \<^verbatim>\<open>+\<close>, \<^verbatim>\<open>-\<close> and \<^verbatim>\<open>*\<close> on words wrap around.
\<close>

named_theorems word_casts \<open>reading a cast or a saturating operation as a number\<close>
named_theorems window_simps \<open>the last elements of a list\<close>

type_synonym u8 = "8 word"
type_synonym u16 = "16 word"
type_synonym u32 = "32 word"
type_synonym u64 = "64 word"
type_synonym i8 = "8 word"
type_synonym i32 = "32 word"
type_synonym i64 = "64 word"

text \<open>\<open>i128\<close> is an \<open>int\<close> with the wrap-around and the saturation written out.\<close>

type_synonym i128 = int

definition i128_max :: int where
  "i128_max = 2 ^ 127 - 1"

definition i128_min :: int where
  "i128_min = - (2 ^ 127)"

definition wrap_i128 :: "int \<Rightarrow> i128" where
  "wrap_i128 n = (n + 2 ^ 127) mod 2 ^ 128 - 2 ^ 127"

definition sat_i128 :: "int \<Rightarrow> i128" where
  "sat_i128 n = max i128_min (min i128_max n)"

text \<open>Rust's integer division truncates towards zero.\<close>

definition trunc_div :: "int \<Rightarrow> int \<Rightarrow> int" where
  "trunc_div a b = sgn a * sgn b * (\<bar>a\<bar> div \<bar>b\<bar>)"

text \<open>\<^verbatim>\<open>x as u64\<close> and \<^verbatim>\<open>x as i64\<close> of an \<open>i128\<close> keep the low 64 bits.\<close>

definition as_u64 :: "int \<Rightarrow> u64" where
  "as_u64 n = word_of_int n"

text \<open>\<^verbatim>\<open>saturating_sub\<close> and \<^verbatim>\<open>saturating_add\<close> of unsigned integers.\<close>

definition sat_sub :: "'a::len word \<Rightarrow> 'a word \<Rightarrow> 'a word" where
  "sat_sub a b = (if a < b then 0 else a - b)"

definition sat_add :: "'a::len word \<Rightarrow> 'a word \<Rightarrow> 'a word" where
  "sat_add a b = (if unat a + unat b < 2 ^ LENGTH('a) then a + b else - 1)"

text \<open>The last \<open>n\<close> elements of a list, oldest first.\<close>

definition last_n :: "nat \<Rightarrow> 'a list \<Rightarrow> 'a list" where
  "last_n n xs = drop (length xs - n) xs"

text \<open>\<^verbatim>\<open>Vec::last\<close>.\<close>

definition last_opt :: "'a list \<Rightarrow> 'a option" where
  "last_opt xs = (if xs = [] then None else Some (last xs))"

text \<open>The operator \<^verbatim>\<open>?\<close>: an error returns at once, a value goes on.\<close>

definition and_then :: "'e + 'a \<Rightarrow> ('a \<Rightarrow> 'e + 'b) \<Rightarrow> 'e + 'b" where
  "and_then r k = (case r of Inl e \<Rightarrow> Inl e | Inr x \<Rightarrow> k x)"

definition map_err :: "('e \<Rightarrow> 'f) \<Rightarrow> 'e + 'a \<Rightarrow> 'f + 'a" where
  "map_err f r = (case r of Inl e \<Rightarrow> Inl (f e) | Inr x \<Rightarrow> Inr x)"

section \<open>Results\<close>

lemma and_then_simps [simp]: "and_then (Inl e) k = Inl e" "and_then (Inr x) k = k x"
  by (simp_all add: and_then_def)

lemma map_err_simps [simp]: "map_err f (Inl e) = Inl (f e)" "map_err f (Inr x) = Inr x"
  by (simp_all add: map_err_def)

lemma and_then_Inr_iff: "and_then r k = Inr y \<longleftrightarrow> (\<exists>x. r = Inr x \<and> k x = Inr y)"
  by (cases r) simp_all

lemma and_then_Inl_iff: "and_then r k = Inl e \<longleftrightarrow> r = Inl e \<or> (\<exists>x. r = Inr x \<and> k x = Inl e)"
  by (cases r) simp_all

lemma map_err_Inr_iff [simp]: "map_err f r = Inr y \<longleftrightarrow> r = Inr y"
  by (cases r) simp_all

lemmas result_iffs = and_then_Inr_iff and_then_Inl_iff

section \<open>Integers and words\<close>

lemma wrap_i128_id [word_casts]: "i128_min \<le> n \<Longrightarrow> n \<le> i128_max \<Longrightarrow> wrap_i128 n = n"
  by (simp add: wrap_i128_def i128_min_def i128_max_def)

lemma wrap_i128_range: "i128_min \<le> wrap_i128 n \<and> wrap_i128 n \<le> i128_max"
proof -
  have "0 \<le> (n + 2 ^ 127) mod (2 ^ 128 :: int)" "(n + 2 ^ 127) mod (2 ^ 128 :: int) < 2 ^ 128"
    by (rule pos_mod_sign pos_mod_bound; simp)+
  then show ?thesis by (simp add: wrap_i128_def i128_min_def i128_max_def)
qed

lemma sat_i128_id [word_casts]: "i128_min \<le> n \<Longrightarrow> n \<le> i128_max \<Longrightarrow> sat_i128 n = n"
  by (simp add: sat_i128_def)

lemma trunc_div_nonneg: "0 \<le> a \<Longrightarrow> 0 < b \<Longrightarrow> trunc_div a b = a div b"
  by (cases "a = 0") (simp_all add: trunc_div_def)

lemma trunc_div_one [simp]: "trunc_div a 1 = a"
  by (simp add: trunc_div_def sgn_mult_abs)

lemma trunc_div_self: "b \<noteq> 0 \<Longrightarrow> trunc_div (b * a) b = a"
proof -
  assume "b \<noteq> 0"
  then have "trunc_div (b * a) b = sgn (b * a) * sgn b * \<bar>a\<bar>"
    by (simp add: trunc_div_def abs_mult)
  also have "\<dots> = (sgn b * sgn b) * (sgn a * \<bar>a\<bar>)"
    by (simp add: sgn_mult ac_simps)
  also have "\<dots> = a"
    using \<open>b \<noteq> 0\<close> by (simp add: sgn_mult_abs sgn_if)
  finally show ?thesis .
qed

lemma uint_sat_sub [word_casts]: "uint (sat_sub a b) = max 0 (uint a - uint b)"
proof (cases "a < b")
  case True
  then show ?thesis by (simp add: sat_sub_def word_less_def)
next
  case False
  then have "uint b \<le> uint a" by (simp add: word_less_def)
  then have "uint (a - b) = uint a - uint b"
    using uint_minus_simple_alt [of b a] by (simp add: word_le_def)
  then show ?thesis using False \<open>uint b \<le> uint a\<close> by (simp add: sat_sub_def)
qed

lemma sat_sub_ge_iff [word_casts]: "c \<le> sat_sub a b \<longleftrightarrow> uint c \<le> max 0 (uint a - uint b)"
  by (simp add: word_le_def uint_sat_sub)

lemma unat_sat_add [word_casts]:
  "unat (sat_add a (b :: 'a::len word)) = min (unat a + unat b) (2 ^ LENGTH('a) - 1)"
  by (auto simp: sat_add_def unat_word_ariths unsigned_minus_1_eq_mask mask_eq_exp_minus_1)

section \<open>Windows of a list\<close>

lemma length_last_n [window_simps, simp]: "length (last_n n xs) = min n (length xs)"
  by (simp add: last_n_def)

lemma last_n_all [window_simps]: "length xs \<le> n \<Longrightarrow> last_n n xs = xs"
  by (simp add: last_n_def)

lemma last_n_Nil [window_simps, simp]: "last_n n [] = []"
  by (simp add: last_n_def)

lemma last_n_snoc_last_n [window_simps]: "last_n n (last_n n xs @ ys) = last_n n (xs @ ys)"
  by (cases "length xs \<le> n") (auto simp: last_n_def min_def add.commute)

lemma set_last_n: "set (last_n n xs) \<subseteq> set xs"
  by (simp add: last_n_def set_drop_subset)

lemma last_last_n: "xs \<noteq> [] \<Longrightarrow> 0 < n \<Longrightarrow> last (last_n n xs) = last xs"
  by (simp add: last_n_def)

lemma last_n_eq_Nil_iff [simp]: "last_n n xs = [] \<longleftrightarrow> n = 0 \<or> xs = []"
  by (cases xs) (auto simp: last_n_def)

lemma sorted_wrt_last_n: "sorted_wrt P xs \<Longrightarrow> sorted_wrt P (last_n n xs)"
  by (simp add: last_n_def)

lemma filter_single: "distinct ks \<Longrightarrow> k \<in> set ks \<Longrightarrow> filter (\<lambda>k'. k' = k) ks = [k]"
proof (induction ks)
  case (Cons a ks)
  show ?case
  proof (cases "a = k")
    case True
    then have "k \<notin> set ks" using Cons.prems by simp
    then have "filter (\<lambda>k'. k' = k) ks = []" unfolding filter_empty_conv by metis
    with True show ?thesis by simp
  next
    case False
    with Cons show ?thesis by simp
  qed
qed simp

lemma last_opt_simps [simp]:
  "last_opt [] = None" "last_opt (xs @ [x]) = Some x"
  by (simp_all add: last_opt_def)

end
