(* ===== verification/Floats.thy ===== *)
theory Floats
  imports Prelude "HOL-Library.Log_Nat" "HOL-Library.Product_Lexorder" "HOL-Library.Multiset"
begin

text \<open>
  Rust's \<^verbatim>\<open>f32\<close> and \<^verbatim>\<open>f64\<close>: IEEE 754 binary32 and binary64 as an executable type.
  A finite non-zero number is its exact rational value; zeros and infinities carry
  their sign (\<open>True\<close> is negative); NaN is one value, since Rust leaves its sign and
  payload unspecified. Every operation computes the exact result and rounds it once to
  the nearest representable number, ties to even (\<open>rnd\<close>). The lemmas show
  that \<open>rnd\<close> returns representable numbers unchanged, that it is within half a unit
  in the last place and monotone, and that the comparison of non-NaN numbers is a total preorder.
\<close>

named_theorems fp_simps \<open>exact floating-point results\<close>

datatype fmt = F32 | F64

datatype fp = FNaN | FInf bool | FZero bool | FFin rat

type_synonym f32 = fp
type_synonym f64 = fp

section \<open>Formats\<close>

text \<open>Bits of precision, exponent of the least positive number, exponent of overflow.\<close>

fun prec :: "fmt \<Rightarrow> int" where
  "prec F32 = 24"
| "prec F64 = 53"

fun qmin :: "fmt \<Rightarrow> int" where
  "qmin F32 = - 149"
| "qmin F64 = - 1074"

fun eovf :: "fmt \<Rightarrow> int" where
  "eovf F32 = 128"
| "eovf F64 = 1024"

definition p2 :: "int \<Rightarrow> rat" where
  "p2 k = 2 powi k"

text \<open>\<open>ilog2 a\<close> is the floor of the binary logarithm of a positive rational.\<close>

definition ilog2 :: "rat \<Rightarrow> int" where
  "ilog2 a = (let (n, d) = quotient_of a; k = bitlen n - bitlen d
              in if p2 k \<le> a then k else k - 1)"

section \<open>Rounding\<close>

text \<open>Nearest integer, ties to even.\<close>

definition rne :: "rat \<Rightarrow> int" where
  "rne r = (let f = \<lfloor>r\<rfloor>; d = r - of_int f
            in if d < 1 / 2 then f else if 1 / 2 < d then f + 1
               else if even f then f else f + 1)"

text \<open>The exponent of the unit in the last place of numbers of the size of \<open>a\<close>.\<close>

definition ulp_exp :: "fmt \<Rightarrow> rat \<Rightarrow> int" where
  "ulp_exp f a = max (qmin f) (ilog2 a - (prec f - 1))"

text \<open>The overflow test reads \<open>m * 2 ^ q \<ge> 2 ^ eovf f\<close> on the exponents.\<close>

definition rnd :: "fmt \<Rightarrow> rat \<Rightarrow> fp" where
  "rnd f r =
     (if r = 0 then FZero False
      else let q = ulp_exp f \<bar>r\<bar>; m = rne (\<bar>r\<bar> / p2 q); v = of_int m * p2 q
           in if m = 0 then FZero (r < 0)
              else if eovf f < q + bitlen m then FInf (r < 0)
              else FFin (if r < 0 then - v else v))"

text \<open>\<open>r\<close> is a non-zero number of the format.\<close>

definition representable :: "fmt \<Rightarrow> rat \<Rightarrow> bool" where
  "representable f r \<longleftrightarrow> r \<noteq> 0 \<and> rnd f r = FFin r"

fun fp_ok :: "fmt \<Rightarrow> fp \<Rightarrow> bool" where
  "fp_ok f (FFin r) = representable f r"
| "fp_ok f _ = True"

section \<open>Operations\<close>

fun fval :: "fp \<Rightarrow> rat" where
  "fval (FFin r) = r"
| "fval _ = 0"

fun is_nan :: "fp \<Rightarrow> bool" where
  "is_nan FNaN = True"
| "is_nan _ = False"

fun sign_neg :: "fp \<Rightarrow> bool" where
  "sign_neg (FInf s) = s"
| "sign_neg (FZero s) = s"
| "sign_neg (FFin r) = (r < 0)"
| "sign_neg FNaN = False"

fun fneg :: "fp \<Rightarrow> fp" where
  "fneg FNaN = FNaN"
| "fneg (FInf s) = FInf (\<not> s)"
| "fneg (FZero s) = FZero (\<not> s)"
| "fneg (FFin r) = FFin (- r)"

text \<open>\<^verbatim>\<open>abs\<close> clears the sign bit.\<close>

fun fabs :: "fp \<Rightarrow> fp" where
  "fabs FNaN = FNaN"
| "fabs (FInf s) = FInf False"
| "fabs (FZero s) = FZero False"
| "fabs (FFin r) = FFin \<bar>r\<bar>"

text \<open>A rounded result whose exact value is zero takes the given sign.\<close>

definition rnd_sign :: "fmt \<Rightarrow> bool \<Rightarrow> rat \<Rightarrow> fp" where
  "rnd_sign f s r = (if r = 0 then FZero s else rnd f r)"

fun fadd :: "fmt \<Rightarrow> fp \<Rightarrow> fp \<Rightarrow> fp" where
  "fadd f FNaN _ = FNaN"
| "fadd f _ FNaN = FNaN"
| "fadd f (FInf s) (FInf t) = (if s = t then FInf s else FNaN)"
| "fadd f (FInf s) _ = FInf s"
| "fadd f _ (FInf t) = FInf t"
| "fadd f (FZero s) (FZero t) = FZero (s \<and> t)"
| "fadd f a b = rnd f (fval a + fval b)"

definition fsub :: "fmt \<Rightarrow> fp \<Rightarrow> fp \<Rightarrow> fp" where
  "fsub f a b = fadd f a (fneg b)"

definition fmul :: "fmt \<Rightarrow> fp \<Rightarrow> fp \<Rightarrow> fp" where
  "fmul f a b =
     (let s = (sign_neg a \<noteq> sign_neg b) in
      if is_nan a \<or> is_nan b then FNaN
      else case (a, b) of
        (FInf _, FZero _) \<Rightarrow> FNaN
      | (FZero _, FInf _) \<Rightarrow> FNaN
      | (FInf _, _) \<Rightarrow> FInf s
      | (_, FInf _) \<Rightarrow> FInf s
      | _ \<Rightarrow> rnd_sign f s (fval a * fval b))"

definition fdiv :: "fmt \<Rightarrow> fp \<Rightarrow> fp \<Rightarrow> fp" where
  "fdiv f a b =
     (let s = (sign_neg a \<noteq> sign_neg b) in
      if is_nan a \<or> is_nan b then FNaN
      else case (a, b) of
        (FInf _, FInf _) \<Rightarrow> FNaN
      | (FZero _, FZero _) \<Rightarrow> FNaN
      | (FInf _, _) \<Rightarrow> FInf s
      | (_, FInf _) \<Rightarrow> FZero s
      | (_, FZero _) \<Rightarrow> FInf s
      | _ \<Rightarrow> rnd_sign f s (fval a / fval b))"

text \<open>\<^verbatim>\<open>%\<close> truncates the quotient; the remainder has the sign of the dividend and is exact.\<close>

definition frem :: "fmt \<Rightarrow> fp \<Rightarrow> fp \<Rightarrow> fp" where
  "frem f a b =
     (case (a, b) of
        (FNaN, _) \<Rightarrow> FNaN
      | (_, FNaN) \<Rightarrow> FNaN
      | (FInf _, _) \<Rightarrow> FNaN
      | (_, FZero _) \<Rightarrow> FNaN
      | (_, FInf _) \<Rightarrow> a
      | _ \<Rightarrow> (let q = fval a / fval b; t = (if q < 0 then \<lceil>q\<rceil> else \<lfloor>q\<rfloor>)
             in rnd_sign f (sign_neg a) (fval a - of_int t * fval b)))"

text \<open>Integer square root, and the square root rounded to nearest.\<close>

function isqrt :: "int \<Rightarrow> int" where
  "isqrt n = (if n \<le> 0 then 0
              else let r = 2 * isqrt (n div 4) in if (r + 1) * (r + 1) \<le> n then r + 1 else r)"
  by pat_completeness auto
termination
  by (relation "measure nat") auto

declare isqrt.simps [simp del]

fun fsqrt :: "fmt \<Rightarrow> fp \<Rightarrow> fp" where
  "fsqrt f FNaN = FNaN"
| "fsqrt f (FInf s) = (if s then FNaN else FInf False)"
| "fsqrt f (FZero s) = FZero s"
| "fsqrt f (FFin r) =
     (if r < 0 then FNaN
      else let q = ilog2 r div 2 - (prec f - 1); x = r / p2 (2 * q); m = isqrt \<lfloor>x\<rfloor>;
               m' = (if (of_int m + 1 / 2) * (of_int m + 1 / 2) < x then m + 1 else m)
           in FFin (of_int m' * p2 q))"

section \<open>Comparison, maximum, conversions\<close>

text \<open>\<^verbatim>\<open>a < b\<close>, \<^verbatim>\<open>a <= b\<close>: false as soon as one side is NaN.\<close>

fun flt :: "fp \<Rightarrow> fp \<Rightarrow> bool" where
  "flt FNaN _ = False"
| "flt _ FNaN = False"
| "flt (FInf s) (FInf t) = (s \<and> \<not> t)"
| "flt (FInf s) _ = s"
| "flt _ (FInf t) = (\<not> t)"
| "flt a b = (fval a < fval b)"

definition feq :: "fp \<Rightarrow> fp \<Rightarrow> bool" where
  "feq a b \<longleftrightarrow> \<not> is_nan a \<and> \<not> is_nan b \<and> \<not> flt a b \<and> \<not> flt b a"

definition fle :: "fp \<Rightarrow> fp \<Rightarrow> bool" where
  "fle a b \<longleftrightarrow> flt a b \<or> feq a b"

datatype ordering = Less | Equal | Greater

text \<open>\<^verbatim>\<open>a.partial_cmp(b).unwrap_or(Ordering::Equal)\<close>.\<close>

definition fcmp :: "fp \<Rightarrow> fp \<Rightarrow> ordering" where
  "fcmp a b = (if flt a b then Less else if flt b a then Greater else Equal)"

text \<open>
  \<^verbatim>\<open>slice::sort_by\<close> is stable. Where the comparator is a total preorder on the elements
  its result is unique, and insertion from the right computes it; with a NaN among them the
  standard library leaves the order unspecified.
\<close>

fun insert_by :: "('a \<Rightarrow> 'a \<Rightarrow> ordering) \<Rightarrow> 'a \<Rightarrow> 'a list \<Rightarrow> 'a list" where
  "insert_by c x [] = [x]"
| "insert_by c x (y # ys) = (if c x y = Greater then y # insert_by c x ys else x # y # ys)"

fun sort_by :: "('a \<Rightarrow> 'a \<Rightarrow> ordering) \<Rightarrow> 'a list \<Rightarrow> 'a list" where
  "sort_by c [] = []"
| "sort_by c (x # xs) = insert_by c x (sort_by c xs)"

text \<open>\<^verbatim>\<open>max\<close> and \<^verbatim>\<open>min\<close> return the other operand when one is NaN.\<close>

definition fmax :: "fp \<Rightarrow> fp \<Rightarrow> fp" where
  "fmax a b = (if is_nan a then b else if is_nan b then a else if flt a b then b else a)"

definition fmin :: "fp \<Rightarrow> fp \<Rightarrow> fp" where
  "fmin a b = (if is_nan a then b else if is_nan b then a else if flt b a then b else a)"

text \<open>\<^verbatim>\<open>n as f64\<close> of an integer, \<^verbatim>\<open>x as f32\<close> of an \<^verbatim>\<open>f64\<close>.\<close>

definition of_int_fp :: "fmt \<Rightarrow> int \<Rightarrow> fp" where
  "of_int_fp f n = rnd f (of_int n)"

fun as_f32 :: "fp \<Rightarrow> fp" where
  "as_f32 (FFin r) = rnd F32 r"
| "as_f32 x = x"

text \<open>A literal of the source, correctly rounded.\<close>

definition lit :: "fmt \<Rightarrow> rat \<Rightarrow> fp" where
  "lit f r = rnd f r"

text \<open>
  \<^verbatim>\<open>round\<close> (ties away from zero) and \<^verbatim>\<open>ceil\<close> keep the format: the result of a number
  with a fractional part has fewer bits than the number. A zero result keeps the sign.
\<close>

definition round_away :: "rat \<Rightarrow> int" where
  "round_away r = (if r < 0 then - \<lfloor>- r + 1 / 2\<rfloor> else \<lfloor>r + 1 / 2\<rfloor>)"

fun fround :: "fp \<Rightarrow> fp" where
  "fround (FFin r) = (let n = round_away r in if n = 0 then FZero (r < 0) else FFin (of_int n))"
| "fround x = x"

fun fceil :: "fp \<Rightarrow> fp" where
  "fceil (FFin r) = (let n = \<lceil>r\<rceil> in if n = 0 then FZero (r < 0) else FFin (of_int n))"
| "fceil x = x"

text \<open>Float to integer casts truncate and saturate; NaN becomes 0.\<close>

definition trunc_rat :: "rat \<Rightarrow> int" where
  "trunc_rat r = (if r < 0 then \<lceil>r\<rceil> else \<lfloor>r\<rfloor>)"

fun fp_to_int :: "int \<Rightarrow> int \<Rightarrow> fp \<Rightarrow> int" where
  "fp_to_int lo hi FNaN = 0"
| "fp_to_int lo hi (FInf s) = (if s then lo else hi)"
| "fp_to_int lo hi (FZero s) = 0"
| "fp_to_int lo hi (FFin r) = max lo (min hi (trunc_rat r))"

definition fp_to_i128 :: "fp \<Rightarrow> i128" where
  "fp_to_i128 = fp_to_int i128_min i128_max"

definition fp_to_u64 :: "fp \<Rightarrow> u64" where
  "fp_to_u64 x = word_of_int (fp_to_int 0 (2 ^ 64 - 1) x)"

section \<open>Integer square root\<close>

lemma isqrt_bounds: "0 \<le> n \<Longrightarrow> 0 \<le> isqrt n \<and> isqrt n * isqrt n \<le> n \<and> n < (isqrt n + 1) * (isqrt n + 1)"
proof (induction n rule: isqrt.induct)
  case (1 n)
  show ?case
  proof (cases "n \<le> 0")
    case False
    let ?k = "isqrt (n div 4)"
    have k: "0 \<le> ?k" "?k * ?k \<le> n div 4" "n div 4 < (?k + 1) * (?k + 1)" using 1 False by auto
    have "4 * (?k * ?k) \<le> n" "n < 4 * ((?k + 1) * (?k + 1))" using k(2,3) by linarith+
    then show ?thesis
      using k(1) False by (auto simp: isqrt.simps [of n] Let_def algebra_simps)
  qed (use 1 in \<open>simp add: isqrt.simps\<close>)
qed

lemma isqrt_unique:
  assumes "0 \<le> m" "m * m \<le> n" "n < (m + 1) * (m + 1)"
  shows "isqrt n = m"
proof -
  have "0 \<le> n" using assms(2) by (metis order_trans zero_le_square)
  note b = isqrt_bounds [OF this]
  have "m * m < (isqrt n + 1) * (isqrt n + 1)" "isqrt n * isqrt n < (m + 1) * (m + 1)" using assms b by linarith+
  then have "m < isqrt n + 1" "isqrt n < m + 1"
    using assms(1) b by (meson add_nonneg_nonneg mult_mono not_le zero_le_one)+
  then show ?thesis by simp
qed

section \<open>Powers of two and binary logarithms\<close>

lemma p2_pos [simp]: "0 < p2 k"
  by (simp add: p2_def)

lemma p2_nonzero [simp]: "p2 k \<noteq> 0"
  by (simp add: p2_def)

lemma p2_nonneg [simp]: "0 \<le> p2 k"
  by (simp add: p2_def)

lemma p2_add: "p2 (j + k) = p2 j * p2 k"
  by (simp add: p2_def power_int_add)

lemma p2_diff: "p2 (j - k) = p2 j / p2 k"
  by (simp add: p2_def power_int_diff)

lemma p2_nat: "0 \<le> k \<Longrightarrow> p2 k = of_int (2 ^ nat k)"
  by (simp add: p2_def power_int_def)

lemma p2_le_iff [simp]: "p2 j \<le> p2 k \<longleftrightarrow> j \<le> k"
proof
  assume "p2 j \<le> p2 k"
  then show "j \<le> k"
    using power_int_strict_increasing [of k j "2 :: rat"] by (force simp: p2_def not_le)
qed (simp add: p2_def power_int_increasing)

lemma p2_less_iff [simp]: "p2 j < p2 k \<longleftrightarrow> j < k"
  by (simp flip: not_le)

lemma bitlen_p2: "0 < n \<Longrightarrow> p2 (bitlen n - 1) \<le> of_int n \<and> of_int n < p2 (bitlen n)"
proof -
  assume n: "0 < n"
  then have b: "1 \<le> bitlen n"
    using bitlen_bounds [OF n] bitlen_nonneg [of n] by (cases "bitlen n = 0") auto
  have "2 ^ nat (bitlen n - 1) \<le> n" "n < 2 ^ nat (bitlen n)"
    using bitlen_bounds [OF n] by blast+
  then have "rat_of_int (2 ^ nat (bitlen n - 1)) \<le> of_int n" "rat_of_int n < of_int (2 ^ nat (bitlen n))"
    by (simp_all only: of_int_le_iff of_int_less_iff)
  with b show ?thesis
    by (simp only: p2_nat)
qed

lemma ilog2_bounds:
  assumes "0 < a"
  shows "p2 (ilog2 a) \<le> a \<and> a < p2 (ilog2 a + 1)"
proof -
  obtain n d where q: "quotient_of a = (n, d)" by (cases "quotient_of a")
  have d: "0 < d" using quotient_of_denom_pos [OF q] .
  have a: "a = of_int n / of_int d" using quotient_of_div [OF q] .
  have n: "0 < n" using assms d by (simp add: a zero_less_divide_iff)
  let ?k = "bitlen n - bitlen d"
  have N: "p2 (bitlen n - 1) \<le> of_int n" "of_int n < p2 (bitlen n)"
    and D: "p2 (bitlen d - 1) \<le> of_int d" "of_int d < p2 (bitlen d)"
    using bitlen_p2 n d by blast+
  have "p2 (?k - 1) * of_int d \<le> p2 (?k - 1) * p2 (bitlen d)"
    using D by (intro mult_left_mono) auto
  also have "\<dots> = p2 (bitlen n - 1)" by (simp flip: p2_add)
  also have "\<dots> \<le> of_int n" by (rule N)
  finally have lo: "p2 (?k - 1) \<le> a" using d by (simp add: a pos_le_divide_eq)
  have "of_int n < p2 (bitlen n)" by (rule N)
  also have "\<dots> = p2 (?k + 1) * p2 (bitlen d - 1)" by (simp flip: p2_add)
  also have "\<dots> \<le> p2 (?k + 1) * of_int d"
    using D by (intro mult_left_mono) auto
  finally have hi: "a < p2 (?k + 1)" using d by (simp add: a pos_divide_less_eq)
  from lo hi show ?thesis by (auto simp: ilog2_def q not_le Let_def)
qed

lemma ilog2_less: "0 < a \<Longrightarrow> a < p2 k \<Longrightarrow> ilog2 a < k"
proof -
  assume "0 < a" "a < p2 k"
  with ilog2_bounds [of a] have "p2 (ilog2 a) < p2 k" by linarith
  then show ?thesis by simp
qed

lemma bitlen_overflow:
  assumes "0 < m"
  shows "e < q + bitlen m \<longleftrightarrow> p2 e \<le> of_int m * p2 q"
proof -
  have B: "p2 (bitlen m - 1) \<le> of_int m" "of_int m < p2 (bitlen m)"
    using bitlen_p2 [OF assms] by blast+
  have lo: "p2 (q + bitlen m - 1) \<le> of_int m * p2 q"
    using mult_right_mono [OF B(1), of "p2 q"] by (simp flip: p2_add add: ac_simps add_diff_eq)
  have hi: "of_int m * p2 q < p2 (q + bitlen m)"
    using mult_strict_right_mono [OF B(2), of "p2 q"] by (simp flip: p2_add add: ac_simps)
  show ?thesis
  proof
    assume "e < q + bitlen m"
    then have "p2 e \<le> p2 (q + bitlen m - 1)" by simp
    with lo show "p2 e \<le> of_int m * p2 q" by linarith
  next
    assume "p2 e \<le> of_int m * p2 q"
    with hi have "p2 e < p2 (q + bitlen m)" by linarith
    then show "e < q + bitlen m" by simp
  qed
qed

section \<open>Rounding is exact on the format and nearest elsewhere\<close>

lemma rne_of_int [simp]: "rne (of_int n) = n"
  by (simp add: rne_def)

lemma rne_nearest: "\<bar>of_int (rne r) - r\<bar> \<le> 1 / 2"
proof -
  have "of_int \<lfloor>r\<rfloor> \<le> r" "r < of_int \<lfloor>r\<rfloor> + 1" by linarith+
  then show ?thesis by (auto simp: rne_def Let_def abs_le_iff)
qed

lemma rnd_exact_pos:
  assumes m: "0 < m" "m < 2 ^ nat (prec f)" and e: "qmin f \<le> e"
    and hi: "of_int m * p2 e < p2 (eovf f)"
  shows "rnd f (of_int m * p2 e) = FFin (of_int m * p2 e)"
    and "rnd f (- (of_int m * p2 e)) = FFin (- (of_int m * p2 e))"
proof -
  let ?a = "of_int m * p2 e"
  let ?q = "ulp_exp f ?a"
  have pf: "0 \<le> prec f" by (cases f) auto
  have a0: "0 < ?a" using m by simp
  have "rat_of_int m < of_int (2 ^ nat (prec f))" using m(2) by (simp only: of_int_less_iff)
  then have "rat_of_int m < p2 (prec f)" using pf by (simp only: p2_nat)
  then have "?a < p2 (prec f + e)" by (simp add: p2_add)
  then have "ilog2 ?a < prec f + e" using ilog2_less a0 by blast
  then have q: "?q \<le> e" using e by (simp add: ulp_exp_def)
  have "?a / p2 ?q = of_int m * (p2 e / p2 ?q)" by simp
  also have "p2 e / p2 ?q = p2 (e - ?q)" by (simp add: p2_diff)
  also have "\<dots> = of_int (2 ^ nat (e - ?q))" using q by (simp only: p2_nat)
  finally have K: "?a / p2 ?q = of_int (m * 2 ^ nat (e - ?q))" by simp
  then have r: "rne (?a / p2 ?q) = m * 2 ^ nat (e - ?q)"
    by (simp only: rne_of_int)
  from K have v: "of_int (m * 2 ^ nat (e - ?q)) * p2 ?q = ?a"
    by (metis nonzero_eq_divide_eq p2_nonzero)
  have mp: "0 < m * 2 ^ nat (e - ?q)" using m by simp
  have no: "\<not> eovf f < ?q + bitlen (m * 2 ^ nat (e - ?q))"
    using hi unfolding bitlen_overflow [OF mp] v by simp
  have step: "\<lbrakk>0 < a; rne (a / p2 (ulp_exp f a)) = k; 0 < k;
      \<not> eovf f < ulp_exp f a + bitlen k; of_int k * p2 (ulp_exp f a) = a\<rbrakk>
      \<Longrightarrow> rnd f a = FFin a \<and> rnd f (- a) = FFin (- a)" for a k
    by (simp add: rnd_def Let_def)
  show "rnd f ?a = FFin ?a" "rnd f (- ?a) = FFin (- ?a)"
    using step [OF a0 r mp no v] by blast+
qed

lemma rnd_zero [simp]: "rnd f 0 = FZero False"
  by (simp add: rnd_def)

lemma rnd_exact:
  assumes "m \<noteq> 0" "\<bar>m\<bar> < 2 ^ nat (prec f)" "qmin f \<le> e" "of_int \<bar>m\<bar> * p2 e < p2 (eovf f)"
  shows "rnd f (of_int m * p2 e) = FFin (of_int m * p2 e)"
proof (cases "0 < m")
  case True
  with assms show ?thesis by (intro rnd_exact_pos) auto
next
  case False
  with assms rnd_exact_pos(2) [of "- m" f e] show ?thesis by simp
qed

text \<open>Integers below \<open>2 ^ 53\<close> convert to \<^verbatim>\<open>f64\<close> exactly.\<close>

lemma rnd_F64_int [fp_simps]:
  assumes "n \<noteq> 0" "\<bar>n\<bar> < 2 ^ 53"
  shows "rnd F64 (of_int n) = FFin (of_int n)"
proof -
  have "rat_of_int \<bar>n\<bar> < of_int (2 ^ 53)" using assms(2) by (simp only: of_int_less_iff)
  also have "\<dots> = p2 53" by (simp add: p2_nat)
  also have "\<dots> < p2 1024" by simp
  finally have "rnd F64 (of_int n * p2 0) = FFin (of_int n * p2 0)"
    using assms by (intro rnd_exact) (simp_all add: p2_def)
  then show ?thesis by (simp add: p2_def)
qed

lemma rnd_half_ulp:
  assumes "r \<noteq> 0" "rnd f r = FFin v"
  shows "\<bar>v - r\<bar> \<le> p2 (ulp_exp f \<bar>r\<bar>) / 2"
proof -
  let ?q = "ulp_exp f \<bar>r\<bar>" and ?x = "\<bar>r\<bar> / p2 (ulp_exp f \<bar>r\<bar>)"
  have v: "v = (if r < 0 then - (of_int (rne ?x) * p2 ?q) else of_int (rne ?x) * p2 ?q)"
    using assms by (auto simp: rnd_def Let_def split: if_splits)
  have "\<bar>of_int (rne ?x) * p2 ?q - \<bar>r\<bar>\<bar> = \<bar>(of_int (rne ?x) - ?x) * p2 ?q\<bar>"
    by (simp add: left_diff_distrib)
  also have "\<dots> = \<bar>of_int (rne ?x) - ?x\<bar> * p2 ?q" by (simp add: abs_mult)
  also have "\<dots> \<le> 1 / 2 * p2 ?q"
    by (intro mult_right_mono rne_nearest) simp
  finally have "\<bar>of_int (rne ?x) * p2 ?q - \<bar>r\<bar>\<bar> \<le> p2 ?q / 2" by simp
  moreover have "\<bar>- y - r\<bar> = \<bar>y + r\<bar>" for y
    using abs_minus_cancel [of "y + r"] by simp
  then have "\<bar>v - r\<bar> = \<bar>of_int (rne ?x) * p2 ?q - \<bar>r\<bar>\<bar>"
    by (cases "r < 0") (simp_all add: v)
  ultimately show ?thesis by simp
qed

text \<open>Every rounded result is a number of the format, so rounding again changes nothing.\<close>

lemma rnd_mantissa:
  assumes "rnd f r = FFin v"
  obtains m where "m \<noteq> 0" "\<bar>m\<bar> \<le> 2 ^ nat (prec f)" "v = of_int m * p2 (ulp_exp f \<bar>r\<bar>)"
    "of_int \<bar>m\<bar> * p2 (ulp_exp f \<bar>r\<bar>) < p2 (eovf f)"
proof -
  let ?q = "ulp_exp f \<bar>r\<bar>"
  let ?m = "rne (\<bar>r\<bar> / p2 ?q)"
  have r: "r \<noteq> 0" using assms by auto
  have m: "?m \<noteq> 0" and ov: "\<not> eovf f < ?q + bitlen ?m"
    and v: "v = (if r < 0 then - (of_int ?m * p2 ?q) else of_int ?m * p2 ?q)"
    using assms r by (auto simp: rnd_def Let_def split: if_splits)
  have x: "0 \<le> \<bar>r\<bar> / p2 ?q" by simp
  with rne_nearest [of "\<bar>r\<bar> / p2 ?q"] have "- (1 / 2) \<le> rat_of_int ?m" by linarith
  then have "0 \<le> ?m" by linarith
  with m have mp: "0 < ?m" by linarith
  have pf: "0 \<le> prec f" by (cases f) auto
  have "\<bar>r\<bar> < p2 (ilog2 \<bar>r\<bar> + 1)" using ilog2_bounds r by simp
  also have "\<dots> \<le> p2 (?q + prec f)" by (simp add: ulp_exp_def)
  finally have "\<bar>r\<bar> / p2 ?q < p2 (prec f)" by (simp add: pos_divide_less_eq p2_add mult.commute)
  then have "\<bar>r\<bar> / p2 ?q < of_int (2 ^ nat (prec f))" using pf by (simp only: p2_nat)
  with rne_nearest [of "\<bar>r\<bar> / p2 ?q"] have "rat_of_int ?m < of_int (2 ^ nat (prec f)) + 1"
    by linarith
  then have "rat_of_int ?m < of_int (2 ^ nat (prec f) + 1)" by simp
  then have "?m \<le> 2 ^ nat (prec f)" by (simp only: of_int_less_iff)
  moreover have "of_int ?m * p2 ?q < p2 (eovf f)" using ov bitlen_overflow [OF mp] by (simp add: not_le)
  ultimately show thesis
    using that [of "if r < 0 then - ?m else ?m"] v mp by (cases "r < 0") auto
qed

lemma rnd_representable:
  assumes "rnd f r = FFin v"
  shows "representable f v"
proof -
  let ?q = "ulp_exp f \<bar>r\<bar>"
  obtain m where m: "m \<noteq> 0" "\<bar>m\<bar> \<le> 2 ^ nat (prec f)" "v = of_int m * p2 ?q"
    "of_int \<bar>m\<bar> * p2 ?q < p2 (eovf f)"
    using rnd_mantissa [OF assms] .
  have q: "qmin f \<le> ?q" by (simp add: ulp_exp_def)
  have "rnd f v = FFin v"
  proof (cases "\<bar>m\<bar> = 2 ^ nat (prec f)")
    case False
    with m q show ?thesis by (simp add: rnd_exact)
  next
    case True
    obtain k where k: "m = 2 * k" "\<bar>k\<bar> = 2 ^ (nat (prec f) - 1)"
    proof -
      have "(2 :: int) ^ nat (prec f) = 2 * 2 ^ (nat (prec f) - 1)"
        by (cases f) simp_all
      with True that [of "m div 2"] that [of "- (2 ^ (nat (prec f) - 1))"] show thesis
        by (cases "0 < m") auto
    qed
    have v: "v = of_int k * p2 (?q + 1)" by (simp add: m(3) k(1) p2_add) (simp add: p2_def)
    have "of_int \<bar>k\<bar> * p2 (?q + 1) < p2 (eovf f)"
      using m(4) by (simp add: k(1) abs_mult p2_add) (simp add: p2_def mult.commute)
    moreover have "\<bar>k\<bar> < 2 ^ nat (prec f)" using k(2) by (cases f) simp_all
    ultimately show ?thesis unfolding v using m(1) k(1) q by (intro rnd_exact) auto
  qed
  moreover have "v \<noteq> 0" using m by simp
  ultimately show ?thesis by (simp add: representable_def)
qed

lemma fp_ok_rnd [simp]: "fp_ok f (rnd f r)"
  by (cases "rnd f r") (auto dest: rnd_representable)

lemma rnd_fval: "fp_ok f (FFin r) \<Longrightarrow> rnd f r = FFin r"
  by (simp add: representable_def)

section \<open>Rounding is monotone\<close>

text \<open>The rounded value of a positive number before the test for overflow.\<close>

definition rval :: "fmt \<Rightarrow> rat \<Rightarrow> rat" where
  "rval f r = of_int (rne (r / p2 (ulp_exp f r))) * p2 (ulp_exp f r)"

lemma rne_mono: "a \<le> b \<Longrightarrow> rne a \<le> rne b"
proof -
  assume ab: "a \<le> b"
  then have "\<lfloor>a\<rfloor> \<le> \<lfloor>b\<rfloor>" by (rule floor_mono)
  then consider "\<lfloor>a\<rfloor> = \<lfloor>b\<rfloor>" | "\<lfloor>a\<rfloor> + 1 \<le> \<lfloor>b\<rfloor>" by linarith
  then show ?thesis
  proof cases
    case 1
    then show ?thesis using ab by (simp add: rne_def Let_def)
  next
    case 2
    have "rne a \<le> \<lfloor>a\<rfloor> + 1" "\<lfloor>b\<rfloor> \<le> rne b" by (simp_all add: rne_def Let_def)
    with 2 show ?thesis by linarith
  qed
qed

lemma rne_p2: "0 \<le> k \<Longrightarrow> rat_of_int (rne (p2 k)) = p2 k"
  by (simp only: p2_nat rne_of_int)

lemma ilog2_mono: "0 < a \<Longrightarrow> a \<le> b \<Longrightarrow> ilog2 a \<le> ilog2 b"
  using ilog2_bounds [of b] ilog2_less [of a "ilog2 b + 1"] by simp

lemma rval_mono:
  assumes "0 < a" "a \<le> b"
  shows "rval f a \<le> rval f b"
proof (cases "ulp_exp f a = ulp_exp f b")
  case True
  then show ?thesis using assms by (simp add: rval_def rne_mono divide_right_mono mult_right_mono)
next
  case False
  let ?qa = "ulp_exp f a" and ?qb = "ulp_exp f b" and ?t = "p2 (ilog2 b)"
  have p: "0 \<le> prec f - 1" by (cases f) simp_all
  have "ilog2 a < ilog2 b" and qb: "?qb = ilog2 b - (prec f - 1)" and qa: "?qa < ?qb"
    using False ilog2_mono [OF assms] by (auto simp: ulp_exp_def)
  then have "p2 (ilog2 a + 1) \<le> ?t" by simp
  then have at: "a \<le> ?t" and tb: "?t \<le> b"
    using ilog2_bounds [of a] ilog2_bounds [of b] assms by linarith+
  have "a / p2 ?qa \<le> p2 (ilog2 b - ?qa)" using at by (simp add: p2_diff divide_right_mono)
  then have "rne (a / p2 ?qa) \<le> rne (p2 (ilog2 b - ?qa))" by (rule rne_mono)
  then have "rat_of_int (rne (a / p2 ?qa)) \<le> p2 (ilog2 b - ?qa)"
    using rne_p2 [of "ilog2 b - ?qa"] qa qb p by linarith
  then have "rval f a \<le> ?t" by (simp add: rval_def p2_diff pos_le_divide_eq)
  moreover have "p2 (ilog2 b - ?qb) \<le> b / p2 ?qb" using tb by (simp add: p2_diff divide_right_mono)
  then have "rne (p2 (ilog2 b - ?qb)) \<le> rne (b / p2 ?qb)" by (rule rne_mono)
  then have "p2 (ilog2 b - ?qb) \<le> rat_of_int (rne (b / p2 ?qb))"
    using rne_p2 [of "ilog2 b - ?qb"] qb p by linarith
  then have "?t \<le> rval f b" by (simp add: rval_def p2_diff pos_divide_le_eq)
  ultimately show ?thesis by (rule order_trans)
qed

lemma rnd_rval:
  assumes "0 < r"
  shows "rnd f r = (if rval f r = 0 then FZero False
                    else if p2 (eovf f) \<le> rval f r then FInf False else FFin (rval f r))"
proof -
  let ?m = "rne (r / p2 (ulp_exp f r))"
  have "0 \<le> ?m" using rne_mono [of 0 "r / p2 (ulp_exp f r)"] rne_of_int [of 0] assms by simp
  then have "?m = 0 \<or> 0 < ?m" by linarith
  then show ?thesis
    using assms bitlen_overflow [of ?m "eovf f" "ulp_exp f r"] by (auto simp: rnd_def rval_def Let_def not_le)
qed

lemma rnd_between:
  assumes "0 < lo" "representable f lo" "representable f hi" "lo \<le> r" "r \<le> hi"
  shows "\<exists>v. rnd f r = FFin v \<and> lo \<le> v \<and> v \<le> hi"
proof -
  have "rval f lo = lo \<and> rval f hi = hi \<and> hi < p2 (eovf f)"
    using assms rnd_rval [of lo f] rnd_rval [of hi f] by (auto simp: representable_def not_le split: if_splits)
  then show ?thesis
    using assms rval_mono [of lo r f] rval_mono [of r hi f] rnd_rval [of r f] by auto
qed

section \<open>Order\<close>

text \<open>
  Numbers that are not NaN are ordered by their value between the two infinities: a
  lexicographic key makes the comparison a linear order, and sorting by \<open>fcmp\<close> the
  library's \<open>sort_key\<close>.
\<close>

fun fkey :: "fp \<Rightarrow> int \<times> rat" where
  "fkey (FInf s) = (if s then - 1 else 1, 0)"
| "fkey x = (0, fval x)"

lemma flt_iff_key: "\<not> is_nan a \<Longrightarrow> \<not> is_nan b \<Longrightarrow> flt a b \<longleftrightarrow> fkey a < fkey b"
  by (cases a; cases b) (auto simp: less_prod_def)

lemma feq_iff_key: "\<not> is_nan a \<Longrightarrow> \<not> is_nan b \<Longrightarrow> feq a b \<longleftrightarrow> fkey a = fkey b"
  by (auto simp: feq_def flt_iff_key not_less)

lemma fle_iff_key: "\<not> is_nan a \<Longrightarrow> \<not> is_nan b \<Longrightarrow> fle a b \<longleftrightarrow> fkey a \<le> fkey b"
  by (auto simp: fle_def flt_iff_key feq_iff_key)

lemma fle_refl [simp]: "fle a a \<longleftrightarrow> \<not> is_nan a"
  by (cases "is_nan a") (auto simp: fle_iff_key, auto simp: fle_def feq_def elim: is_nan.elims)

lemma nan_compares_false [simp]:
  "flt FNaN b = False" "flt a FNaN = False" "fle FNaN b = False" "fle a FNaN = False"
  "feq FNaN b = False" "feq a FNaN = False"
  by (cases a; simp add: fle_def feq_def)+

lemma fcmp_Greater_iff: "\<not> is_nan a \<Longrightarrow> \<not> is_nan b \<Longrightarrow> fcmp a b = Greater \<longleftrightarrow> fkey b < fkey a"
  by (auto simp: fcmp_def flt_iff_key)

lemma set_insert_by [simp]: "set (insert_by c x xs) = insert x (set xs)"
  by (induction xs) auto

lemma mset_insert_by [simp]: "mset (insert_by c x xs) = add_mset x (mset xs)"
  by (induction xs) auto

lemma mset_sort_by [simp]: "mset (sort_by c xs) = mset xs"
  by (induction xs) auto

lemma set_sort_by [simp]: "set (sort_by c xs) = set xs"
  by (metis mset_sort_by set_mset_mset)

lemma length_sort_by [simp]: "length (sort_by c xs) = length xs"
  by (metis mset_sort_by size_mset)

lemma sort_by_eq_sort_key:
  "\<forall>x \<in> set xs. \<not> is_nan x \<Longrightarrow> sort_by fcmp xs = sort_key fkey xs"
proof (induction xs)
  case (Cons x xs)
  have "insert_by fcmp x ys = insort_key fkey x ys" if "\<forall>y \<in> set ys. \<not> is_nan y" for ys
    using that Cons.prems by (induction ys) (auto simp: fcmp_Greater_iff)
  then show ?case using Cons by simp
qed simp

section \<open>Exact results\<close>

fun is_fin :: "fp \<Rightarrow> bool" where
  "is_fin (FZero _) = True"
| "is_fin (FFin _) = True"
| "is_fin _ = False"

lemma is_fin_not_nan: "is_fin x \<Longrightarrow> \<not> is_nan x"
  by (cases x) auto

lemma fsub_self [simp]: "is_fin x \<Longrightarrow> fsub f x x = FZero False"
  by (cases x) (auto simp: fsub_def)

lemma fadd_zero [simp]: "fp_ok f x \<Longrightarrow> fadd f x (FZero False) = (case x of FZero s \<Rightarrow> FZero False | _ \<Rightarrow> x)"
  by (cases x) (auto simp: representable_def)

lemma fsub_pos_zero [simp]: "fp_ok f x \<Longrightarrow> fsub f x (FZero False) = x"
  by (cases x) (auto simp: fsub_def representable_def)

lemma fadd_pos_zero_left [simp]: "fp_ok f x \<Longrightarrow> x \<noteq> FZero True \<Longrightarrow> fadd f (FZero False) x = x"
  by (cases x) (auto simp: representable_def)

lemma fdiv_zero [simp]: "is_fin y \<Longrightarrow> fval y \<noteq> 0 \<Longrightarrow> fdiv f (FZero s) y = FZero (s \<noteq> sign_neg y)"
  by (cases y) (auto simp: fdiv_def rnd_sign_def)

lemma fdiv_one [simp]: "fp_ok f x \<Longrightarrow> fdiv f x (FFin 1) = x"
  by (cases x) (auto simp: fdiv_def rnd_sign_def representable_def)

lemma fmul_zero [simp]: "fmul f (FZero s) (FZero t) = FZero (s \<noteq> t)"
  by (auto simp: fmul_def rnd_sign_def)

text \<open>Small integers: addition, subtraction and multiplication are those of \<open>int\<close>.\<close>

definition fint :: "int \<Rightarrow> fp" where
  "fint n = (if n = 0 then FZero False else FFin (of_int n))"

lemma fval_fint [simp]: "fval (fint n) = of_int n"
  by (simp add: fint_def)

lemma is_fin_fint [simp]: "is_fin (fint n)" "\<not> is_nan (fint n)"
  by (simp_all add: fint_def)

lemma fkey_fint [simp]: "fkey (fint n) = (0, of_int n)"
  by (simp add: fint_def)

lemma of_int_fp_F64 [fp_simps]: "\<bar>n\<bar> < 2 ^ 53 \<Longrightarrow> of_int_fp F64 n = fint n"
  by (simp add: of_int_fp_def fint_def rnd_F64_int)

lemma rnd_F64_fint: "\<bar>n\<bar> < 2 ^ 53 \<Longrightarrow> rnd F64 (of_int n) = fint n"
  by (simp add: fint_def rnd_F64_int)

lemma fadd_fint [fp_simps]: "\<bar>a + b\<bar> < 2 ^ 53 \<Longrightarrow> \<bar>a\<bar> < 2 ^ 53 \<Longrightarrow> \<bar>b\<bar> < 2 ^ 53
    \<Longrightarrow> fadd F64 (fint a) (fint b) = fint (a + b)"
  using rnd_F64_fint [of "a + b"] rnd_F64_fint [of a] rnd_F64_fint [of b]
  by (auto simp: fint_def split: if_splits)

lemma fneg_fint: "n \<noteq> 0 \<Longrightarrow> fneg (fint n) = fint (- n)"
  by (simp add: fint_def)

lemma fsub_fint [fp_simps]:
  assumes "\<bar>a - b\<bar> < 2 ^ 53" "\<bar>a\<bar> < 2 ^ 53" "\<bar>b\<bar> < 2 ^ 53"
  shows "fsub F64 (fint a) (fint b) = fint (a - b)"
proof (cases "b = 0")
  case True
  then show ?thesis using rnd_F64_fint [OF assms(2)] by (auto simp: fint_def fsub_def)
next
  case False
  then show ?thesis
    using fadd_fint [of a "- b"] assms by (simp add: fsub_def fneg_fint)
qed

lemma fmul_one_fint [fp_simps]: "\<bar>a\<bar> < 2 ^ 53 \<Longrightarrow> fmul F64 (FFin 1) (fint a) = fint a"
  using rnd_F64_fint [of a] by (auto simp: fmul_def rnd_sign_def fint_def)

lemma fdiv_fint_self [fp_simps]: "d \<noteq> 0 \<Longrightarrow> fdiv F64 (fint d) (fint d) = FFin 1"
  using rnd_F64_fint [of 1] by (auto simp: fdiv_def rnd_sign_def fint_def)

lemma fabs_fint [fp_simps]: "fabs (fint n) = fint \<bar>n\<bar>"
  by (simp add: fint_def)

lemma fround_fint [fp_simps]: "fround (fint n) = fint n"
  by (simp add: fint_def round_away_def Let_def) linarith

lemma fceil_fint [fp_simps]: "fceil (fint n) = fint n"
  by (simp add: fint_def Let_def)

lemma fp_to_i128_fint [fp_simps]: "\<bar>n\<bar> < 2 ^ 100 \<Longrightarrow> fp_to_i128 (fint n) = n"
  by (auto simp: fp_to_i128_def fint_def trunc_rat_def i128_min_def i128_max_def)

lemma fp_to_u64_fint [fp_simps]: "0 \<le> n \<Longrightarrow> n < 2 ^ 64 \<Longrightarrow> fp_to_u64 (fint n) = word_of_int n"
  by (auto simp: fp_to_u64_def fint_def trunc_rat_def)

end
