(* ===== verification/Fast_Ring.thy ===== *)
theory Fast_Ring
  imports Floats
begin

text \<open>
  The in-memory metric ring of the live plane, \<^verbatim>\<open>crates/perfweave-server/src/fast_ring.rs\<close>.
  A \<open>SeriesRing\<close> holds two circular buffers per series; \<open>FastRing\<close> is the writer's map
  of series together with the snapshot that readers load. Clock readings are arguments
  (\<open>now\<close>), and so is the order in which a hash map is iterated. The lemmas show that the
  buffers refine sliding windows over the samples pushed, and that a reader sees exactly
  the windows at the last publication.
\<close>

section \<open>Model\<close>

definition SLOW_HZ :: u64 where "SLOW_HZ = 1"

definition FAST_HZ :: u64 where "FAST_HZ = 10"

definition SLOW_WINDOW_S :: u64 where "SLOW_WINDOW_S = 120"

definition FAST_WINDOW_S :: u64 where "FAST_WINDOW_S = 10"

definition SLOW_CAPACITY :: nat where "SLOW_CAPACITY = unat (SLOW_WINDOW_S * SLOW_HZ)"

definition FAST_CAPACITY :: nat where "FAST_CAPACITY = unat (FAST_WINDOW_S * FAST_HZ)"

record SeriesKey =
  sk_node_id :: u32
  sk_gpu_id :: u32
  sk_metric_id :: u64

record Sample =
  s_ts_ns :: u64
  s_value :: f64

record SeriesRing =
  slow :: "Sample list"
  slow_head :: nat
  slow_len :: nat
  fast :: "Sample list"
  fast_head :: nat
  fast_len :: nat
  last_slow_ns :: u64

record SeriesSnapshot =
  ss_slow :: "Sample list"
  ss_fast :: "Sample list"

record FastRingSnapshot =
  fs_series :: "SeriesKey \<rightharpoonup> SeriesSnapshot"
  fs_published_at_ns :: u64

record FastRing =
  fr_writer :: "SeriesKey \<rightharpoonup> SeriesRing"
  fr_snapshot :: FastRingSnapshot

definition zero_sample :: Sample where
  "zero_sample = \<lparr>s_ts_ns = 0, s_value = FZero False\<rparr>"

definition series_ring_new :: SeriesRing where
  "series_ring_new =
     \<lparr>slow = replicate SLOW_CAPACITY zero_sample, slow_head = 0, slow_len = 0,
      fast = replicate FAST_CAPACITY zero_sample, fast_head = 0, fast_len = 0,
      last_slow_ns = 0\<rparr>"

text \<open>The first half of \<^verbatim>\<open>SeriesRing::push\<close>: every sample enters the fast ring.\<close>

definition push_fast :: "SeriesRing \<Rightarrow> Sample \<Rightarrow> SeriesRing" where
  "push_fast r s =
     r\<lparr>fast := (fast r)[fast_head r := s],
       fast_head := (fast_head r + 1) mod FAST_CAPACITY,
       fast_len := (if fast_len r < FAST_CAPACITY then fast_len r + 1 else fast_len r)\<rparr>"

text \<open>The body of its second half: the sample enters the slow ring.\<close>

definition push_slow :: "SeriesRing \<Rightarrow> Sample \<Rightarrow> SeriesRing" where
  "push_slow r s =
     r\<lparr>slow := (slow r)[slow_head r := s],
       slow_head := (slow_head r + 1) mod SLOW_CAPACITY,
       slow_len := (if slow_len r < SLOW_CAPACITY then slow_len r + 1 else slow_len r),
       last_slow_ns := s_ts_ns s\<rparr>"

definition series_push :: "SeriesRing \<Rightarrow> Sample \<Rightarrow> SeriesRing" where
  "series_push r s =
     (let r' = push_fast r s
      in if last_slow_ns r' + 950000000 \<le> s_ts_ns s then push_slow r' s else r')"

definition read_ring :: "'a list \<Rightarrow> nat \<Rightarrow> nat \<Rightarrow> 'a list" where
  "read_ring buf head len =
     (if len = 0 then []
      else let cap = length buf; start = (head + cap - len) mod cap
           in map (\<lambda>i. buf ! ((start + i) mod cap)) [0..<len])"

definition series_snapshot :: "SeriesRing \<Rightarrow> SeriesSnapshot" where
  "series_snapshot r =
     \<lparr>ss_slow = read_ring (slow r) (slow_head r) (slow_len r),
      ss_fast = read_ring (fast r) (fast_head r) (fast_len r)\<rparr>"

definition fast_ring_new :: FastRing where
  "fast_ring_new =
     \<lparr>fr_writer = Map.empty, fr_snapshot = \<lparr>fs_series = Map.empty, fs_published_at_ns = 0\<rparr>\<rparr>"

definition fast_ring_push :: "FastRing \<Rightarrow> SeriesKey \<Rightarrow> Sample \<Rightarrow> FastRing" where
  "fast_ring_push fr k s =
     fr\<lparr>fr_writer := (fr_writer fr)
          (k \<mapsto> series_push (case fr_writer fr k of None \<Rightarrow> series_ring_new | Some r \<Rightarrow> r) s)\<rparr>"

definition fast_ring_publish :: "u64 \<Rightarrow> FastRing \<Rightarrow> FastRing" where
  "fast_ring_publish now fr =
     fr\<lparr>fr_snapshot := \<lparr>fs_series = (\<lambda>k. map_option series_snapshot (fr_writer fr k)),
                        fs_published_at_ns = now\<rparr>\<rparr>"

definition fast_ring_snapshot :: "FastRing \<Rightarrow> FastRingSnapshot" where
  "fast_ring_snapshot fr = fr_snapshot fr"

text \<open>
  \<^verbatim>\<open>for_each_series\<close> folds its closure over the current snapshot; \<open>order\<close> is the order
  in which the hash map yields its keys.
\<close>

fun visit_series ::
  "(SeriesKey \<rightharpoonup> SeriesSnapshot) \<Rightarrow> SeriesKey list \<Rightarrow> (SeriesKey \<Rightarrow> SeriesSnapshot \<Rightarrow> 'c \<Rightarrow> 'c) \<Rightarrow> 'c \<Rightarrow> 'c"
where
  "visit_series m [] f acc = acc"
| "visit_series m (k # ks) f acc =
     visit_series m ks f (case m k of None \<Rightarrow> acc | Some v \<Rightarrow> f k v acc)"

definition for_each_series ::
  "FastRing \<Rightarrow> SeriesKey list \<Rightarrow> (SeriesKey \<Rightarrow> SeriesSnapshot \<Rightarrow> 'c \<Rightarrow> 'c) \<Rightarrow> 'c \<Rightarrow> 'c" where
  "for_each_series fr order f acc = visit_series (fs_series (fr_snapshot fr)) order f acc"

text \<open>
  The tasks that use the ring: ingest pushes, the publisher's ticker publishes. The
  publisher stops at the first wake-up that finds the shutdown flag set.
\<close>

datatype ring_op = Push SeriesKey Sample | Publish u64

fun ring_step :: "FastRing \<Rightarrow> ring_op \<Rightarrow> FastRing" where
  "ring_step fr (Push k s) = fast_ring_push fr k s"
| "ring_step fr (Publish now) = fast_ring_publish now fr"

definition ring_run :: "ring_op list \<Rightarrow> FastRing" where
  "ring_run ops = foldl ring_step fast_ring_new ops"

datatype wakeup = ShutdownChanged bool | TickAt u64

fun spawn_publisher :: "wakeup list \<Rightarrow> FastRing \<Rightarrow> FastRing" where
  "spawn_publisher [] fr = fr"
| "spawn_publisher (ShutdownChanged b # ws) fr = (if b then fr else spawn_publisher ws fr)"
| "spawn_publisher (TickAt now # ws) fr = spawn_publisher ws (fast_ring_publish now fr)"

section \<open>Specification\<close>

text \<open>
  What the two tails are to hold, said without the code's state: the fast tail the last 100 samples,
  the slow tail the last 120 of a thinned list, in which each sample is the first one at least 950 ms
  after the one before it.
\<close>

function thin :: "Sample list \<Rightarrow> Sample list" where
  "thin [] = []"
| "thin (s # ss) = s # thin (dropWhile (\<lambda>x. uint (s_ts_ns x) < uint (s_ts_ns s) + 950000000) ss)"
  by pat_completeness auto
termination
  by (relation "measure length") (simp_all add: length_dropWhile_le less_Suc_eq_le)

definition tails :: "Sample list \<Rightarrow> SeriesSnapshot" where
  "tails xs = \<lparr>ss_slow = last_n 120 (thin xs), ss_fast = last_n 100 xs\<rparr>"

text \<open>The same in the code's own terms: the samples accepted after one at time \<open>t\<close>, in 64-bit arithmetic.\<close>

fun decimate :: "u64 \<Rightarrow> Sample list \<Rightarrow> Sample list" where
  "decimate t [] = []"
| "decimate t (s # ss) =
     (if t + 950000000 \<le> s_ts_ns s then s # decimate (s_ts_ns s) ss else decimate t ss)"

text \<open>The samples pushed to one series before the last publication of a run.\<close>

fun pushed :: "SeriesKey \<Rightarrow> ring_op list \<Rightarrow> Sample list" where
  "pushed k [] = []"
| "pushed k (Push k' s # ops) = (if k' = k then s # pushed k ops else pushed k ops)"
| "pushed k (Publish now # ops) = pushed k ops"

text \<open>What the buffers hold; a new ring accepts samples as if there had been one at time 0.\<close>

definition windows :: "Sample list \<Rightarrow> SeriesSnapshot" where
  "windows xs = \<lparr>ss_slow = last_n SLOW_CAPACITY (decimate 0 xs), ss_fast = last_n FAST_CAPACITY xs\<rparr>"

definition ring_ok :: "'a list \<Rightarrow> nat \<Rightarrow> nat \<Rightarrow> bool" where
  "ring_ok buf head len \<longleftrightarrow> head < length buf \<and> len \<le> length buf"

definition series_ok :: "SeriesRing \<Rightarrow> bool" where
  "series_ok r \<longleftrightarrow>
     length (slow r) = SLOW_CAPACITY \<and> ring_ok (slow r) (slow_head r) (slow_len r) \<and>
     length (fast r) = FAST_CAPACITY \<and> ring_ok (fast r) (fast_head r) (fast_len r)"

text \<open>
  What a windowed buffer promises its clients: after any pushes it holds the last
  \<open>cap\<close> of the elements pushed.
\<close>

locale sliding_window =
  fixes push :: "'r \<Rightarrow> 'a \<Rightarrow> 'r" and contents :: "'r \<Rightarrow> 'a list" and inv :: "'r \<Rightarrow> bool"
    and cap :: nat
  assumes inv_push: "inv r \<Longrightarrow> inv (push r x)"
    and contents_push: "inv r \<Longrightarrow> contents (push r x) = last_n cap (contents r @ [x])"
    and contents_bound: "inv r \<Longrightarrow> length (contents r) \<le> cap"
begin

lemma inv_pushes: "inv r \<Longrightarrow> inv (foldl push r xs)"
  by (induction xs arbitrary: r) (auto simp: inv_push)

lemma contents_pushes: "inv r \<Longrightarrow> contents (foldl push r xs) = last_n cap (contents r @ xs)"
proof (induction xs arbitrary: r)
  case Nil
  then show ?case by (simp add: last_n_all contents_bound)
next
  case (Cons x xs)
  then show ?case
    using last_n_snoc_last_n [of cap "contents r @ [x]" xs] by (simp add: inv_push contents_push)
qed

end

section \<open>The circular buffer is a window\<close>

lemma capacities [simp]: "SLOW_CAPACITY = 120" "FAST_CAPACITY = 100"
  by (simp_all add: SLOW_CAPACITY_def FAST_CAPACITY_def SLOW_WINDOW_S_def SLOW_HZ_def
      FAST_WINDOW_S_def FAST_HZ_def)

text \<open>Element \<open>i\<close> of a window of \<open>len\<close> elements lies \<open>len - i\<close> slots before the head.\<close>

lemma slot_before_head:
  fixes head cap i len :: nat
  assumes "head < cap" "i < len" "len \<le> cap"
  shows "((head + cap - len) mod cap + i) mod cap =
    (if len - i \<le> head then head - (len - i) else head + cap - (len - i))"
proof -
  have "((head + cap - len) mod cap + i) mod cap = (head + cap - len + i) mod cap"
    by (rule mod_add_left_eq)
  also have "head + cap - len + i = head + cap - (len - i)" using assms by simp
  also have "\<dots> mod cap = (if len - i \<le> head then head - (len - i) else head + cap - (len - i))"
  proof (cases "len - i \<le> head")
    case True
    then have "head + cap - (len - i) = head - (len - i) + cap" by simp
    then have "(head + cap - (len - i)) mod cap = (head - (len - i)) mod cap"
      by (simp only: mod_add_self2)
    then show ?thesis using True assms by simp
  next
    case False
    then show ?thesis using assms by (simp add: mod_less)
  qed
  finally show ?thesis .
qed

definition slot_back :: "nat \<Rightarrow> nat \<Rightarrow> nat \<Rightarrow> nat" where
  "slot_back head cap d = (if d \<le> head then head - d else head + cap - d)"

lemma slot_back_succ:
  assumes "head < cap" "2 \<le> d" "d \<le> cap"
  shows "slot_back (if head + 1 = cap then 0 else head + 1) cap d = slot_back head cap (d - 1)
    \<and> slot_back head cap (d - 1) \<noteq> head"
  using assms by (auto simp: slot_back_def)

lemma succ_mod_less: "(head :: nat) < cap \<Longrightarrow> Suc head mod cap < cap"
  by (rule mod_less_divisor) simp

lemma length_read_ring [simp]: "length (read_ring buf head len) = len"
  by (simp add: read_ring_def Let_def)

lemma read_ring_nth:
  assumes "ring_ok buf head len" "i < len"
  shows "read_ring buf head len ! i =
    buf ! (if len - i \<le> head then head - (len - i) else head + length buf - (len - i))"
  using assms slot_before_head [of head "length buf" i len]
  by (simp add: read_ring_def ring_ok_def Let_def)

lemma read_ring_write:
  assumes ok: "ring_ok buf head len"
  shows "read_ring (buf[head := x]) ((head + 1) mod length buf)
      (if len < length buf then len + 1 else len) =
    last_n (length buf) (read_ring buf head len @ [x])" (is "?l = ?r")
proof (rule nth_equalityI)
  let ?cap = "length buf" and ?h = "(head + 1) mod length buf"
  let ?len = "if len < length buf then len + 1 else len"
  have hd: "head < ?cap" "len \<le> ?cap" using ok by (simp_all add: ring_ok_def)
  then have ok': "ring_ok (buf[head := x]) ?h ?len"
    using succ_mod_less [of head ?cap] by (simp add: ring_ok_def)
  show "length ?l = length ?r" using hd by auto
  fix i assume "i < length ?l"
  then have i: "i < ?len" by simp
  have h: "?h = (if head + 1 = ?cap then 0 else head + 1)" using hd by (simp add: mod_if)
  have l: "?l ! i = buf[head := x] ! (if ?len - i \<le> ?h then ?h - (?len - i) else ?h + ?cap - (?len - i))"
    using read_ring_nth [OF ok' i] by simp
  have r: "?r ! i = (read_ring buf head len @ [x]) ! (len + 1 - ?len + i)"
    unfolding last_n_def using i hd by (subst nth_drop) (auto split: if_splits)
  show "?l ! i = ?r ! i"
  proof (cases "i + 1 = ?len")
    case True
    then have "len + 1 - ?len + i = len" using hd by (auto split: if_splits)
    then have "?r ! i = x" using r by (metis length_read_ring nth_append_length)
    moreover have "?len - i = 1" using True i by linarith
    then have "(if ?len - i \<le> ?h then ?h - (?len - i) else ?h + ?cap - (?len - i)) = head"
      unfolding h using hd by (auto split: if_splits)
    then have "?l ! i = x" using l hd by simp
    ultimately show ?thesis by simp
  next
    case False
    let ?j = "len + 1 - ?len + i"
    have j: "?j < len" "len - ?j = ?len - i - 1" using False i by (auto split: if_splits)
    have "?r ! i = read_ring buf head len ! ?j" using r j(1) by (simp add: nth_append)
    also have "\<dots> = buf ! (if len - ?j \<le> head then head - (len - ?j) else head + ?cap - (len - ?j))"
      using read_ring_nth [OF ok j(1)] .
    also have "\<dots> = buf ! slot_back head ?cap (len - ?j)" by (simp add: slot_back_def)
    also have "\<dots> = buf[head := x] ! slot_back ?h ?cap (?len - i)"
    proof -
      have "2 \<le> ?len - i" "?len - i \<le> ?cap" using i hd False by (auto split: if_splits)
      then show ?thesis
        unfolding j(2) h using slot_back_succ [OF hd(1), of "?len - i"] by (metis nth_list_update_neq)
    qed
    also have "\<dots> = ?l ! i" using l by (simp add: slot_back_def)
    finally show ?thesis by simp
  qed
qed

lemma series_ok_new: "series_ok series_ring_new"
  by (simp add: series_ok_def series_ring_new_def ring_ok_def)

lemma ring_ok_write:
  "ring_ok buf head len \<Longrightarrow> ring_ok (buf[head := x]) ((head + 1) mod length buf)
     (if len < length buf then len + 1 else len)"
  using succ_mod_less [of head "length buf"] by (auto simp: ring_ok_def)

lemma series_ok_push_fast: "series_ok r \<Longrightarrow> series_ok (push_fast r s)"
  using ring_ok_write [of "fast r" "fast_head r" "fast_len r" s]
  by (auto simp: series_ok_def push_fast_def)

lemma series_ok_push_slow: "series_ok r \<Longrightarrow> series_ok (push_slow r s)"
  using ring_ok_write [of "slow r" "slow_head r" "slow_len r" s]
  by (auto simp: series_ok_def push_slow_def)

lemma series_ok_push: "series_ok r \<Longrightarrow> series_ok (series_push r s)"
  by (simp add: series_push_def Let_def series_ok_push_fast series_ok_push_slow)

lemma snapshot_push_fast:
  "series_ok r \<Longrightarrow> series_snapshot (push_fast r s) =
     (series_snapshot r)\<lparr>ss_fast := last_n FAST_CAPACITY (ss_fast (series_snapshot r) @ [s])\<rparr>"
  using read_ring_write [of "fast r" "fast_head r" "fast_len r" s]
  by (auto simp: series_ok_def push_fast_def series_snapshot_def)

lemma snapshot_push_slow:
  "series_ok r \<Longrightarrow> series_snapshot (push_slow r s) =
     (series_snapshot r)\<lparr>ss_slow := last_n SLOW_CAPACITY (ss_slow (series_snapshot r) @ [s])\<rparr>"
  using read_ring_write [of "slow r" "slow_head r" "slow_len r" s]
  by (auto simp: series_ok_def push_slow_def series_snapshot_def)

lemma snapshot_bounds:
  "series_ok r \<Longrightarrow> length (ss_fast (series_snapshot r)) \<le> FAST_CAPACITY
     \<and> length (ss_slow (series_snapshot r)) \<le> SLOW_CAPACITY"
  by (simp add: series_ok_def ring_ok_def series_snapshot_def)

interpretation fast_tail: sliding_window series_push "\<lambda>r. ss_fast (series_snapshot r)" series_ok
  FAST_CAPACITY
  by unfold_locales
    (auto simp: series_ok_push series_push_def Let_def snapshot_push_slow snapshot_push_fast
      series_ok_push_fast series_ok_push_slow dest: snapshot_bounds)

interpretation slow_tail: sliding_window push_slow "\<lambda>r. ss_slow (series_snapshot r)" series_ok
  SLOW_CAPACITY
  by unfold_locales (auto simp: series_ok_push_slow snapshot_push_slow dest: snapshot_bounds)

section \<open>Properties\<close>

lemma snapshot_new: "series_snapshot series_ring_new = windows []"
  by (simp add: series_snapshot_def series_ring_new_def read_ring_def windows_def)

lemma last_slow_new [simp]: "last_slow_ns series_ring_new = 0"
  by (simp add: series_ring_new_def)

lemma push_frames [simp]:
  "last_slow_ns (push_fast r s) = last_slow_ns r" "last_slow_ns (push_slow r s) = s_ts_ns s"
  by (simp_all add: push_fast_def push_slow_def)

lemma slow_pushes:
  "series_ok r \<Longrightarrow> ss_slow (series_snapshot (foldl series_push r xs)) =
     last_n SLOW_CAPACITY (ss_slow (series_snapshot r) @ decimate (last_slow_ns r) xs)"
proof (induction xs arbitrary: r)
  case Nil
  then show ?case using snapshot_bounds by (simp add: last_n_all)
next
  case (Cons s xs)
  have ok: "series_ok (push_fast r s)" using Cons.prems by (rule series_ok_push_fast)
  show ?case
  proof (cases "last_slow_ns r + 950000000 \<le> s_ts_ns s")
    case True
    let ?r = "push_slow (push_fast r s) s"
    have "ss_slow (series_snapshot ?r) = last_n SLOW_CAPACITY (ss_slow (series_snapshot r) @ [s])"
      using slow_tail.contents_push [OF ok] snapshot_push_fast [OF Cons.prems] by simp
    then show ?thesis
      using True Cons.IH [of ?r] ok last_n_snoc_last_n [of SLOW_CAPACITY "ss_slow (series_snapshot r) @ [s]"]
      by (simp add: series_push_def series_ok_push_slow)
  next
    case False
    then show ?thesis
      using Cons.IH [OF ok] snapshot_push_fast [OF Cons.prems] by (simp add: series_push_def)
  qed
qed

lemma snapshot_pushes: "series_snapshot (foldl series_push series_ring_new xs) = windows xs"
proof (rule SeriesSnapshot.equality)
  show "ss_fast (series_snapshot (foldl series_push series_ring_new xs)) = ss_fast (windows xs)"
    using fast_tail.contents_pushes [OF series_ok_new] by (simp add: snapshot_new windows_def)
  show "ss_slow (series_snapshot (foldl series_push series_ring_new xs)) = ss_slow (windows xs)"
    using slow_pushes [OF series_ok_new] by (simp add: snapshot_new windows_def)
qed simp

lemma decimate_thin:
  assumes "\<forall>s \<in> set xs. uint (s_ts_ns s) + 950000000 < 2 ^ 64" "uint t + 950000000 < 2 ^ 64"
  shows "decimate t xs = thin (dropWhile (\<lambda>x. uint (s_ts_ns x) < uint t + 950000000) xs)"
  using assms
proof (induction xs arbitrary: t)
  case (Cons s xs)
  have t: "t + 950000000 \<le> s_ts_ns s \<longleftrightarrow> uint t + 950000000 \<le> uint (s_ts_ns s)"
    using Cons.prems(2) by (simp add: word_le_def uint_word_ariths)
  then show ?case using Cons by (auto simp: not_less)
qed simp

lemma windows_tails:
  assumes "\<forall>s \<in> set xs. uint (s_ts_ns s) + 950000000 < 2 ^ 64"
  shows "windows xs = (tails xs)\<lparr>ss_slow := ss_slow (tails (dropWhile (\<lambda>s. uint (s_ts_ns s) < 950000000) xs))\<rparr>"
  using decimate_thin [OF assms, of 0] by (simp add: windows_def tails_def capacities)

text \<open>
  C3: The two circular buffers of a series refine two lists. After any sequence of pushes the fast tail
  is the last 100 samples and the slow tail the last 120 of the samples thinned to one per
  950 ms, oldest first, whatever the wrap-around of the buffers, provided that the series starts no
  earlier than 950 ms after the epoch, as every series with real time stamps does.
  In general the samples at the head of the series that are earlier than 950 ms after the epoch are missing
  from the slow tail, because a new ring acts as if it had kept a sample at time 0: the five samples of
  the unit test at the times 0 s to 4 s leave four in the slow tail, not the five it asserts. Time stamps in the
  last 950 ms of the 64-bit range are excluded.
\<close>

theorem series_ring_refines_windows:
  assumes "\<forall>s \<in> set xs. uint (s_ts_ns s) + 950000000 < 2 ^ 64"
  shows "(xs = [] \<or> 950000000 \<le> uint (s_ts_ns (hd xs)) \<longrightarrow>
       series_snapshot (foldl series_push series_ring_new xs) = tails xs)
    \<and> ss_fast (series_snapshot (foldl series_push series_ring_new xs)) = ss_fast (tails xs)
    \<and> ss_slow (series_snapshot (foldl series_push series_ring_new xs)) =
        ss_slow (tails (dropWhile (\<lambda>s. uint (s_ts_ns s) < 950000000) xs))"
proof -
  have "dropWhile (\<lambda>s. uint (s_ts_ns s) < 950000000) xs = xs"
    if "xs = [] \<or> 950000000 \<le> uint (s_ts_ns (hd xs))"
    using that by (cases xs) auto
  then show ?thesis unfolding snapshot_pushes windows_tails [OF assms] by auto
qed

text \<open>The samples of the unit test, and the same ones a second later.\<close>

definition test_samples :: "int \<Rightarrow> Sample list" where
  "test_samples start = map (\<lambda>i. \<lparr>s_ts_ns = word_of_int ((start + i) * 1000000000), s_value = FZero False\<rparr>) [0..4]"

theorem series_ring_refines_windows_witness:
  "length (ss_slow (series_snapshot (foldl series_push series_ring_new (test_samples 0)))) = 4
   \<and> length (ss_fast (series_snapshot (foldl series_push series_ring_new (test_samples 0)))) = 5
   \<and> series_snapshot (foldl series_push series_ring_new (test_samples 1)) =
       \<lparr>ss_slow = test_samples 1, ss_fast = test_samples 1\<rparr>"
proof -
  have r: "\<forall>s \<in> set (test_samples t). uint (s_ts_ns s) + 950000000 < 2 ^ 64" if "t \<in> {0, 1}" for t
    using that by (auto simp: test_samples_def upto.simps)
  have "length (ss_slow (tails (dropWhile (\<lambda>s. uint (s_ts_ns s) < 950000000) (test_samples 0)))) = 4"
    "length (ss_fast (tails (test_samples 0))) = 5"
    "tails (test_samples 1) = \<lparr>ss_slow = test_samples 1, ss_fast = test_samples 1\<rparr>"
    "950000000 \<le> uint (s_ts_ns (hd (test_samples 1)))"
    by code_simp+
  then show ?thesis
    using series_ring_refines_windows [OF r, of 0] series_ring_refines_windows [OF r, of 1] by simp
qed

text \<open>
  No push ever indexes a buffer out of bounds: in every series reached by pushes the
  buffers keep their capacity, the heads stay below it and the lengths never exceed it.
\<close>

theorem series_ring_in_bounds: "series_ok (foldl series_push series_ring_new xs)"
  using fast_tail.inv_pushes [OF series_ok_new] .

lemma decimate_spaced:
  assumes "\<forall>s \<in> set xs. uint (s_ts_ns s) + 950000000 < 2 ^ 64" "uint t + 950000000 < 2 ^ 64"
  shows "sorted_wrt (\<lambda>a b. uint (s_ts_ns a) + 950000000 \<le> uint (s_ts_ns b)) (decimate t xs)
    \<and> (\<forall>s \<in> set (decimate t xs). uint t + 950000000 \<le> uint (s_ts_ns s))"
  using assms
proof (induction xs arbitrary: t)
  case (Cons s xs)
  have t: "uint (t + 950000000) = uint t + 950000000"
    using Cons.prems(2) by (simp add: uint_word_ariths)
  have IH: "sorted_wrt (\<lambda>a b. uint (s_ts_ns a) + 950000000 \<le> uint (s_ts_ns b)) (decimate u xs)
      \<and> (\<forall>s \<in> set (decimate u xs). uint u + 950000000 \<le> uint (s_ts_ns s))"
    if "uint u + 950000000 < 2 ^ 64" for u
    using Cons.IH Cons.prems(1) that by simp
  show ?case
  proof (cases "t + 950000000 \<le> s_ts_ns s")
    case True
    then have "uint t + 950000000 \<le> uint (s_ts_ns s)" using t by (simp add: word_le_def)
    with True IH [of "s_ts_ns s"] Cons.prems(1) show ?thesis by fastforce
  next
    case False
    with IH [OF Cons.prems(2)] show ?thesis by simp
  qed
qed simp

text \<open>
  The slow tail is decimated: unless a time stamp is within 950 ms of the end of the
  64-bit range, any two samples of the slow tail, the earlier one first, are at least
  950 ms apart.
\<close>

theorem slow_tail_spacing:
  assumes "\<forall>s \<in> set xs. uint (s_ts_ns s) + 950000000 < 2 ^ 64"
  shows "sorted_wrt (\<lambda>a b. uint (s_ts_ns a) + 950000000 \<le> uint (s_ts_ns b))
    (ss_slow (series_snapshot (foldl series_push series_ring_new xs)))"
  using decimate_spaced [OF assms, of 0] slow_pushes [OF series_ok_new, of xs]
  by (simp add: snapshot_new windows_def sorted_wrt_last_n)

definition sample_at :: "nat \<Rightarrow> Sample" where
  "sample_at t = \<lparr>s_ts_ns = of_nat t, s_value = FZero False\<rparr>"

theorem slow_tail_spacing_witness:
  "sorted_wrt (\<lambda>a b. uint (s_ts_ns a) + 950000000 \<le> uint (s_ts_ns b))
     (ss_slow (series_snapshot (foldl series_push series_ring_new
        (map sample_at [1000000000, 1500000000, 2000000000]))))"
  by (rule slow_tail_spacing) (simp add: sample_at_def)

section \<open>Readers of the published snapshot\<close>

lemma ring_run_snoc: "ring_run (ops @ [op]) = ring_step (ring_run ops) op"
  by (simp add: ring_run_def)

lemma pushed_append [simp]: "pushed k (xs @ ys) = pushed k xs @ pushed k ys"
  by (induction k xs rule: pushed.induct) auto

lemma writer_run:
  "fr_writer (ring_run ops) k =
     (if pushed k ops = [] then None else Some (foldl series_push series_ring_new (pushed k ops)))"
proof (induction ops rule: rev_induct)
  case Nil
  show ?case by (simp add: ring_run_def fast_ring_new_def)
next
  case (snoc op ops)
  then show ?case
    by (cases op) (auto simp: ring_run_snoc fast_ring_push_def fast_ring_publish_def)
qed

text \<open>
  A reader never sees a half-written series. After any run whose last publication
  came after the operations \<open>before\<close>, the snapshot is dated with that publication and
  holds, for each series that had been pushed to by then, exactly its two windows at that
  time; pushes since then are not visible and no series is missing.
\<close>

theorem snapshot_is_last_publication:
  assumes "\<forall>op \<in> set after. \<exists>k s. op = Push k s"
  shows "fs_published_at_ns (fast_ring_snapshot (ring_run (before @ Publish now # after))) = now
    \<and> fs_series (fast_ring_snapshot (ring_run (before @ Publish now # after))) k =
      (if pushed k before = [] then None else Some (windows (pushed k before)))"
  using assms
proof (induction after rule: rev_induct)
  case Nil
  show ?case
    using writer_run [of before k] snapshot_pushes
    by (simp add: ring_run_snoc fast_ring_publish_def fast_ring_snapshot_def)
next
  case (snoc op after)
  then obtain k' s where "op = Push k' s" by auto
  with snoc show ?case
    using ring_run_snoc [of "before @ Publish now # after" op]
    by (simp add: fast_ring_push_def fast_ring_snapshot_def)
qed

definition key0 :: SeriesKey where
  "key0 = \<lparr>sk_node_id = 0, sk_gpu_id = 0, sk_metric_id = 42\<rparr>"

theorem snapshot_is_last_publication_witness:
  "fs_published_at_ns (fast_ring_snapshot (ring_run
      ([Push key0 (sample_at 1000000000)] @ Publish 7 # [Push key0 (sample_at 2000000000)]))) = 7
   \<and> fs_series (fast_ring_snapshot (ring_run
      ([Push key0 (sample_at 1000000000)] @ Publish 7 # [Push key0 (sample_at 2000000000)]))) key0 =
     Some \<lparr>ss_slow = [sample_at 1000000000], ss_fast = [sample_at 1000000000]\<rparr>"
  using snapshot_is_last_publication [of "[Push key0 (sample_at 2000000000)]"
      "[Push key0 (sample_at 1000000000)]" 7 key0]
  by (simp add: windows_def last_n_def) (simp add: sample_at_def)

text \<open>
  The first sample of a series is lost from the slow tail when its time stamp is below
  950 ms, because \<^verbatim>\<open>last_slow_ns\<close> starts at 0. For the five samples at 0, 1, 2, 3 and 4
  seconds of the unit test \<^verbatim>\<open>basic_push_and_snapshot\<close>, which expects five samples in
  both tails, the slow tail has four.
\<close>

theorem slow_tail_loses_early_sample:
  "length (ss_fast (series_snapshot (foldl series_push series_ring_new
      (map (\<lambda>i. sample_at (i * 1000000000)) [0, 1, 2, 3, 4])))) = 5
   \<and> length (ss_slow (series_snapshot (foldl series_push series_ring_new
      (map (\<lambda>i. sample_at (i * 1000000000)) [0, 1, 2, 3, 4])))) = 4"
  using fast_tail.contents_pushes [OF series_ok_new, of "map (\<lambda>i. sample_at (i * 1000000000)) [0, 1, 2, 3, 4]"]
    slow_pushes [OF series_ok_new, of "map (\<lambda>i. sample_at (i * 1000000000)) [0, 1, 2, 3, 4]"]
  by (simp add: snapshot_new windows_def sample_at_def)

text \<open>
  A publication does not touch the writer side, and the publisher's loop is a sequence of
  publications that stops at shutdown.
\<close>

lemma publish_keeps_writer [simp]: "fr_writer (fast_ring_publish now fr) = fr_writer fr"
  by (simp add: fast_ring_publish_def)

lemma spawn_publisher_keeps_writer: "fr_writer (spawn_publisher ws fr) = fr_writer fr"
  by (induction ws fr rule: spawn_publisher.induct) auto

lemma spawn_publisher_stops:
  "spawn_publisher (ws @ ShutdownChanged True # vs) fr = spawn_publisher (ws @ [ShutdownChanged True]) fr"
  by (induction ws fr rule: spawn_publisher.induct) auto

text \<open>Visiting the series in an order that lists each key once folds over all of them.\<close>

lemma visit_series_map:
  "visit_series m ks (\<lambda>k v acc. acc @ f k v) acc =
     acc @ concat (map (\<lambda>k. case m k of None \<Rightarrow> [] | Some v \<Rightarrow> f k v) ks)"
  by (induction ks arbitrary: acc) (auto split: option.splits)

end
