(* ===== verification/Live.thy ===== *)
theory Live
  imports Fast_Ring
begin

text \<open>
  The live plane, \<^verbatim>\<open>crates/perfweave-server/src/live.rs\<close>: the broadcaster, the metric
  frame built from the published snapshot once per second, and the server-sent events. The
  broadcast channels and the JSON encoder belong to libraries: the broadcaster is the
  sequence of messages handed to its channels, the encoder is a parameter. The lemmas show
  that a frame lists every series exactly once with its latest value.
\<close>

section \<open>Model\<close>

record LiveKernelEvent =
  lk_ts_ns :: u64
  lk_duration_ns :: u64
  lk_node_id :: u32
  lk_gpu_id :: u32
  lk_correlation_id :: u64
  lk_name_id :: u64
  lk_server_now_ns :: u64

record LiveMetricPoint =
  lp_metric_id :: u64
  lp_latest :: f64

record GpuFrame =
  gf_node_id :: u32
  gf_gpu_id :: u32
  gf_metrics :: "LiveMetricPoint list"

record LiveMetricFrame =
  lm_ts_ns :: u64
  lm_server_now_ns :: u64
  lm_gpus :: "GpuFrame list"

record SpikeEvent =
  se_bucket_start_ns :: u64
  se_bucket_width_ns :: u64
  se_node_id :: u32
  se_gpu_id :: u32
  se_metric_id :: u64
  se_value :: f64
  se_median :: f64
  se_mad :: f64
  se_z_mad :: f64

datatype LiveFrame = Live_Metric LiveMetricFrame | Live_Spike SpikeEvent

record LiveBroadcaster =
  lb_metrics :: "LiveFrame list"
  lb_kernels :: "LiveKernelEvent list"

definition broadcaster_new :: LiveBroadcaster where
  "broadcaster_new = \<lparr>lb_metrics = [], lb_kernels = []\<rparr>"

definition publish_frame :: "LiveFrame \<Rightarrow> LiveBroadcaster \<Rightarrow> LiveBroadcaster" where
  "publish_frame f bc = bc\<lparr>lb_metrics := lb_metrics bc @ [f]\<rparr>"

definition publish_kernel :: "LiveKernelEvent \<Rightarrow> LiveBroadcaster \<Rightarrow> LiveBroadcaster" where
  "publish_kernel k bc = bc\<lparr>lb_kernels := lb_kernels bc @ [k]\<rparr>"

text \<open>The latest value of a series, from the fast tail if it has one.\<close>

definition latest_value :: "SeriesSnapshot \<Rightarrow> f64" where
  "latest_value v =
     (case last_opt (ss_fast v) of
        Some s \<Rightarrow> s_value s
      | None \<Rightarrow> (case last_opt (ss_slow v) of Some s \<Rightarrow> s_value s | None \<Rightarrow> FZero False))"

text \<open>\<^verbatim>\<open>by_gpu.entry(k).or_default().push(p)\<close> on the entries of the hash map.\<close>

fun push_gpu :: "'k \<Rightarrow> 'p \<Rightarrow> ('k \<times> 'p list) list \<Rightarrow> ('k \<times> 'p list) list" where
  "push_gpu k p [] = [(k, [p])]"
| "push_gpu k p ((k', ps) # gs) = (if k' = k then (k', ps @ [p]) # gs else (k', ps) # push_gpu k p gs)"

definition group_by_gpu ::
  "(SeriesKey \<rightharpoonup> SeriesSnapshot) \<Rightarrow> SeriesKey list \<Rightarrow> ((u32 \<times> u32) \<times> LiveMetricPoint list) list" where
  "group_by_gpu series order =
     visit_series series order
       (\<lambda>k v. push_gpu (sk_node_id k, sk_gpu_id k)
                \<lparr>lp_metric_id = sk_metric_id k, lp_latest = latest_value v\<rparr>) []"

text \<open>
  \<open>order\<close> is the order in which the hash map of the snapshot is visited. The entries of
  the second hash map have different keys and are sorted by them, so its order is irrelevant.
\<close>

definition build_metric_frame :: "u64 \<Rightarrow> SeriesKey list \<Rightarrow> FastRing \<Rightarrow> LiveMetricFrame" where
  "build_metric_frame now order ring =
     (let snap = fast_ring_snapshot ring;
          by_gpu = group_by_gpu (fs_series snap) order;
          gpus = map (\<lambda>((node_id, gpu_id), metrics).
                   \<lparr>gf_node_id = node_id, gf_gpu_id = gpu_id, gf_metrics = metrics\<rparr>) by_gpu
      in \<lparr>lm_ts_ns = fs_published_at_ns snap, lm_server_now_ns = now,
          lm_gpus = sort_key (\<lambda>g. (gf_node_id g, gf_gpu_id g)) gpus\<rparr>)"

text \<open>
  The ticker task: at every tick it sees the ring as it is then (with the order of its
  hash map and the clock reading); it stops when a change of the shutdown flag finds it set.
\<close>

datatype metric_wakeup = MetricShutdown bool | MetricTick FastRing "SeriesKey list" u64

fun spawn_metric_ticker :: "metric_wakeup list \<Rightarrow> LiveBroadcaster \<Rightarrow> LiveBroadcaster" where
  "spawn_metric_ticker [] bc = bc"
| "spawn_metric_ticker (MetricShutdown b # ws) bc = (if b then bc else spawn_metric_ticker ws bc)"
| "spawn_metric_ticker (MetricTick ring order now # ws) bc =
     spawn_metric_ticker ws (publish_frame (Live_Metric (build_metric_frame now order ring)) bc)"

text \<open>Server-sent events; \<open>Inl\<close> is the report of a receiver that lagged behind.\<close>

record SseEvent =
  sse_event :: string
  sse_data :: string

definition frame_to_sse ::
  "(LiveMetricFrame \<Rightarrow> string option) \<Rightarrow> (SpikeEvent \<Rightarrow> string option) \<Rightarrow> LiveFrame \<Rightarrow> SseEvent" where
  "frame_to_sse json_metric json_spike frame =
     (let (event, data) =
        (case frame of
           Live_Metric m \<Rightarrow> (''metric'', case json_metric m of Some d \<Rightarrow> d | None \<Rightarrow> '''')
         | Live_Spike s \<Rightarrow> (''spike'', case json_spike s of Some d \<Rightarrow> d | None \<Rightarrow> ''''))
      in \<lparr>sse_event = event, sse_data = data\<rparr>)"

definition sse_live ::
  "(LiveMetricFrame \<Rightarrow> string option) \<Rightarrow> (SpikeEvent \<Rightarrow> string option)
     \<Rightarrow> ('lag + LiveFrame) list \<Rightarrow> SseEvent list" where
  "sse_live json_metric json_spike received =
     List.map_filter
       (\<lambda>r. case r of Inr frame \<Rightarrow> Some (frame_to_sse json_metric json_spike frame) | Inl _ \<Rightarrow> None)
       received"

definition sse_live_kernels ::
  "(LiveKernelEvent \<Rightarrow> string option) \<Rightarrow> ('lag + LiveKernelEvent) list \<Rightarrow> SseEvent list" where
  "sse_live_kernels json received =
     List.map_filter
       (\<lambda>r. case r of
          Inr k \<Rightarrow> Some \<lparr>sse_event = ''kernel'', sse_data = (case json k of Some d \<Rightarrow> d | None \<Rightarrow> '''')\<rparr>
        | Inl _ \<Rightarrow> None)
       received"

section \<open>Grouping\<close>

text \<open>All entries of the groups, each with its key.\<close>

definition flat :: "('k \<times> 'p list) list \<Rightarrow> ('k \<times> 'p) list" where
  "flat gs = concat (map (\<lambda>(k, ps). map (Pair k) ps) gs)"

lemma flat_simps [simp]: "flat [] = []" "flat ((k, ps) # gs) = map (Pair k) ps @ flat gs"
  by (simp_all add: flat_def)

lemma push_gpu_flat: "mset (flat (push_gpu k p gs)) = add_mset (k, p) (mset (flat gs))"
  by (induction gs rule: push_gpu.induct) auto

lemma push_gpu_keys [simp]: "fst ` set (push_gpu k p gs) = insert k (fst ` set gs)"
  by (induction gs rule: push_gpu.induct) auto

lemma push_gpu_distinct: "distinct (map fst gs) \<Longrightarrow> distinct (map fst (push_gpu k p gs))"
  by (induction gs rule: push_gpu.induct) auto

lemma push_gpu_nonempty:
  "\<forall>(k, ps) \<in> set gs. ps \<noteq> [] \<Longrightarrow> \<forall>(k, ps) \<in> set (push_gpu k' p gs). ps \<noteq> []"
  by (induction gs rule: push_gpu.induct) auto

text \<open>The entry of one series in a frame.\<close>

definition series_point :: "SeriesKey \<Rightarrow> SeriesSnapshot \<Rightarrow> (u32 \<times> u32) \<times> LiveMetricPoint" where
  "series_point k v =
     ((sk_node_id k, sk_gpu_id k), \<lparr>lp_metric_id = sk_metric_id k, lp_latest = latest_value v\<rparr>)"

lemma visit_series_groups:
  "distinct (map fst acc) \<Longrightarrow>
   (let gs = visit_series m ks (\<lambda>k v. push_gpu (fst (series_point k v)) (snd (series_point k v))) acc
    in distinct (map fst gs) \<and>
       mset (flat gs) = mset (flat acc) + mset (List.map_filter (\<lambda>k. map_option (series_point k) (m k)) ks))"
proof (induction ks arbitrary: acc)
  case (Cons k ks)
  then show ?case
    by (auto simp: Let_def List.map_filter_def push_gpu_flat push_gpu_distinct split: option.splits)
qed (simp add: List.map_filter_def)

lemma group_by_gpu_correct:
  "distinct (map fst (group_by_gpu m ks))
   \<and> mset (flat (group_by_gpu m ks)) = mset (List.map_filter (\<lambda>k. map_option (series_point k) (m k)) ks)"
  using visit_series_groups [of "[]" m ks]
  by (simp add: group_by_gpu_def series_point_def Let_def)

section \<open>Properties\<close>

text \<open>The points of a frame, each with its node and GPU.\<close>

definition frame_points :: "LiveMetricFrame \<Rightarrow> ((u32 \<times> u32) \<times> LiveMetricPoint) list" where
  "frame_points f = flat (map (\<lambda>g. ((gf_node_id g, gf_gpu_id g), gf_metrics g)) (lm_gpus f))"

lemma mset_flat: "mset xs = mset ys \<Longrightarrow> mset (flat xs) = mset (flat ys)"
proof -
  have "mset (flat zs) = \<Sum>\<^sub># (image_mset (\<lambda>(k, ps). image_mset (Pair k) (mset ps)) (mset zs))"
    for zs :: "('a \<times> 'b list) list"
    by (induction zs) auto
  then show "mset xs = mset ys \<Longrightarrow> ?thesis" by simp
qed

lemma frame_structure:
  "sorted_wrt (<) (map (\<lambda>g. (gf_node_id g, gf_gpu_id g)) (lm_gpus (build_metric_frame now ks fr)))
   \<and> mset (frame_points (build_metric_frame now ks fr)) =
     mset (List.map_filter (\<lambda>k. map_option (series_point k) (fs_series (fast_ring_snapshot fr) k)) ks)"
proof -
  let ?gs = "group_by_gpu (fs_series (fast_ring_snapshot fr)) ks"
  let ?key = "\<lambda>g. (gf_node_id g, gf_gpu_id g)"
  let ?fs = "map (\<lambda>((n, g), ms). \<lparr>gf_node_id = n, gf_gpu_id = g, gf_metrics = ms\<rparr>) ?gs"
  have gpus: "lm_gpus (build_metric_frame now ks fr) = sort_key ?key ?fs"
    by (simp add: build_metric_frame_def Let_def)
  have key: "map ?key ?fs = map fst ?gs" by (simp add: case_prod_unfold)
  have "distinct (map ?key ?fs)" unfolding key using group_by_gpu_correct by blast
  moreover have "mset (map ?key (sort_key ?key ?fs)) = mset (map ?key ?fs)"
    by (simp only: mset_map mset_sort)
  ultimately have "distinct (map ?key (sort_key ?key ?fs))"
    using mset_eq_imp_distinct_iff by blast
  then have s: "sorted_wrt (<) (map ?key (sort_key ?key ?fs))" by (simp add: strict_sorted_iff)
  have g: "map (\<lambda>g. (?key g, gf_metrics g)) ?fs = ?gs" by (simp add: case_prod_unfold o_def)
  have "mset (map (\<lambda>g. (?key g, gf_metrics g)) (sort_key ?key ?fs)) =
      mset (map (\<lambda>g. (?key g, gf_metrics g)) ?fs)"
    by (simp only: mset_map mset_sort)
  then have "mset (map (\<lambda>g. (?key g, gf_metrics g)) (sort_key ?key ?fs)) = mset ?gs" unfolding g .
  then have "mset (frame_points (build_metric_frame now ks fr)) = mset (flat ?gs)"
    unfolding frame_points_def gpus by (rule mset_flat)
  with s show ?thesis using group_by_gpu_correct gpus by simp
qed

lemma latest_value_windows: "xs \<noteq> [] \<Longrightarrow> latest_value (windows xs) = s_value (last xs)"
  by (simp add: latest_value_def windows_def last_opt_def last_last_n)

lemma live_frame_latest:
  assumes "distinct ks" "set ks = {k. pushed k before \<noteq> []}"
    and "ring = ring_run (before @ [Publish now])"
  shows "lm_ts_ns (build_metric_frame clk ks ring) = now
    \<and> sorted_wrt (<) (map (\<lambda>g. (gf_node_id g, gf_gpu_id g)) (lm_gpus (build_metric_frame clk ks ring)))
    \<and> mset (frame_points (build_metric_frame clk ks ring)) =
      mset (map (\<lambda>k. ((sk_node_id k, sk_gpu_id k),
                      \<lparr>lp_metric_id = sk_metric_id k, lp_latest = s_value (last (pushed k before))\<rparr>)) ks)"
proof -
  have snap: "fs_published_at_ns (fast_ring_snapshot ring) = now"
    "fs_series (fast_ring_snapshot ring) k = (if pushed k before = [] then None else Some (windows (pushed k before)))" for k
    using writer_run [of before k]
    by (simp_all add: assms(3) ring_run_snoc fast_ring_publish_def fast_ring_snapshot_def snapshot_pushes)
  have "List.map_filter (\<lambda>k. map_option (series_point k) (fs_series (fast_ring_snapshot ring) k)) xs =
      map (\<lambda>k. ((sk_node_id k, sk_gpu_id k),
              \<lparr>lp_metric_id = sk_metric_id k, lp_latest = s_value (last (pushed k before))\<rparr>)) xs"
    if "set xs \<subseteq> set ks" for xs
    using that assms(2) by (induction xs)
      (auto simp: List.map_filter_def snap series_point_def latest_value_windows)
  then show ?thesis
    using frame_structure [of clk ks ring] snap(1) by (simp add: build_metric_frame_def Let_def)
qed

text \<open>So there is exactly one point for a series.\<close>

lemma live_frame_point:
  assumes "distinct ks" "set ks = {k. pushed k before \<noteq> []}" "pushed k before \<noteq> []"
  shows "filter (\<lambda>x. fst x = (sk_node_id k, sk_gpu_id k) \<and> lp_metric_id (snd x) = sk_metric_id k)
      (frame_points (build_metric_frame clk ks (ring_run (before @ [Publish now])))) =
    [((sk_node_id k, sk_gpu_id k), \<lparr>lp_metric_id = sk_metric_id k, lp_latest = s_value (last (pushed k before))\<rparr>)]"
    (is "filter ?P ?ps = [?f k]")
proof -
  have "mset ?ps = mset (map (\<lambda>k. ((sk_node_id k, sk_gpu_id k),
      \<lparr>lp_metric_id = sk_metric_id k, lp_latest = s_value (last (pushed k before))\<rparr>)) ks)"
    using live_frame_latest [OF assms(1,2) refl] by blast
  then have "mset (filter ?P ?ps) = filter_mset ?P (mset (map ?f ks))" by simp
  also have "\<dots> = mset (map ?f (filter (\<lambda>k'. k' = k) ks))"
  proof -
    have "(?P \<circ> ?f) = (\<lambda>k'. k' = k)" by (auto simp: fun_eq_iff)
    then have "filter ?P (map ?f ks) = map ?f (filter (\<lambda>k'. k' = k) ks)" by (simp only: filter_map)
    then show ?thesis by (simp only: mset_filter [symmetric])
  qed
  also have "filter (\<lambda>k'. k' = k) ks = [k]"
    using assms by (intro filter_single) simp_all
  finally have "mset (filter ?P ?ps) = {#?f k#}" by (simp del: mset_filter)
  then show ?thesis by (simp only: mset_single_iff)
qed

text \<open>
  What a live client sees is the latest state of every series. After any run of pushes
  and publications whose last publication is at \<open>now\<close>, the metric frame built from the ring
  is dated with \<open>now\<close>, lists its GPUs in strictly increasing order of (node, GPU), and its
  points are exactly one per series that had been pushed to, with the value of the last
  sample pushed before the publication. \<open>ks\<close> is the order in which the hash map happens to
  yield those series.
\<close>

theorem live_frame_shows_latest:
  assumes "distinct ks" "set ks = {k. pushed k before \<noteq> []}"
    and "ring = ring_run (before @ [Publish now])"
  shows "lm_ts_ns (build_metric_frame clk ks ring) = now
    \<and> sorted_wrt (<) (map (\<lambda>g. (gf_node_id g, gf_gpu_id g)) (lm_gpus (build_metric_frame clk ks ring)))
    \<and> mset (frame_points (build_metric_frame clk ks ring)) =
      mset (map (\<lambda>k. ((sk_node_id k, sk_gpu_id k),
                      \<lparr>lp_metric_id = sk_metric_id k, lp_latest = s_value (last (pushed k before))\<rparr>)) ks)"
  using assms by (rule live_frame_latest)

theorem live_frame_shows_latest_witness:
  "lm_ts_ns (build_metric_frame 99 [key0] (ring_run ([Push key0 (sample_at 1000000000)] @ [Publish 7]))) = 7"
proof -
  have "{k. pushed k [Push key0 (sample_at 1000000000)] \<noteq> []} = {key0}" by auto
  then show ?thesis
    using live_frame_shows_latest [OF _ _ refl, of "[key0]" "[Push key0 (sample_at 1000000000)]" 99 7]
    by simp
qed

text \<open>
  The event streams drop the reports of a lagging receiver and keep every frame, in order.
\<close>

lemma sse_live_frames:
  "sse_live jm js received =
     map (frame_to_sse jm js) (List.map_filter (\<lambda>r. case r of Inr f \<Rightarrow> Some f | Inl _ \<Rightarrow> None) received)"
  by (induction received) (auto simp: sse_live_def List.map_filter_def split: sum.splits)

lemma metric_ticker_stops:
  "spawn_metric_ticker (ws @ MetricShutdown True # vs) bc =
     spawn_metric_ticker (ws @ [MetricShutdown True]) bc"
  by (induction ws bc rule: spawn_metric_ticker.induct) auto

end
