(* ===== verification/Clock.thy ===== *)
theory Clock
  imports Floats
begin

text \<open>
  Clock alignment, \<^verbatim>\<open>crates/perfweave-common/src/clock.rs\<close>: the affine map from a source
  clock to host time in \<^verbatim>\<open>i128\<close> arithmetic, and the Theil-Sen fit in \<^verbatim>\<open>f64\<close>
  arithmetic that produces it. The lemmas give the functional behaviour of the map, its
  monotonicity, when the fit returns a result and what it returns for a clock that is off
  by a constant.
\<close>

section \<open>Model\<close>

record ClockOffset =
  clk_offset_ns :: i128
  clk_slope_num :: i128
  clk_slope_den :: i128
  clk_residual_max_ns :: u64
  clk_fitted_at_host_ns :: u64

definition IDENTITY :: ClockOffset where
  "IDENTITY = \<lparr>clk_offset_ns = 0, clk_slope_num = 1, clk_slope_den = 1,
               clk_residual_max_ns = 0, clk_fitted_at_host_ns = 0\<rparr>"

text \<open>
  Division panics on a zero divisor, and on the one quotient that does not fit; \<open>None\<close>
  is the panic. Addition and multiplication wrap.
\<close>

definition i128_div :: "i128 \<Rightarrow> i128 \<Rightarrow> i128 option" where
  "i128_div a b = (if b = 0 \<or> a = i128_min \<and> b = - 1 then None else Some (trunc_div a b))"

definition clock_map :: "ClockOffset \<Rightarrow> u64 \<Rightarrow> u64 option" where
  "clock_map c src_ns =
     (let src = uint src_ns in
      case i128_div (wrap_i128 (clk_slope_num c * src)) (clk_slope_den c) of
        None \<Rightarrow> None
      | Some d \<Rightarrow> let host = wrap_i128 (clk_offset_ns c + d) in Some (as_u64 (max host 0)))"

record Pair =
  p_src_ns :: u64
  p_host_ns :: u64

text \<open>The two nested loops over \<open>i < j\<close>; pairs with equal source times are skipped.\<close>

definition slope_of :: "Pair \<Rightarrow> Pair \<Rightarrow> f64 option" where
  "slope_of p q =
     (let d_src = uint (p_src_ns q) - uint (p_src_ns p) in
      if d_src = 0 then None
      else let d_host = uint (p_host_ns q) - uint (p_host_ns p)
           in Some (fdiv F64 (of_int_fp F64 d_host) (of_int_fp F64 d_src)))"

fun pair_slopes :: "Pair list \<Rightarrow> f64 list" where
  "pair_slopes [] = []"
| "pair_slopes (p # ps) = List.map_filter (slope_of p) ps @ pair_slopes ps"

text \<open>The element in the middle of the sorted values, the upper one of two.\<close>

definition upper_median :: "f64 list \<Rightarrow> f64" where
  "upper_median xs = (let ys = sort_by fcmp xs in ys ! (length ys div 2))"

definition offset_under :: "f64 \<Rightarrow> Pair \<Rightarrow> f64" where
  "offset_under slope p =
     fsub F64 (of_int_fp F64 (uint (p_host_ns p)))
       (fmul F64 slope (of_int_fp F64 (uint (p_src_ns p))))"

definition residual_of :: "f64 \<Rightarrow> f64 \<Rightarrow> Pair \<Rightarrow> f64" where
  "residual_of slope offset p =
     (let predicted = fadd F64 offset (fmul F64 slope (of_int_fp F64 (uint (p_src_ns p))))
      in fabs (fsub F64 (of_int_fp F64 (uint (p_host_ns p))) predicted))"

fun residual_max :: "f64 \<Rightarrow> f64 \<Rightarrow> Pair list \<Rightarrow> f64 \<Rightarrow> f64" where
  "residual_max slope offset [] res = res"
| "residual_max slope offset (p # ps) res =
     (let r = residual_of slope offset p
      in residual_max slope offset ps (if flt res r then r else res))"

text \<open>\<open>now\<close> is the reading of \<^verbatim>\<open>host_realtime_ns\<close> at the end of the fit.\<close>

definition fit_theil_sen :: "u64 \<Rightarrow> Pair list \<Rightarrow> ClockOffset option" where
  "fit_theil_sen now pairs =
     (if length pairs < 2 then None
      else let slopes = pair_slopes pairs in
        if slopes = [] then None
        else let
          slope = upper_median slopes;
          offset = upper_median (map (offset_under slope) pairs);
          res_max = residual_max slope offset pairs (FZero False);
          den = 2 ^ 30;
          num = fp_to_i128 (fround (fmul F64 slope (of_int_fp F64 den)))
        in Some \<lparr>clk_offset_ns = fp_to_i128 (fround offset), clk_slope_num = num,
                 clk_slope_den = den, clk_residual_max_ns = fp_to_u64 (fceil res_max),
                 clk_fitted_at_host_ns = now\<rparr>)"

text \<open>
  \<^verbatim>\<open>host_realtime_ns\<close>: nanoseconds since the epoch as a \<^verbatim>\<open>u128\<close> cut to 64 bits, or 0
  for a time before the epoch (\<open>None\<close>).
\<close>

definition host_realtime_ns :: "nat option \<Rightarrow> u64" where
  "host_realtime_ns since_epoch = (case since_epoch of Some n \<Rightarrow> of_nat n | None \<Rightarrow> 0)"

text \<open>
  \<^verbatim>\<open>host_monotonic_ns\<close>: nanoseconds since the first call, whose instant a
  \<^verbatim>\<open>OnceLock\<close> keeps.
\<close>

definition host_monotonic_ns :: "nat option \<Rightarrow> nat \<Rightarrow> nat option \<times> u64" where
  "host_monotonic_ns start now =
     (let s = (case start of Some t \<Rightarrow> t | None \<Rightarrow> now) in (Some s, of_nat (now - s)))"

section \<open>The map\<close>

text \<open>The exact affine value that the map approximates.\<close>

definition affine :: "int \<Rightarrow> int \<Rightarrow> int \<Rightarrow> int \<Rightarrow> int" where
  "affine off num den src = off + trunc_div (num * src) den"

text \<open>A source clock map that is an affine function cut off at zero.\<close>

locale affine_clock =
  fixes cmap :: "u64 \<Rightarrow> u64" and off num den :: int
  assumes cmap: "cmap src = as_u64 (max (affine off num den (uint src)) 0)"
    and num_nonneg: "0 \<le> num" and den_pos: "0 < den"
begin

lemma affine_mono: "a \<le> b \<Longrightarrow> 0 \<le> a \<Longrightarrow> affine off num den a \<le> affine off num den b"
proof -
  assume ab: "a \<le> b" "0 \<le> a"
  then have "0 \<le> num * a" "0 \<le> num * b" "num * a \<le> num * b"
    using num_nonneg by (simp_all add: mult_left_mono)
  then show ?thesis
    using den_pos by (simp add: affine_def trunc_div_nonneg zdiv_mono1)
qed

lemma cmap_mono:
  assumes "a \<le> b" "affine off num den (uint b) < 2 ^ 64"
  shows "cmap a \<le> cmap b"
proof -
  have le: "affine off num den (uint a) \<le> affine off num den (uint b)"
    using assms(1) by (intro affine_mono) (simp_all add: word_le_def)
  have u: "uint (as_u64 (max x 0)) = max x 0" if "x < 2 ^ 64" for x
    using that by (simp add: as_u64_def uint_word_of_int max_def)
  show ?thesis using le assms(2) by (simp add: cmap word_le_def u)
qed

lemma cmap_exact: "0 \<le> affine off num den (uint a) \<Longrightarrow> affine off num den (uint a) < 2 ^ 64
    \<Longrightarrow> uint (cmap a) = affine off num den (uint a)"
  by (simp add: cmap as_u64_def uint_word_of_int)

end

lemma as_u64_uint [simp]: "as_u64 (uint w) = w"
  by (simp add: as_u64_def)

lemma i128_div_pos [simp]: "0 < b \<Longrightarrow> i128_div a b = Some (trunc_div a b)"
  by (auto simp: i128_div_def)

lemma trunc_div_bound: "0 < b \<Longrightarrow> \<bar>trunc_div a b\<bar> \<le> \<bar>a\<bar>"
proof -
  assume b: "0 < b"
  have "\<bar>trunc_div a b\<bar> \<le> \<bar>a\<bar> div b"
    using b by (cases "a = 0") (simp_all add: trunc_div_def abs_mult pos_imp_zdiv_nonneg_iff)
  also have "\<dots> \<le> \<bar>a\<bar>" using zdiv_mono2 [of "\<bar>a\<bar>" 1 b] b by simp
  finally show ?thesis .
qed

text \<open>Within these bounds no intermediate result of the map wraps.\<close>

definition clock_ok :: "ClockOffset \<Rightarrow> bool" where
  "clock_ok c \<longleftrightarrow> \<bar>clk_offset_ns c\<bar> < 2 ^ 126 \<and> \<bar>clk_slope_num c\<bar> < 2 ^ 62 \<and> 0 < clk_slope_den c"

lemma uint_u64_less: "uint (w :: u64) < 2 ^ 64"
  using uint_lt2p [of w] by simp

lemma product_bound:
  assumes "\<bar>n\<bar> < 2 ^ 62"
  shows "\<bar>n * uint (w :: u64)\<bar> < 2 ^ 126"
proof -
  have "\<bar>n * uint w\<bar> = \<bar>n\<bar> * uint w" by (simp add: abs_mult)
  also have "\<dots> \<le> \<bar>n\<bar> * 2 ^ 64" using uint_u64_less [of w] by (intro mult_left_mono) auto
  also have "\<dots> < 2 ^ 62 * 2 ^ 64" using assms by (intro mult_strict_right_mono) auto
  finally show ?thesis by simp
qed

lemma clock_map_affine:
  assumes "clock_ok c"
  shows "clock_map c src =
    Some (as_u64 (max (affine (clk_offset_ns c) (clk_slope_num c) (clk_slope_den c) (uint src)) 0))"
proof -
  let ?p = "clk_slope_num c * uint src"
  have c: "\<bar>clk_offset_ns c\<bar> < 2 ^ 126" "\<bar>clk_slope_num c\<bar> < 2 ^ 62" "0 < clk_slope_den c"
    using assms by (auto simp: clock_ok_def)
  have p: "\<bar>?p\<bar> < 2 ^ 126" using product_bound c(2) .
  have q: "\<bar>trunc_div ?p (clk_slope_den c)\<bar> < 2 ^ 126"
    using trunc_div_bound [OF c(3), of ?p] p by linarith
  have "wrap_i128 ?p = ?p"
    using p by (intro wrap_i128_id) (auto simp: i128_min_def i128_max_def)
  moreover have "wrap_i128 (clk_offset_ns c + trunc_div ?p (clk_slope_den c))
      = clk_offset_ns c + trunc_div ?p (clk_slope_den c)"
    using c(1) q by (intro wrap_i128_id) (auto simp: i128_min_def i128_max_def)
  ultimately show ?thesis using c(3) by (simp add: clock_map_def affine_def Let_def)
qed

text \<open>An offset within the bounds of the fit, with a slope that is not negative, gives such a map.\<close>

locale fitted_clock =
  fixes c :: ClockOffset
  assumes within: "clock_ok c" and slope_nonneg: "0 \<le> clk_slope_num c"

sublocale fitted_clock \<subseteq> affine_clock "\<lambda>src. the (clock_map c src)" "clk_offset_ns c" "clk_slope_num c" "clk_slope_den c"
  using within slope_nonneg by unfold_locales (simp_all add: clock_map_affine clock_ok_def)

context fitted_clock
begin

lemma maps_in_order:
  assumes "a \<le> b" "affine (clk_offset_ns c) (clk_slope_num c) (clk_slope_den c) (uint b) < 2 ^ 64"
  shows "\<exists>x y. clock_map c a = Some x \<and> clock_map c b = Some y \<and> x \<le> y"
  using cmap_mono [OF assms] clock_map_affine [OF within] by simp

end

text \<open>The identity offset maps every time stamp to itself.\<close>

lemma identity_map: "clock_map IDENTITY src = Some src"
  by (subst clock_map_affine) (simp_all add: clock_ok_def IDENTITY_def affine_def)

text \<open>
  C24: For every offset whose fields are within the bounds of the fit (offset below
  \<open>2 ^ 126\<close>, non-negative slope below \<open>2 ^ 62\<close>, positive denominator), the map never
  panics, never wraps in 128 bits, and preserves the order of source time stamps as long
  as the later one maps below \<open>2 ^ 64\<close>.
\<close>

theorem clock_map_monotone:
  assumes "clock_ok c" "0 \<le> clk_slope_num c" "a \<le> b"
    and "affine (clk_offset_ns c) (clk_slope_num c) (clk_slope_den c) (uint b) < 2 ^ 64"
  shows "\<exists>x y. clock_map c a = Some x \<and> clock_map c b = Some y \<and> x \<le> y"
proof -
  have "fitted_clock c" using assms(1,2) by unfold_locales
  then show ?thesis using assms(3,4) by (rule fitted_clock.maps_in_order)
qed

definition sample_clock :: ClockOffset where
  "sample_clock = \<lparr>clk_offset_ns = - 500, clk_slope_num = 2 ^ 30 + 7, clk_slope_den = 2 ^ 30,
                   clk_residual_max_ns = 3, clk_fitted_at_host_ns = 0\<rparr>"

theorem clock_map_monotone_witness:
  "\<exists>x y. clock_map sample_clock 1000 = Some x \<and> clock_map sample_clock 1000000000 = Some y \<and> x \<le> y"
  by (rule clock_map_monotone)
    (simp_all add: sample_clock_def clock_ok_def affine_def trunc_div_def)

interpretation identity_clock: fitted_clock IDENTITY
  by unfold_locales (simp_all add: clock_ok_def IDENTITY_def)

section \<open>The median\<close>

lemma sorted_majority_nth:
  assumes "sorted ks" "length ks < 2 * length (filter (\<lambda>x. x = k) ks)"
  shows "ks ! (length ks div 2) = k"
proof (rule ccontr)
  let ?n = "length ks" and ?h = "length ks div 2"
  assume neq: "ks ! ?h \<noteq> k"
  have h: "?h < ?n" using assms(2) by (cases ks) auto
  have split: "filter (\<lambda>x. x = k) ks =
      filter (\<lambda>x. x = k) (take ?h ks) @ filter (\<lambda>x. x = k) (drop (Suc ?h) ks)"
    using neq arg_cong [OF id_take_nth_drop [OF h], of "filter (\<lambda>x. x = k)"] by simp
  consider "ks ! ?h < k" | "k < ks ! ?h" using neq by fastforce
  then show False
  proof cases
    case 1
    have "x \<le> ks ! ?h" if "x \<in> set (take ?h ks)" for x
    proof -
      from that obtain i where "i < ?h" "x = ks ! i" by (auto simp: in_set_conv_nth)
      then show ?thesis using assms(1) h by (simp add: sorted_nth_mono)
    qed
    with 1 have "filter (\<lambda>x. x = k) (take ?h ks) = []" by (force simp: filter_empty_conv)
    with split have "length (filter (\<lambda>x. x = k) ks) \<le> length (drop (Suc ?h) ks)"
      by (metis append_Nil length_filter_le)
    with assms(2) h show False by simp
  next
    case 2
    have "ks ! ?h \<le> x" if "x \<in> set (drop (Suc ?h) ks)" for x
    proof -
      from that obtain i where "i < length (drop (Suc ?h) ks)" "x = ks ! (Suc ?h + i)"
        by (auto simp: in_set_conv_nth)
      then show ?thesis using assms(1) h by (auto intro: sorted_nth_mono)
    qed
    with 2 have "filter (\<lambda>x. x = k) (drop (Suc ?h) ks) = []" by (force simp: filter_empty_conv)
    with split have "length (filter (\<lambda>x. x = k) ks) \<le> length (take ?h ks)"
      by (metis append_Nil2 length_filter_le)
    with assms(2) h show False by simp
  qed
qed

lemma upper_median_in_set: "xs \<noteq> [] \<Longrightarrow> upper_median xs \<in> set xs"
  using nth_mem [of "length xs div 2" "sort_by fcmp xs"] by (simp add: upper_median_def Let_def)

text \<open>A value shared by more than half of the numbers is their median.\<close>

lemma upper_median_majority:
  assumes "\<forall>x \<in> set xs. \<not> is_nan x" "length xs < 2 * length (filter (\<lambda>x. fkey x = k) xs)"
  shows "fkey (upper_median xs) = k"
proof -
  let ?ys = "sort_key fkey xs"
  have "mset (filter (\<lambda>x. fkey x = k) ?ys) = mset (filter (\<lambda>x. fkey x = k) xs)" by simp
  then have l: "length (filter (\<lambda>x. fkey x = k) ?ys) = length (filter (\<lambda>x. fkey x = k) xs)"
    by (metis size_mset)
  have "map fkey ?ys ! (length (map fkey ?ys) div 2) = k"
    using assms(2) l by (intro sorted_majority_nth) (simp_all add: filter_map o_def)
  moreover have "length xs div 2 < length xs" using assms(2) by (cases xs) auto
  ultimately show ?thesis
    using sort_by_eq_sort_key [OF assms(1)] by (simp add: upper_median_def Let_def)
qed

lemma upper_median_const: "xs \<noteq> [] \<Longrightarrow> \<forall>x \<in> set xs. x = c \<Longrightarrow> upper_median xs = c"
  using upper_median_in_set by blast

section \<open>The fit\<close>

lemma slope_of_None_iff: "slope_of p q = None \<longleftrightarrow> p_src_ns q = p_src_ns p"
  by (simp add: slope_of_def Let_def word_uint_eq_iff)

lemma pair_slopes_Nil_iff:
  "pair_slopes ps = [] \<longleftrightarrow> (\<exists>t. \<forall>p \<in> set ps. p_src_ns p = t)"
proof (induction ps)
  case (Cons p ps)
  have "List.map_filter (slope_of p) ps = [] \<longleftrightarrow> (\<forall>q \<in> set ps. p_src_ns q = p_src_ns p)"
    by (induction ps) (auto simp: List.map_filter_def slope_of_None_iff)
  with Cons show ?case by (simp add: ex_simps) blast
qed simp

text \<open>
  The fit refuses exactly the inputs that determine no line: fewer than two pairs, or
  pairs that all have the same source time. In every other case it returns an offset, and
  that offset has a positive denominator, so mapping with it never divides by zero.
\<close>

theorem fit_defined_iff:
  "(fit_theil_sen now ps = None \<longleftrightarrow>
      length ps < 2 \<or> (\<exists>t. \<forall>p \<in> set ps. p_src_ns p = t))
   \<and> (\<forall>c. fit_theil_sen now ps = Some c \<longrightarrow> clk_slope_den c = 2 ^ 30 \<and> (\<forall>s. clock_map c s \<noteq> None))"
proof (intro conjI allI impI)
  show "fit_theil_sen now ps = None \<longleftrightarrow> length ps < 2 \<or> (\<exists>t. \<forall>p \<in> set ps. p_src_ns p = t)"
    by (simp add: fit_theil_sen_def Let_def pair_slopes_Nil_iff)
  fix c s assume "fit_theil_sen now ps = Some c"
  then show den: "clk_slope_den c = 2 ^ 30"
    by (auto simp: fit_theil_sen_def Let_def simp del: pair_slopes_Nil_iff split: if_splits)
  then show "clock_map c s \<noteq> None" by (simp add: clock_map_def Let_def)
qed

definition pair_at :: "u64 \<Rightarrow> u64 \<Rightarrow> Pair" where
  "pair_at s h = \<lparr>p_src_ns = s, p_host_ns = h\<rparr>"

theorem fit_defined_iff_witness:
  "fit_theil_sen 9 [pair_at 5 7, pair_at 5 8] = None
   \<and> fit_theil_sen 9 [pair_at 5 7, pair_at 6 8] \<noteq> None"
  using fit_defined_iff [of 9 "[pair_at 5 7, pair_at 5 8]"]
    fit_defined_iff [of 9 "[pair_at 5 7, pair_at 6 8]"]
  by (simp add: pair_at_def)

text \<open>A source clock that runs at host speed, \<open>c\<close> nanoseconds behind.\<close>

definition shifted :: "int \<Rightarrow> Pair list \<Rightarrow> bool" where
  "shifted c ps \<longleftrightarrow> (\<forall>p \<in> set ps. uint (p_host_ns p) = uint (p_src_ns p) + c
     \<and> uint (p_src_ns p) < 2 ^ 52 \<and> uint (p_host_ns p) < 2 ^ 52)"

lemma shifted_pair:
  assumes "shifted c ps" "p \<in> set ps"
  shows "uint (p_host_ns p) = uint (p_src_ns p) + c" "uint (p_src_ns p) < 2 ^ 52"
    "uint (p_src_ns p) + c < 2 ^ 52" "0 \<le> uint (p_src_ns p) + c" "\<bar>c\<bar> < 2 ^ 53"
proof -
  show eq: "uint (p_host_ns p) = uint (p_src_ns p) + c" and lt: "uint (p_src_ns p) < 2 ^ 52"
    using assms unfolding shifted_def by blast+
  show lt': "uint (p_src_ns p) + c < 2 ^ 52"
    using assms eq unfolding shifted_def by metis
  show ge: "0 \<le> uint (p_src_ns p) + c"
    using uint_ge_0 [of "p_host_ns p"] eq by argo
  have "0 \<le> uint (p_src_ns p)" by (rule uint_ge_0)
  moreover have "(2 :: int) ^ 53 = 2 * 2 ^ 52" by simp
  ultimately show "\<bar>c\<bar> < 2 ^ 53" using lt lt' ge unfolding abs_less_iff by linarith
qed

lemma slope_of_shifted:
  assumes "shifted c ps" "p \<in> set ps" "q \<in> set ps" "slope_of p q = Some x"
  shows "x = FFin 1"
proof -
  let ?d = "uint (p_src_ns q) - uint (p_src_ns p)"
  have "0 \<le> uint (p_src_ns p)" "0 \<le> uint (p_src_ns q)" "(2 :: int) ^ 53 = 2 * 2 ^ 52" by simp_all
  then have "\<bar>?d\<bar> < 2 ^ 53"
    using shifted_pair(2) [OF assms(1,2)] shifted_pair(2) [OF assms(1,3)]
    unfolding abs_less_iff by linarith
  then show ?thesis
    using assms(4) shifted_pair(1) [OF assms(1,2)] shifted_pair(1) [OF assms(1,3)]
    by (auto simp: slope_of_def Let_def of_int_fp_F64 fdiv_fint_self split: if_splits)
qed

lemma pair_slopes_from:
  "x \<in> set (pair_slopes ps) \<Longrightarrow> \<exists>p \<in> set ps. \<exists>q \<in> set ps. slope_of p q = Some x"
  by (induction ps) (auto simp: List.map_filter_def)

lemma pair_slopes_shifted: "shifted c ps \<Longrightarrow> x \<in> set (pair_slopes ps) \<Longrightarrow> x = FFin 1"
  using pair_slopes_from slope_of_shifted by metis

lemma offset_shifted:
  assumes "shifted c ps" "p \<in> set ps"
  shows "offset_under (FFin 1) p = fint c"
proof -
  note sp = shifted_pair [OF assms]
  show ?thesis
    using sp uint_ge_0 [of "p_src_ns p"]
    by (simp add: offset_under_def of_int_fp_F64 fmul_one_fint fsub_fint)
qed

lemma residual_shifted:
  assumes "shifted c ps" "p \<in> set ps"
  shows "residual_of (FFin 1) (fint c) p = FZero False"
proof -
  note sp = shifted_pair [OF assms]
  show ?thesis
    using sp uint_ge_0 [of "p_src_ns p"]
    by (simp add: residual_of_def of_int_fp_F64 fmul_one_fint fadd_fint fsub_fint fabs_fint add.commute)
qed

lemma residual_max_shifted:
  "shifted c ps \<Longrightarrow> residual_max (FFin 1) (fint c) ps (FZero False) = FZero False"
proof (induction ps)
  case (Cons p ps)
  have "shifted c ps" using Cons.prems unfolding shifted_def by (meson list.set_intros(2))
  with Cons residual_shifted [OF Cons.prems, of p] show ?case by simp
qed simp

lemma unit_slope_num:
  "fp_to_i128 (fround (fmul F64 (FFin 1) (of_int_fp F64 1073741824))) = 1073741824"
proof -
  have "of_int_fp F64 1073741824 = fint 1073741824" by (intro of_int_fp_F64) simp
  then show ?thesis by (simp add: fmul_one_fint fround_fint fp_to_i128_fint)
qed

lemma fit_of_shifted:
  assumes "shifted c ps" "p \<in> set ps" "q \<in> set ps" "p_src_ns p \<noteq> p_src_ns q"
  shows "fit_theil_sen now ps =
    Some \<lparr>clk_offset_ns = c, clk_slope_num = 2 ^ 30, clk_slope_den = 2 ^ 30,
          clk_residual_max_ns = 0, clk_fitted_at_host_ns = now\<rparr>"
proof -
  note sp = shifted_pair [OF assms(1,2)]
  have c: "\<bar>c\<bar> < 2 ^ 53" by (rule sp(5))
  have "ps \<noteq> []" "length ps \<noteq> 1" using assms(2-4) by (auto simp: length_Suc_conv)
  then have l: "\<not> length ps < 2" by (cases ps) auto
  have ne: "pair_slopes ps \<noteq> []" using assms(2-4) unfolding pair_slopes_Nil_iff by metis
  then have slope: "upper_median (pair_slopes ps) = FFin 1"
    using pair_slopes_shifted [OF assms(1)] by (intro upper_median_const) auto
  have off: "upper_median (map (offset_under (FFin 1)) ps) = fint c"
    using offset_shifted [OF assms(1)] \<open>ps \<noteq> []\<close> by (intro upper_median_const) auto
  show ?thesis
    using l ne residual_max_shifted [OF assms(1)] c
    by (simp add: fit_theil_sen_def Let_def slope off unit_slope_num fround_fint fp_to_i128_fint
        fp_to_u64_def)
qed

text \<open>
  The fit is exact for a clock that differs from host time by a constant: for time
  stamps below \<open>2 ^ 52\<close> with at least two different source times it recovers the constant
  as its offset, slope one and residual zero, in spite of the floating-point arithmetic.
\<close>

theorem fit_recovers_shift:
  assumes "shifted c ps" "p \<in> set ps" "q \<in> set ps" "p_src_ns p \<noteq> p_src_ns q"
  shows "fit_theil_sen now ps =
    Some \<lparr>clk_offset_ns = c, clk_slope_num = 2 ^ 30, clk_slope_den = 2 ^ 30,
          clk_residual_max_ns = 0, clk_fitted_at_host_ns = now\<rparr>"
  using assms by (rule fit_of_shifted)

theorem fit_recovers_shift_witness:
  "fit_theil_sen 9 [pair_at 1000 1500, pair_at 2000 2500, pair_at 3000 3500] =
     Some \<lparr>clk_offset_ns = 500, clk_slope_num = 2 ^ 30, clk_slope_den = 2 ^ 30,
           clk_residual_max_ns = 0, clk_fitted_at_host_ns = 9\<rparr>"
  by (rule fit_recovers_shift [where p = "pair_at 1000 1500" and q = "pair_at 2000 2500"])
    (simp_all add: shifted_def pair_at_def)

text \<open>
  The fit is robust: when more than half of the pairwise slopes are one (and none is
  NaN), the fitted slope is one, however wild the other pairs are.
\<close>

theorem fit_slope_robust:
  assumes "fit_theil_sen now ps = Some c"
    and "\<forall>x \<in> set (pair_slopes ps). \<not> is_nan x"
    and "length (pair_slopes ps) < 2 * length (filter (\<lambda>x. x = FFin 1) (pair_slopes ps))"
  shows "clk_slope_num c = 2 ^ 30 \<and> clk_slope_den c = 2 ^ 30"
proof -
  let ?s = "upper_median (pair_slopes ps)"
  have "length (filter (\<lambda>x. x = FFin 1) xs) \<le> length (filter (\<lambda>x. fkey x = (0, 1)) xs)" for xs
    by (induction xs) auto
  then have "fkey ?s = (0, 1)"
    using assms(2,3) by (intro upper_median_majority) (auto intro: less_le_trans)
  then have "?s = FFin 1" by (cases ?s) (auto split: if_splits)
  then show ?thesis
    using assms(1) by (auto simp: fit_theil_sen_def Let_def unit_slope_num split: if_splits)
qed

text \<open>Four pairs on a line of slope one and one that is far off.\<close>

definition outlier_pairs :: "Pair list" where
  "outlier_pairs = [pair_at 0 10, pair_at 8 18, pair_at 16 26, pair_at 24 34, pair_at 32 1050]"

lemma outlier_slopes:
  "pair_slopes outlier_pairs = [FFin 1, FFin 1, FFin 1, FFin (65 / 2), FFin 1, FFin 1, FFin 43,
     FFin 1, FFin 64, FFin 127]"
  by code_simp

theorem fit_slope_robust_witness:
  "\<exists>c. fit_theil_sen 9 outlier_pairs = Some c \<and> clk_slope_num c = 2 ^ 30 \<and> clk_slope_den c = 2 ^ 30"
proof -
  have "length outlier_pairs = 5" by (simp add: outlier_pairs_def)
  then obtain c where "fit_theil_sen 9 outlier_pairs = Some c"
    by (simp add: fit_theil_sen_def Let_def outlier_slopes)
  with fit_slope_robust [of 9 outlier_pairs c] show ?thesis by (simp add: outlier_slopes)
qed

text \<open>
  The residual that the fit reports is not a bound on the error of the map it returns.
  The slope is rounded to a multiple of \<open>2 ^ - 30\<close> after the residual is taken: for two
  pairs that span \<open>2 ^ 60\<close> ns with a drift of \<open>2 ^ 28\<close> ns the reported residual is zero
  and the map is off by the whole drift at the second pair.
\<close>

theorem residual_understates_error:
  "fit_theil_sen 9 [pair_at 0 0, pair_at 1152921504606846976 1152921504875282432] =
     Some \<lparr>clk_offset_ns = 0, clk_slope_num = 2 ^ 30, clk_slope_den = 2 ^ 30,
           clk_residual_max_ns = 0, clk_fitted_at_host_ns = 9\<rparr>
   \<and> clock_map \<lparr>clk_offset_ns = 0, clk_slope_num = 2 ^ 30, clk_slope_den = 2 ^ 30,
           clk_residual_max_ns = 0, clk_fitted_at_host_ns = 9\<rparr> 1152921504606846976
     = Some (1152921504875282432 - 268435456)"
  by code_simp

end
