(* ===== verification/Proto.thy ===== *)
theory Proto
  imports Floats
begin

text \<open>
  The wire messages of \<^verbatim>\<open>proto/perfweave.proto\<close> as the Rust code generated from it
  presents them: a message is a record, an enumeration field is the \<^verbatim>\<open>i32\<close> on the wire
  with an accessor that reads unknown values as the default, and a \<^verbatim>\<open>oneof\<close> is an
  optional payload.
\<close>

section \<open>Enumerations\<close>

datatype Category =
  Cat_Unspecified | Cat_Metric | Cat_ApiCall | Cat_Kernel | Cat_Memcpy | Cat_Memset
  | Cat_Sync | Cat_Overhead | Cat_Marker | Cat_Sol

text \<open>\<^verbatim>\<open>Category::X as i32\<close> and the accessor \<^verbatim>\<open>Event::category\<close>.\<close>

fun category_i32 :: "Category \<Rightarrow> i32" where
  "category_i32 Cat_Unspecified = 0"
| "category_i32 Cat_Metric = 1"
| "category_i32 Cat_ApiCall = 2"
| "category_i32 Cat_Kernel = 3"
| "category_i32 Cat_Memcpy = 4"
| "category_i32 Cat_Memset = 5"
| "category_i32 Cat_Sync = 6"
| "category_i32 Cat_Overhead = 7"
| "category_i32 Cat_Marker = 8"
| "category_i32 Cat_Sol = 9"

definition category_of_i32 :: "i32 \<Rightarrow> Category" where
  "category_of_i32 n =
     (if n = 1 then Cat_Metric else if n = 2 then Cat_ApiCall else if n = 3 then Cat_Kernel
      else if n = 4 then Cat_Memcpy else if n = 5 then Cat_Memset else if n = 6 then Cat_Sync
      else if n = 7 then Cat_Overhead else if n = 8 then Cat_Marker else if n = 9 then Cat_Sol
      else Cat_Unspecified)"

datatype Memcpy_Kind = Kind_Unknown | Kind_H2d | Kind_D2h | Kind_D2d | Kind_H2h | Kind_P2p

fun memcpy_kind_i32 :: "Memcpy_Kind \<Rightarrow> i32" where
  "memcpy_kind_i32 Kind_Unknown = 0"
| "memcpy_kind_i32 Kind_H2d = 1"
| "memcpy_kind_i32 Kind_D2h = 2"
| "memcpy_kind_i32 Kind_D2d = 3"
| "memcpy_kind_i32 Kind_H2h = 4"
| "memcpy_kind_i32 Kind_P2p = 5"

definition memcpy_kind_of_i32 :: "i32 \<Rightarrow> Memcpy_Kind" where
  "memcpy_kind_of_i32 n =
     (if n = 1 then Kind_H2d else if n = 2 then Kind_D2h else if n = 3 then Kind_D2d
      else if n = 4 then Kind_H2h else if n = 5 then Kind_P2p else Kind_Unknown)"

datatype Bound = Bound_Unknown | Bound_Memory | Bound_Compute | Bound_Latency | Bound_Balanced

fun bound_i32 :: "Bound \<Rightarrow> i32" where
  "bound_i32 Bound_Unknown = 0"
| "bound_i32 Bound_Memory = 1"
| "bound_i32 Bound_Compute = 2"
| "bound_i32 Bound_Latency = 3"
| "bound_i32 Bound_Balanced = 4"

definition bound_of_i32 :: "i32 \<Rightarrow> Bound" where
  "bound_of_i32 n =
     (if n = 1 then Bound_Memory else if n = 2 then Bound_Compute else if n = 3 then Bound_Latency
      else if n = 4 then Bound_Balanced else Bound_Unknown)"

datatype Confidence = Conf_Unknown | Conf_Low | Conf_High

fun confidence_i32 :: "Confidence \<Rightarrow> i32" where
  "confidence_i32 Conf_Unknown = 0"
| "confidence_i32 Conf_Low = 1"
| "confidence_i32 Conf_High = 2"

definition confidence_of_i32 :: "i32 \<Rightarrow> Confidence" where
  "confidence_of_i32 n = (if n = 1 then Conf_Low else if n = 2 then Conf_High else Conf_Unknown)"

datatype Source = Src_Unknown | Src_HostSampling | Src_Replay

fun source_i32 :: "Source \<Rightarrow> i32" where
  "source_i32 Src_Unknown = 0"
| "source_i32 Src_HostSampling = 1"
| "source_i32 Src_Replay = 2"

definition source_of_i32 :: "i32 \<Rightarrow> Source" where
  "source_of_i32 n = (if n = 1 then Src_HostSampling else if n = 2 then Src_Replay else Src_Unknown)"

section \<open>Messages\<close>

record MetricSample =
  ms_metric_id :: u64
  ms_value :: f64
  ms_unit :: string

record MetricPoint =
  mp_metric_id :: u64
  mp_value :: f64

record MetricFrame =
  mf_node_id :: u32
  mf_gpu_id :: u32
  mf_ts_ns :: u64
  mf_points :: "MetricPoint list"

record KernelDetail =
  kd_grid_x :: u32
  kd_grid_y :: u32
  kd_grid_z :: u32
  kd_block_x :: u32
  kd_block_y :: u32
  kd_block_z :: u32
  kd_static_shared_mem_bytes :: u32
  kd_dynamic_shared_mem_bytes :: u32
  kd_registers_per_thread :: u32
  kd_local_mem_per_thread :: u32
  kd_launch_cbid :: u32

record MemcpyDetail =
  md_kind :: i32
  md_bytes :: u64
  md_src_device :: u32
  md_dst_device :: u32

record ApiCallDetail =
  ad_cbid :: u32
  ad_status :: u32

record MarkerDetail =
  mk_domain_id :: u64
  mk_color_argb :: u32
  mk_message_id :: u64

record StallCount =
  sc_reason_id :: u32
  sc_count :: u32

record KernelSol =
  ks_correlation_id :: u64
  ks_sm_active_pct :: f32
  ks_achieved_occupancy_pct :: f32
  ks_dram_bw_pct :: f32
  ks_l1_bw_pct :: f32
  ks_l2_bw_pct :: f32
  ks_inst_throughput_pct :: f32
  ks_theoretical_occupancy_pct :: f32
  ks_arithmetic_intensity :: f32
  ks_achieved_gflops :: f32
  ks_bound :: i32
  ks_confidence :: i32
  ks_source :: i32
  ks_stalls :: "StallCount list"

datatype Payload =
  Payload_Metric MetricSample
  | Payload_Kernel KernelDetail
  | Payload_Memcpy MemcpyDetail
  | Payload_Api ApiCallDetail
  | Payload_Marker MarkerDetail
  | Payload_Sol KernelSol

record Event =
  e_ts_ns :: u64
  e_duration_ns :: u64
  e_node_id :: u32
  e_gpu_id :: u32
  e_pid :: u32
  e_tid :: u32
  e_ctx_id :: u32
  e_stream_id :: u32
  e_category :: i32
  e_name_id :: u64
  e_correlation_id :: u64
  e_parent_id :: u64
  e_payload :: "Payload option"

record StringIntern =
  si_id :: u64
  si_text :: string

text \<open>The offset and the slope are \<^verbatim>\<open>fixed64\<close> on the wire, unsigned.\<close>

record ClockOffsetMsg =
  co_node_id :: u32
  co_gpu_id :: u32
  co_offset_ns :: u64
  co_slope_num :: u64
  co_slope_den :: u64
  co_residual_max_ns :: u64

record DevicePeak =
  dp_gpu_id :: u32
  dp_peak_fp32_gflops :: f32
  dp_peak_dram_gb_s :: f32
  dp_device_name :: string
  dp_compute_capability :: string

record AgentHello =
  ah_node_id :: u32
  ah_hostname :: string
  ah_agent_version :: string
  ah_num_gpus :: u32
  ah_device_peaks :: "DevicePeak list"
  ah_agent_rpc_addr :: string

record Batch =
  b_events :: "Event list"
  b_strings :: "StringIntern list"
  b_offsets :: "ClockOffsetMsg list"
  b_metric_frames :: "MetricFrame list"

record Ack =
  ack_accepted :: u64
  ack_dropped :: u64

record RegisterAck =
  ra_assigned_node_id :: u32
  ra_server_epoch_ns :: u64

record ProfileRequest =
  pr_gpu_id :: u32
  pr_window_start_ns :: u64
  pr_window_end_ns :: u64
  pr_correlation_ids :: "u64 list"
  pr_name_ids :: "u64 list"
  pr_timeout_ms :: u32

text \<open>The accessor of an enumeration field undoes the cast of its value.\<close>

lemma category_roundtrip [simp]: "category_of_i32 (category_i32 c) = c"
  by (cases c) (simp_all add: category_of_i32_def)

lemma memcpy_kind_roundtrip [simp]: "memcpy_kind_of_i32 (memcpy_kind_i32 k) = k"
  by (cases k) (simp_all add: memcpy_kind_of_i32_def)

lemma bound_roundtrip [simp]: "bound_of_i32 (bound_i32 b) = b"
  by (cases b) (simp_all add: bound_of_i32_def)

lemma confidence_roundtrip [simp]: "confidence_of_i32 (confidence_i32 c) = c"
  by (cases c) (simp_all add: confidence_of_i32_def)

lemma source_roundtrip [simp]: "source_of_i32 (source_i32 s) = s"
  by (cases s) (simp_all add: source_of_i32_def)

lemma category_i32_inj [simp]: "category_i32 c = category_i32 d \<longleftrightarrow> c = d"
  by (metis category_roundtrip)

end
