(* ===== verification/Store_Rows.thy ===== *)
theory Store_Rows
  imports Proto
begin

text \<open>
  The row types of \<^verbatim>\<open>crates/perfweave-server/src/store/sink.rs\<close> and the conversions of
  wire messages into rows.
\<close>

section \<open>Rows\<close>

record SinkConfig =
  cfg_url :: string
  cfg_user :: string
  cfg_password :: string
  cfg_database :: string
  cfg_max_batch_rows :: nat
  cfg_max_batch_ms :: u64

definition sink_config_default :: SinkConfig where
  "sink_config_default =
     \<lparr>cfg_url = ''http://127.0.0.1:8123'', cfg_user = ''default'', cfg_password = '''',
      cfg_database = ''default'', cfg_max_batch_rows = 50000, cfg_max_batch_ms = 500\<rparr>"

record EventRow =
  er_ts_ns :: u64
  er_duration_ns :: u64
  er_node_id :: u32
  er_gpu_id :: u8
  er_pid :: u32
  er_tid :: u32
  er_ctx_id :: u32
  er_stream_id :: u32
  er_category :: i8
  er_name_id :: u64
  er_correlation_id :: u64
  er_parent_id :: u64
  er_metric_id :: u64
  er_metric_value :: f64
  er_metric_unit :: string
  er_grid_x :: u32
  er_grid_y :: u32
  er_grid_z :: u32
  er_block_x :: u32
  er_block_y :: u32
  er_block_z :: u32
  er_shared_static :: u32
  er_shared_dynamic :: u32
  er_registers :: u32
  er_local_mem :: u32
  er_launch_cbid :: u32
  er_memcpy_kind :: i8
  er_memcpy_bytes :: u64
  er_memcpy_src :: u32
  er_memcpy_dst :: u32
  er_api_cbid :: u32
  er_api_status :: u32
  er_marker_domain_id :: u64
  er_marker_color :: u32
  er_marker_message_id :: u64

fun category_to_i8 :: "Category \<Rightarrow> i8" where
  "category_to_i8 Cat_Unspecified = 1"
| "category_to_i8 Cat_Metric = 1"
| "category_to_i8 Cat_ApiCall = 2"
| "category_to_i8 Cat_Kernel = 3"
| "category_to_i8 Cat_Memcpy = 4"
| "category_to_i8 Cat_Memset = 5"
| "category_to_i8 Cat_Sync = 6"
| "category_to_i8 Cat_Overhead = 7"
| "category_to_i8 Cat_Marker = 8"
| "category_to_i8 Cat_Sol = 3"

fun memcpy_kind_to_i8 :: "Memcpy_Kind \<Rightarrow> i8" where
  "memcpy_kind_to_i8 Kind_Unknown = 0"
| "memcpy_kind_to_i8 Kind_H2d = 1"
| "memcpy_kind_to_i8 Kind_D2h = 2"
| "memcpy_kind_to_i8 Kind_D2d = 3"
| "memcpy_kind_to_i8 Kind_H2h = 4"
| "memcpy_kind_to_i8 Kind_P2p = 5"

definition event_row_base :: "Event \<Rightarrow> EventRow" where
  "event_row_base e =
     \<lparr>er_ts_ns = e_ts_ns e, er_duration_ns = e_duration_ns e, er_node_id = e_node_id e,
      er_gpu_id = ucast (e_gpu_id e), er_pid = e_pid e, er_tid = e_tid e, er_ctx_id = e_ctx_id e,
      er_stream_id = e_stream_id e,
      er_category = category_to_i8 (category_of_i32 (e_category e)),
      er_name_id = e_name_id e, er_correlation_id = e_correlation_id e,
      er_parent_id = e_parent_id e,
      er_metric_id = 0, er_metric_value = FZero False, er_metric_unit = '''',
      er_grid_x = 0, er_grid_y = 0, er_grid_z = 0, er_block_x = 0, er_block_y = 0, er_block_z = 0,
      er_shared_static = 0, er_shared_dynamic = 0, er_registers = 0, er_local_mem = 0,
      er_launch_cbid = 0, er_memcpy_kind = 0, er_memcpy_bytes = 0, er_memcpy_src = 0,
      er_memcpy_dst = 0, er_api_cbid = 0, er_api_status = 0,
      er_marker_domain_id = 0, er_marker_color = 0, er_marker_message_id = 0\<rparr>"

definition event_row :: "Event \<Rightarrow> EventRow" where
  "event_row e =
     (let row = event_row_base e in
      case e_payload e of
        Some (Payload_Metric m) \<Rightarrow>
          row\<lparr>er_metric_id := ms_metric_id m, er_metric_value := ms_value m, er_metric_unit := ms_unit m\<rparr>
      | Some (Payload_Kernel k) \<Rightarrow>
          row\<lparr>er_grid_x := kd_grid_x k, er_grid_y := kd_grid_y k, er_grid_z := kd_grid_z k,
              er_block_x := kd_block_x k, er_block_y := kd_block_y k, er_block_z := kd_block_z k,
              er_shared_static := kd_static_shared_mem_bytes k,
              er_shared_dynamic := kd_dynamic_shared_mem_bytes k,
              er_registers := kd_registers_per_thread k, er_local_mem := kd_local_mem_per_thread k,
              er_launch_cbid := kd_launch_cbid k\<rparr>
      | Some (Payload_Memcpy m) \<Rightarrow>
          row\<lparr>er_memcpy_kind := memcpy_kind_to_i8 (memcpy_kind_of_i32 (md_kind m)),
              er_memcpy_bytes := md_bytes m, er_memcpy_src := md_src_device m,
              er_memcpy_dst := md_dst_device m\<rparr>
      | Some (Payload_Api a) \<Rightarrow> row\<lparr>er_api_cbid := ad_cbid a, er_api_status := ad_status a\<rparr>
      | Some (Payload_Marker mk) \<Rightarrow>
          row\<lparr>er_marker_domain_id := mk_domain_id mk, er_marker_color := mk_color_argb mk,
              er_marker_message_id := mk_message_id mk\<rparr>
      | Some (Payload_Sol _) \<Rightarrow> row
      | None \<Rightarrow> row)"

record StringRow =
  sr_id :: u64
  sr_text :: string

record OffsetRow =
  or_fitted_at_ns :: u64
  or_node_id :: u32
  or_gpu_id :: u8
  or_offset_ns :: i64
  or_slope_num :: i64
  or_slope_den :: i64
  or_residual_max_ns :: u64

record KernelSolRow =
  kr_ts_ns :: u64
  kr_node_id :: u32
  kr_gpu_id :: u8
  kr_correlation_id :: u64
  kr_sm_active_pct :: f32
  kr_achieved_occupancy_pct :: f32
  kr_dram_bw_pct :: f32
  kr_l1_bw_pct :: f32
  kr_l2_bw_pct :: f32
  kr_inst_throughput_pct :: f32
  kr_theoretical_occupancy_pct :: f32
  kr_arithmetic_intensity :: f32
  kr_achieved_gflops :: f32
  kr_bound :: i8
  kr_confidence :: i8
  kr_source :: i8
  kr_stall_reasons :: "u32 list"
  kr_stall_counts :: "u32 list"

definition kernel_sol_row :: "u64 \<Rightarrow> u32 \<Rightarrow> KernelSol \<Rightarrow> KernelSolRow" where
  "kernel_sol_row now node_id s =
     \<lparr>kr_ts_ns = now, kr_node_id = node_id, kr_gpu_id = 0,
      kr_correlation_id = ks_correlation_id s, kr_sm_active_pct = ks_sm_active_pct s,
      kr_achieved_occupancy_pct = ks_achieved_occupancy_pct s, kr_dram_bw_pct = ks_dram_bw_pct s,
      kr_l1_bw_pct = ks_l1_bw_pct s, kr_l2_bw_pct = ks_l2_bw_pct s,
      kr_inst_throughput_pct = ks_inst_throughput_pct s,
      kr_theoretical_occupancy_pct = ks_theoretical_occupancy_pct s,
      kr_arithmetic_intensity = ks_arithmetic_intensity s, kr_achieved_gflops = ks_achieved_gflops s,
      kr_bound = ucast (bound_i32 (bound_of_i32 (ks_bound s))),
      kr_confidence = ucast (confidence_i32 (confidence_of_i32 (ks_confidence s))),
      kr_source = ucast (source_i32 (source_of_i32 (ks_source s))),
      kr_stall_reasons = map sc_reason_id (ks_stalls s),
      kr_stall_counts = map sc_count (ks_stalls s)\<rparr>"

record SpikeRow =
  sp_bucket_start_ns :: u64
  sp_bucket_width_ns :: u64
  sp_node_id :: u32
  sp_gpu_id :: u8
  sp_metric_id :: u64
  sp_value :: f64
  sp_median :: f64
  sp_mad :: f64
  sp_z_mad :: f64

text \<open>A row of any table.\<close>

datatype Row =
  Row_String StringRow | Row_Event EventRow | Row_Offset OffsetRow | Row_Sol KernelSolRow
  | Row_Spike SpikeRow

end
