(* ===== verification/Spike_Detect.thy ===== *)
theory Spike_Detect
  imports Live Clock Store_Rows
begin

text \<open>
  The spike detector, \<^verbatim>\<open>crates/perfweave-server/src/spike_detect.rs\<close>: the running mean
  and variance of every series, the robust second pass over the slow tail, and the rate
  limit. The rows handed to the sink and the frames handed to the broadcaster are part of
  the state. The lemmas give what a fired spike guarantees and when none can fire.
\<close>

section \<open>Model\<close>

record Welford =
  wf_n :: u64
  wf_mean :: f64
  wf_m2 :: f64

definition welford_default :: Welford where
  "welford_default = \<lparr>wf_n = 0, wf_mean = FZero False, wf_m2 = FZero False\<rparr>"

definition welford_update :: "Welford \<Rightarrow> f64 \<Rightarrow> Welford" where
  "welford_update w x =
     (let n = wf_n w + 1;
          delta = fsub F64 x (wf_mean w);
          mean = fadd F64 (wf_mean w) (fdiv F64 delta (of_int_fp F64 (uint n)));
          delta2 = fsub F64 x mean
      in \<lparr>wf_n = n, wf_mean = mean, wf_m2 = fadd F64 (wf_m2 w) (fmul F64 delta delta2)\<rparr>)"

definition sigma :: "Welford \<Rightarrow> f64" where
  "sigma w =
     (if wf_n w < 2 then FZero False
      else fsqrt F64 (fdiv F64 (wf_m2 w) (of_int_fp F64 (uint (wf_n w - 1)))))"

definition WELFORD_Z_THRESHOLD :: f64 where "WELFORD_Z_THRESHOLD = lit F64 3"

definition MAD_Z_THRESHOLD :: f64 where "MAD_Z_THRESHOLD = lit F64 (7 / 2)"

definition mad_of :: "f64 list \<Rightarrow> f64 \<Rightarrow> f64" where
  "mad_of values median = upper_median (map (\<lambda>v. fabs (fsub F64 v median)) (sort_by fcmp values))"

definition median_and_mad :: "SeriesSnapshot \<Rightarrow> f64 \<times> f64" where
  "median_and_mad snap =
     (if ss_slow snap = [] then (FZero False, FZero False)
      else let values = map s_value (ss_slow snap);
               median = upper_median values
           in (median, fmul F64 (mad_of values median) (lit F64 (14826 / 10000))))"

record Detector =
  dt_welford :: "SeriesKey \<rightharpoonup> Welford"
  dt_last_fired :: "SeriesKey \<rightharpoonup> u64"
  dt_rows :: "SpikeRow list"
  dt_live :: LiveBroadcaster

definition detector_new :: "LiveBroadcaster \<Rightarrow> Detector" where
  "detector_new bc = \<lparr>dt_welford = Map.empty, dt_last_fired = Map.empty, dt_rows = [], dt_live = bc\<rparr>"

type_synonym work_item = "SeriesKey \<times> f64 \<times> SeriesSnapshot"

definition gather :: "FastRing \<Rightarrow> SeriesKey list \<Rightarrow> work_item list" where
  "gather ring order =
     for_each_series ring order
       (\<lambda>k snap work. case last_opt (ss_fast snap) of
          Some latest \<Rightarrow> work @ [(k, s_value latest, snap)] | None \<Rightarrow> work) []"

definition spike_row :: "SpikeEvent \<Rightarrow> SpikeRow" where
  "spike_row ev =
     \<lparr>sp_bucket_start_ns = se_bucket_start_ns ev, sp_bucket_width_ns = se_bucket_width_ns ev,
      sp_node_id = se_node_id ev, sp_gpu_id = ucast (se_gpu_id ev), sp_metric_id = se_metric_id ev,
      sp_value = se_value ev, sp_median = se_median ev, sp_mad = se_mad ev, sp_z_mad = se_z_mad ev\<rparr>"

definition spike_event :: "SeriesKey \<Rightarrow> u64 \<Rightarrow> f64 \<Rightarrow> f64 \<Rightarrow> f64 \<Rightarrow> f64 \<Rightarrow> SpikeEvent" where
  "spike_event k latest_ts x median mad z_mad =
     \<lparr>se_bucket_start_ns = latest_ts, se_bucket_width_ns = 1000000000, se_node_id = sk_node_id k,
      se_gpu_id = sk_gpu_id k, se_metric_id = sk_metric_id k, se_value = x, se_median = median,
      se_mad = mad, se_z_mad = z_mad\<rparr>"

text \<open>Pass 1 of the loop's body: does the Gaussian score escalate to pass 2?\<close>

definition escalates :: "Welford \<Rightarrow> f64 \<Rightarrow> bool" where
  "escalates w x =
     (let z = (if flt (FZero False) (sigma w)
               then fdiv F64 (fabs (fsub F64 x (wf_mean w))) (sigma w) else FZero False)
      in \<not> (fle z WELFORD_Z_THRESHOLD \<or> wf_n w < 16))"

text \<open>Pass 2: the robust score, if it does not stop the iteration.\<close>

definition robust_score :: "SeriesSnapshot \<Rightarrow> f64 \<Rightarrow> (f64 \<times> f64 \<times> f64) option" where
  "robust_score snap x =
     (let (median, mad) = median_and_mad snap in
      if fle mad (FZero False) then None
      else let z_mad = fdiv F64 (fabs (fsub F64 x median)) mad in
        if flt z_mad MAD_Z_THRESHOLD then None else Some (median, mad, z_mad))"

definition rate_limited :: "(SeriesKey \<rightharpoonup> u64) \<Rightarrow> SeriesKey \<Rightarrow> u64 \<Rightarrow> bool" where
  "rate_limited last_fired k latest_ts =
     (case last_fired k of Some prev \<Rightarrow> sat_sub latest_ts prev < 10000000000 | None \<Rightarrow> False)"

definition latest_ts :: "SeriesSnapshot \<Rightarrow> u64" where
  "latest_ts snap = (case last_opt (ss_fast snap) of Some s \<Rightarrow> s_ts_ns s | None \<Rightarrow> 0)"

fun process_item :: "Detector \<Rightarrow> work_item \<Rightarrow> Detector" where
  "process_item d (k, x, snap) =
     (let w = welford_update (case dt_welford d k of Some w \<Rightarrow> w | None \<Rightarrow> welford_default) x;
          d = d\<lparr>dt_welford := (dt_welford d)(k \<mapsto> w)\<rparr>
      in if \<not> escalates w x then d
         else case robust_score snap x of
           None \<Rightarrow> d
         | Some (median, mad, z_mad) \<Rightarrow>
             let ts = latest_ts snap in
             if rate_limited (dt_last_fired d) k ts then d
             else let ev = spike_event k ts x median mad z_mad
               in d\<lparr>dt_last_fired := (dt_last_fired d)(k \<mapsto> ts),
                    dt_rows := dt_rows d @ [spike_row ev],
                    dt_live := publish_frame (Live_Spike ev) (dt_live d)\<rparr>)"

definition tick_once :: "FastRing \<Rightarrow> SeriesKey list \<Rightarrow> Detector \<Rightarrow> Detector" where
  "tick_once ring order d = foldl process_item d (gather ring order)"

datatype detect_wakeup = DetectShutdown bool | DetectTick FastRing "SeriesKey list"

fun detector_run :: "detect_wakeup list \<Rightarrow> Detector \<Rightarrow> Detector" where
  "detector_run [] d = d"
| "detector_run (DetectShutdown b # ws) d = (if b then d else detector_run ws d)"
| "detector_run (DetectTick ring order # ws) d = detector_run ws (tick_once ring order d)"

section \<open>The run as a sequence of observations\<close>

text \<open>The observations that a run makes, up to the shutdown.\<close>

fun observed :: "detect_wakeup list \<Rightarrow> work_item list" where
  "observed [] = []"
| "observed (DetectShutdown b # ws) = (if b then [] else observed ws)"
| "observed (DetectTick ring order # ws) = gather ring order @ observed ws"

lemma detector_run_observed: "detector_run ws d = foldl process_item d (observed ws)"
  by (induction ws d rule: detector_run.induct) (auto simp: tick_once_def)

text \<open>The spikes among the frames that the detector has published.\<close>

definition spikes :: "LiveFrame list \<Rightarrow> SpikeEvent list" where
  "spikes fs = List.map_filter (\<lambda>f. case f of Live_Spike s \<Rightarrow> Some s | Live_Metric _ \<Rightarrow> None) fs"

definition fired :: "Detector \<Rightarrow> SpikeEvent list" where
  "fired d = spikes (lb_metrics (dt_live d))"

definition series_of :: "SpikeEvent \<Rightarrow> SeriesKey" where
  "series_of ev = \<lparr>sk_node_id = se_node_id ev, sk_gpu_id = se_gpu_id ev, sk_metric_id = se_metric_id ev\<rparr>"

lemma spikes_snoc [simp]: "spikes (fs @ [Live_Spike ev]) = spikes fs @ [ev]" "spikes [] = []"
  by (simp_all add: spikes_def List.map_filter_def)

lemma series_of_event [simp]: "series_of (spike_event k ts x m mad z) = k"
  by (simp add: series_of_def spike_event_def)

text \<open>An observation fires at most one spike, and only under the three conditions.\<close>

definition fires :: "Detector \<Rightarrow> work_item \<Rightarrow> SpikeEvent option" where
  "fires d it =
     (case it of (k, x, snap) \<Rightarrow>
        let w = welford_update (case dt_welford d k of Some w \<Rightarrow> w | None \<Rightarrow> welford_default) x in
        if escalates w x \<and> \<not> rate_limited (dt_last_fired d) k (latest_ts snap)
        then map_option (\<lambda>(m, mad, z). spike_event k (latest_ts snap) x m mad z) (robust_score snap x)
        else None)"

lemma process_item_fires:
  "process_item d (k, x, snap) =
     (let w = welford_update (case dt_welford d k of Some w \<Rightarrow> w | None \<Rightarrow> welford_default) x;
          d' = d\<lparr>dt_welford := (dt_welford d)(k \<mapsto> w)\<rparr>
      in case fires d (k, x, snap) of
           None \<Rightarrow> d'
         | Some ev \<Rightarrow> d'\<lparr>dt_last_fired := (dt_last_fired d)(k \<mapsto> se_bucket_start_ns ev),
                         dt_rows := dt_rows d @ [spike_row ev],
                         dt_live := publish_frame (Live_Spike ev) (dt_live d)\<rparr>)"
  by (auto simp: fires_def Let_def spike_event_def split: option.splits)

lemma fired_process [simp]:
  "fired (process_item d it) = fired d @ (case fires d it of None \<Rightarrow> [] | Some ev \<Rightarrow> [ev])"
  "dt_rows (process_item d it) = dt_rows d @ (case fires d it of None \<Rightarrow> [] | Some ev \<Rightarrow> [spike_row ev])"
  by (cases it; simp add: process_item_fires Let_def fired_def publish_frame_def del: process_item.simps split: option.split)+

lemma fires_Some:
  assumes "fires d (k, x, snap) = Some ev"
  obtains m mad z where "robust_score snap x = Some (m, mad, z)"
    "ev = spike_event k (latest_ts snap) x m mad z" "\<not> rate_limited (dt_last_fired d) k (latest_ts snap)"
    "escalates (welford_update (case dt_welford d k of Some w \<Rightarrow> w | None \<Rightarrow> welford_default) x) x"
  using assms by (auto simp: fires_def Let_def split: if_splits option.splits)

section \<open>Properties\<close>

text \<open>The time of the last spike of a series is the time on record.\<close>

definition limit_inv :: "Detector \<Rightarrow> bool" where
  "limit_inv d \<longleftrightarrow>
     sorted_wrt (\<lambda>a b. series_of a = series_of b \<longrightarrow>
       uint (se_bucket_start_ns a) + 10000000000 \<le> uint (se_bucket_start_ns b)) (fired d) \<and>
     (\<forall>ev \<in> set (fired d). \<exists>t. dt_last_fired d (series_of ev) = Some t \<and> se_bucket_start_ns ev \<le> t)"

lemma not_rate_limited:
  "\<not> rate_limited lf k ts \<Longrightarrow> lf k = Some t \<Longrightarrow> uint t + 10000000000 \<le> uint ts"
  by (auto simp: rate_limited_def word_less_def uint_sat_sub not_less le_max_iff_disj)

lemma limit_inv_process: "limit_inv d \<Longrightarrow> limit_inv (process_item d it)"
proof -
  assume inv: "limit_inv d"
  obtain k x snap where it: "it = (k, x, snap)" by (cases it)
  show ?thesis
  proof (cases "fires d it")
    case None
    then show ?thesis
      using inv by (simp add: it process_item_fires limit_inv_def Let_def fired_def del: process_item.simps)
  next
    case (Some ev)
    then obtain m mad z where ev: "ev = spike_event k (latest_ts snap) x m mad z"
      and nl: "\<not> rate_limited (dt_last_fired d) k (latest_ts snap)"
      unfolding it by (rule fires_Some)
    have s: "series_of ev = k" "se_bucket_start_ns ev = latest_ts snap"
      by (simp_all add: ev) (simp add: spike_event_def)
    have lf: "dt_last_fired (process_item d it) = (dt_last_fired d)(k \<mapsto> latest_ts snap)"
      using Some s(2) by (simp add: it process_item_fires Let_def del: process_item.simps)
    have old: "uint (se_bucket_start_ns e) + 10000000000 \<le> uint (latest_ts snap)"
      if "e \<in> set (fired d)" "series_of e = k" for e
      using inv that not_rate_limited [OF nl] by (fastforce simp: limit_inv_def word_le_def)
    then have "se_bucket_start_ns e \<le> latest_ts snap" if "e \<in> set (fired d)" "series_of e = k" for e
      using that by (fastforce simp: word_le_def)
    with inv old Some s lf show ?thesis by (auto simp: limit_inv_def sorted_wrt_append)
  qed
qed

lemma limit_inv_run: "limit_inv d \<Longrightarrow> limit_inv (foldl process_item d its)"
  by (induction its arbitrary: d) (auto simp: limit_inv_process simp del: process_item.simps)

text \<open>
  C9: The rate limit holds over the whole life of the detector: any two spikes that it
  fires for the same series, the earlier one first, are at least ten seconds apart in the
  time stamps of their samples, whatever the ring contains at each tick.
\<close>

theorem spike_rate_limit:
  "sorted_wrt (\<lambda>a b. uint a + 10000000000 \<le> uint b)
     (map se_bucket_start_ns
       (filter (\<lambda>ev. series_of ev = k) (fired (detector_run ws (detector_new broadcaster_new)))))"
proof -
  have "limit_inv (detector_new broadcaster_new)"
    by (simp add: limit_inv_def detector_new_def broadcaster_new_def fired_def)
  then have s: "sorted_wrt (\<lambda>a b. series_of a = series_of b \<longrightarrow>
      uint (se_bucket_start_ns a) + 10000000000 \<le> uint (se_bucket_start_ns b))
    (fired (detector_run ws (detector_new broadcaster_new)))"
    using limit_inv_run by (simp add: detector_run_observed limit_inv_def)
  have "sorted_wrt (\<lambda>a b. uint a + 10000000000 \<le> uint b)
      (map se_bucket_start_ns (filter (\<lambda>ev. series_of ev = k) evs))"
    if "sorted_wrt (\<lambda>a b. series_of a = series_of b \<longrightarrow>
      uint (se_bucket_start_ns a) + 10000000000 \<le> uint (se_bucket_start_ns b)) evs" for evs
    using that by (induction evs) (auto simp: sorted_wrt_map)
  with s show ?thesis by blast
qed

text \<open>The observations of one series, and the counter that the first pass keeps.\<close>

definition obs :: "SeriesKey \<Rightarrow> work_item list \<Rightarrow> f64 list" where
  "obs k its = map (\<lambda>(_, x, _). x) (filter (\<lambda>(k', _, _). k' = k) its)"

lemma obs_simps [simp]:
  "obs k [] = []" "obs k (its @ [(k', x, snap)]) = obs k its @ (if k' = k then [x] else [])"
  by (simp_all add: obs_def)

definition observe :: "Welford option \<Rightarrow> f64 \<Rightarrow> Welford option" where
  "observe w x = Some (welford_update (case w of Some w \<Rightarrow> w | None \<Rightarrow> welford_default) x)"

lemma observe_Some: "observe (Some v) x = Some (welford_update v x)"
  by (simp add: observe_def)

lemma welford_process [simp]:
  "dt_welford (process_item d (k', x, snap)) k = (if k' = k then observe (dt_welford d k) x else dt_welford d k)"
  by (simp add: process_item_fires Let_def observe_def del: process_item.simps split: option.split)

text \<open>The statistics of a series are the fold of its own observations.\<close>

lemma welford_of_run:
  "dt_welford (foldl process_item d its) k = foldl observe (dt_welford d k) (obs k its)"
  by (induction its rule: rev_induct) (auto simp del: process_item.simps)

lemma wf_n_update [simp]: "wf_n (welford_update w x) = wf_n w + 1" "wf_n welford_default = 0"
  by (simp_all add: welford_update_def welford_default_def Let_def)

lemma welford_count:
  "foldl observe None xs = Some w \<Longrightarrow> wf_n w = of_nat (length xs)"
proof (induction xs arbitrary: w rule: rev_induct)
  case step: (snoc x xs)
  show ?case
  proof (cases "foldl observe None xs")
    case None
    then have "xs = []" by (cases xs rule: rev_cases) (auto simp: observe_def)
    then show ?thesis using step.prems by (auto simp: observe_def)
  next
    case (Some v)
    then have "w = welford_update v x" using step.prems by (simp add: observe_Some)
    then show ?thesis using step.IH [OF Some] by (simp add: add.commute)
  qed
qed simp

lemma escalates_count: "escalates w x \<Longrightarrow> wf_n w = of_nat n \<Longrightarrow> 16 \<le> n"
proof -
  assume "escalates w x" "wf_n w = of_nat n"
  then have "(16 :: u64) \<le> of_nat n" by (simp add: escalates_def Let_def not_less)
  then have "16 \<le> unat (of_nat n :: u64)" by (simp add: word_le_nat_alt)
  also have "\<dots> \<le> n" by (simp add: unat_of_nat)
  finally show ?thesis .
qed

text \<open>
  The detector needs sixteen observations: as long as it has seen fewer than sixteen
  values of a series it has fired no spike for it.
\<close>

theorem spike_needs_16_observations:
  "filter (\<lambda>ev. series_of ev = k) (fired (detector_run ws (detector_new broadcaster_new))) = []
   \<or> 16 \<le> length (obs k (observed ws))"
proof -
  have "filter (\<lambda>ev. series_of ev = k) (fired (foldl process_item (detector_new broadcaster_new) its)) = []
      \<or> 16 \<le> length (obs k its)" for its
  proof (induction its rule: rev_induct)
    case Nil
    show ?case by (simp add: fired_def detector_new_def broadcaster_new_def)
  next
    case (snoc it its)
    obtain k' x snap where it: "it = (k', x, snap)" by (cases it)
    let ?d = "foldl process_item (detector_new broadcaster_new) its"
    have "16 \<le> length (obs k (its @ [it]))" if "fires ?d it = Some ev" "series_of ev = k" for ev
    proof -
      have k: "k' = k" and "escalates (the (observe (dt_welford ?d k) x)) x"
        using that unfolding it by (auto elim: fires_Some simp: observe_def)
      moreover have "observe (dt_welford ?d k) x = foldl observe None (obs k (its @ [it]))"
        using k by (simp add: it welford_of_run) (simp add: detector_new_def)
      ultimately show ?thesis
        using welford_count escalates_count by (metis observe_def option.sel)
    qed
    with snoc show ?case by (cases "fires ?d it") (auto simp: it simp del: process_item.simps)
  qed
  then show ?thesis by (simp add: detector_run_observed)
qed

section \<open>Which observations are spikes\<close>

text \<open>
  A median by rank, without sorting: at most half of the values are below it and fewer than half
  above, so of two middle values it is the upper one.
\<close>

definition is_median :: "f64 \<Rightarrow> f64 list \<Rightarrow> bool" where
  "is_median m vs \<longleftrightarrow> m \<in> set vs \<and> 2 * length (filter (\<lambda>v. flt v m) vs) \<le> length vs
     \<and> 2 * length (filter (\<lambda>v. flt m v) vs) < length vs"

text \<open>
  The two passes on an observation \<open>x\<close>: against all observations \<open>xs\<close> of its series, itself included, it
  is more than three standard deviations from the mean, and against the slow tail \<open>vs\<close> its distance from the median
  is 3.5 scaled deviations or more.
\<close>

definition outlier :: "f64 list \<Rightarrow> f64 \<Rightarrow> bool" where
  "outlier xs x \<longleftrightarrow> 16 \<le> length xs \<and>
     (let w = foldl welford_update welford_default xs in
      flt (FZero False) (sigma w) \<and> \<not> fle (fdiv F64 (fabs (fsub F64 x (wf_mean w))) (sigma w)) (lit F64 3))"

definition far_off :: "f64 \<Rightarrow> f64 \<Rightarrow> f64 \<Rightarrow> f64 \<Rightarrow> bool" where
  "far_off x m mad z \<longleftrightarrow> \<not> fle mad (FZero False) \<and> z = fdiv F64 (fabs (fsub F64 x m)) mad \<and> \<not> flt z (lit F64 (7 / 2))"

definition robust_outlier :: "f64 list \<Rightarrow> f64 \<Rightarrow> f64 \<Rightarrow> f64 \<Rightarrow> f64 \<Rightarrow> bool" where
  "robust_outlier vs x m mad z \<longleftrightarrow> is_median m vs
     \<and> (\<exists>d. is_median d (map (\<lambda>v. fabs (fsub F64 v m)) vs) \<and> mad = fmul F64 d (lit F64 (14826 / 10000)))
     \<and> far_off x m mad z"

lemma fkey_eq_fin: "is_fin a \<Longrightarrow> is_fin b \<Longrightarrow> fkey a = fkey b \<Longrightarrow> fabs (fsub f a b) = FZero False"
  by (cases a; cases b) (auto simp: fsub_def)

lemma fsub_not_nan: "is_fin a \<Longrightarrow> is_fin b \<Longrightarrow> \<not> is_nan (fabs (fsub f a b))"
  by (cases a; cases b) (auto simp: fsub_def rnd_def Let_def)

lemma is_median_mset: "mset us = mset vs \<Longrightarrow> is_median m us \<longleftrightarrow> is_median m vs"
proof -
  assume e: "mset us = mset vs"
  have "length (filter P us) = length (filter P vs)" for P using e by (metis mset_filter size_mset)
  moreover have "set us = set vs" "length us = length vs" using e by (metis set_mset_mset, metis size_mset)
  ultimately show ?thesis by (simp add: is_median_def)
qed

lemma nth_rank:
  fixes ks :: "'a :: linorder list"
  assumes "sorted ks" "i < length ks"
  shows "length (filter (\<lambda>k. k < ks ! i) ks) \<le> i" "length (filter (\<lambda>k. ks ! i < k) ks) < length ks - i"
proof -
  have split: "filter P ks = filter P (take i ks) @ filter P (drop i ks)" for P
    by (metis append_take_drop_id filter_append)
  have "ks ! i \<le> k" if "k \<in> set (drop i ks)" for k
    using that assms by (auto simp: in_set_conv_nth intro: sorted_nth_mono)
  then have "filter (\<lambda>k. k < ks ! i) (drop i ks) = []" by (force simp: filter_empty_conv)
  then show "length (filter (\<lambda>k. k < ks ! i) ks) \<le> i"
    using split [of "\<lambda>k. k < ks ! i"] length_filter_le [of "\<lambda>k. k < ks ! i" "take i ks"] by simp
  have "k \<le> ks ! i" if "k \<in> set (take i ks)" for k
    using that assms by (auto simp: in_set_conv_nth sorted_iff_nth_mono)
  then have "filter (\<lambda>k. ks ! i < k) (take i ks) = []" by (force simp: filter_empty_conv)
  moreover have "length (filter (\<lambda>k. ks ! i < k) (drop i ks)) < length (drop i ks)"
    using assms(2) by (intro length_filter_less [of "ks ! i"]) (auto simp: Cons_nth_drop_Suc [symmetric])
  ultimately show "length (filter (\<lambda>k. ks ! i < k) ks) < length ks - i"
    using split [of "\<lambda>k. ks ! i < k"] by simp
qed

lemma upper_median_is_median:
  assumes "\<forall>v \<in> set vs. \<not> is_nan v" "vs \<noteq> []"
  shows "is_median (upper_median vs) vs"
proof -
  let ?ys = "sort_key fkey vs" and ?i = "length vs div 2"
  have i: "?i < length vs" using assms(2) by (cases vs) auto
  have m: "upper_median vs = ?ys ! ?i" using sort_by_eq_sort_key [OF assms(1)] by (simp add: upper_median_def Let_def)
  have nan: "\<forall>v \<in> set ?ys. \<not> is_nan v" "\<not> is_nan (?ys ! ?i)"
    using assms(1) nth_mem [of ?i ?ys] i by auto
  have "length (filter (\<lambda>k. k < map fkey ?ys ! ?i) (map fkey ?ys)) \<le> ?i"
    "length (filter (\<lambda>k. map fkey ?ys ! ?i < k) (map fkey ?ys)) < length (map fkey ?ys) - ?i"
    using nth_rank [of "map fkey ?ys" ?i] i by simp_all
  then have "length (filter (\<lambda>v. fkey v < fkey (?ys ! ?i)) ?ys) \<le> ?i"
    "length (filter (\<lambda>v. fkey (?ys ! ?i) < fkey v) ?ys) < length vs - ?i"
    using i by (simp_all add: filter_map o_def)
  moreover have "filter (\<lambda>v. flt v (?ys ! ?i)) ?ys = filter (\<lambda>v. fkey v < fkey (?ys ! ?i)) ?ys"
    "filter (\<lambda>v. flt (?ys ! ?i) v) ?ys = filter (\<lambda>v. fkey (?ys ! ?i) < fkey v) ?ys"
    using nan by (auto intro!: filter_cong simp: flt_iff_key)
  moreover have "?ys ! ?i \<in> set ?ys" using i by (intro nth_mem) simp
  ultimately have "is_median (?ys ! ?i) ?ys" using i unfolding is_median_def by simp linarith
  then show ?thesis using is_median_mset [of ?ys vs] by (simp add: m)
qed

text \<open>The code's median and scaled deviation are the ones of the specification.\<close>

lemma median_and_mad_spec:
  assumes "\<forall>s \<in> set (ss_slow snap). is_fin (s_value s)" "ss_slow snap \<noteq> []"
  obtains m d where "median_and_mad snap = (m, fmul F64 d (lit F64 (14826 / 10000)))"
    "is_median m (map s_value (ss_slow snap))"
    "is_median d (map (\<lambda>v. fabs (fsub F64 v m)) (map s_value (ss_slow snap)))"
proof -
  let ?vs = "map s_value (ss_slow snap)"
  let ?m = "upper_median ?vs"
  let ?ds = "map (\<lambda>v. fabs (fsub F64 v ?m)) (sort_by fcmp ?vs)"
  have fin: "\<forall>v \<in> set ?vs. is_fin v" and ne: "?vs \<noteq> []" using assms by auto
  have m: "is_fin ?m" using fin upper_median_in_set [OF ne] by blast
  have "\<forall>d \<in> set ?ds. \<not> is_nan d" using fin m fsub_not_nan by auto
  moreover have "?ds \<noteq> []" using ne by (metis length_0_conv length_map length_sort_by)
  ultimately have "is_median (upper_median ?ds) ?ds" by (rule upper_median_is_median)
  moreover have "mset ?ds = mset (map (\<lambda>v. fabs (fsub F64 v ?m)) ?vs)" by (metis mset_map mset_sort_by)
  ultimately have d: "is_median (mad_of ?vs ?m) (map (\<lambda>v. fabs (fsub F64 v ?m)) ?vs)"
    unfolding mad_of_def using is_median_mset by blast
  moreover have "is_median ?m ?vs" using fin ne is_fin_not_nan by (intro upper_median_is_median) auto
  ultimately show ?thesis using that assms(2) by (simp add: median_and_mad_def Let_def)
qed

lemma robust_score_sound:
  assumes "robust_score snap x = Some (m, mad, z)" "\<forall>s \<in> set (ss_slow snap). is_fin (s_value s)"
  shows "robust_outlier (map s_value (ss_slow snap)) x m mad z"
proof -
  have s: "median_and_mad snap = (m, mad)" "far_off x m mad z"
    using assms(1) by (auto simp: robust_score_def far_off_def MAD_Z_THRESHOLD_def Let_def split: if_splits prod.splits)
  have "ss_slow snap \<noteq> []"
    using s by (auto simp: median_and_mad_def far_off_def fle_def feq_def)
  from median_and_mad_spec [OF assms(2) this] s show ?thesis
    unfolding robust_outlier_def by (metis prod.inject)
qed

lemma robust_score_complete:
  assumes "\<And>m d. is_median m vs \<Longrightarrow> is_median d (map (\<lambda>v. fabs (fsub F64 v m)) vs) \<Longrightarrow>
      far_off x m (fmul F64 d (lit F64 (14826 / 10000))) (fdiv F64 (fabs (fsub F64 x m)) (fmul F64 d (lit F64 (14826 / 10000))))"
    and "vs = map s_value (ss_slow snap)" "vs \<noteq> []" "\<forall>s \<in> set (ss_slow snap). is_fin (s_value s)"
  shows "robust_score snap x \<noteq> None"
proof -
  obtain m d where "median_and_mad snap = (m, fmul F64 d (lit F64 (14826 / 10000)))" "is_median m vs"
      "is_median d (map (\<lambda>v. fabs (fsub F64 v m)) vs)"
    using median_and_mad_spec [OF assms(4)] assms(2,3) by auto
  then show ?thesis using assms(1) [of m d] by (simp add: robust_score_def far_off_def MAD_Z_THRESHOLD_def)
qed

lemma observe_fold: "foldl observe (Some w) xs = Some (foldl welford_update w xs)"
  by (induction xs arbitrary: w) (simp_all add: observe_Some)

lemma observe_fold_None: "xs \<noteq> [] \<Longrightarrow> foldl observe None xs = Some (foldl welford_update welford_default xs)"
  by (cases xs) (simp_all add: observe_def observe_fold)

lemma count_fold: "wf_n (foldl welford_update w xs) = wf_n w + of_nat (length xs)"
  by (induction xs arbitrary: w) (simp_all add: add.assoc)

lemma escalates_outlier:
  assumes "length xs < 2 ^ 64" "w = foldl welford_update welford_default xs"
  shows "escalates w x \<longleftrightarrow> outlier xs x"
proof -
  have "unat (wf_n w) = length xs" using assms by (simp add: count_fold unat_of_nat)
  then have n: "wf_n w < 16 \<longleftrightarrow> length xs < 16" by (simp add: word_less_nat_alt)
  have "fle (FZero False) (lit F64 3)" by code_simp
  then show ?thesis
    using n by (auto simp: escalates_def outlier_def assms(2) WELFORD_Z_THRESHOLD_def Let_def not_less)
qed

abbreviation detector_after :: "work_item list \<Rightarrow> Detector" where
  "detector_after its \<equiv> foldl process_item (detector_new broadcaster_new) its"

lemma escalates_after:
  assumes "length its < 2 ^ 64 - 1"
  shows "escalates (welford_update (case dt_welford (detector_after its) k of Some w \<Rightarrow> w | None \<Rightarrow> welford_default) x) x
    \<longleftrightarrow> outlier (obs k (its @ [(k, x, snap)])) x"
proof -
  have "length (obs k its) \<le> length its" by (simp add: obs_def)
  then have l: "length (obs k its @ [x]) < 2 ^ 64" using assms by simp
  have "dt_welford (detector_after its) k = foldl observe None (obs k its)"
    by (simp add: welford_of_run) (simp add: detector_new_def)
  then have "welford_update (case dt_welford (detector_after its) k of Some w \<Rightarrow> w | None \<Rightarrow> welford_default) x =
      foldl welford_update welford_default (obs k its @ [x])"
    using observe_fold_None [of "obs k its"] by (cases "obs k its = []") auto
  then show ?thesis using escalates_outlier [OF l refl, of x] by simp
qed

text \<open>The time on record for a series is the time of one of its spikes.\<close>

lemma last_fired_spike:
  "dt_last_fired (detector_after its) k = Some t \<Longrightarrow>
     \<exists>ev \<in> set (fired (detector_after its)). series_of ev = k \<and> se_bucket_start_ns ev = t"
proof (induction its rule: rev_induct)
  case Nil
  then show ?case by (simp add: detector_new_def)
next
  case (snoc it its)
  obtain k' x snap where it: "it = (k', x, snap)" by (cases it)
  show ?case
  proof (cases "fires (detector_after its) it")
    case None
    then show ?thesis using snoc by (simp add: it process_item_fires Let_def fired_def del: process_item.simps)
  next
    case (Some ev)
    have k: "series_of ev = k'" using Some unfolding it by (auto elim: fires_Some)
    have "dt_last_fired (detector_after (its @ [it])) = (dt_last_fired (detector_after its))(k' \<mapsto> se_bucket_start_ns ev)"
      using Some by (simp add: it process_item_fires Let_def del: process_item.simps)
    then show ?thesis using snoc Some k by (auto simp del: process_item.simps split: if_splits)
  qed
qed

text \<open>What it means that a spike reports an observation, given the observations before it.\<close>

definition reports :: "work_item list \<Rightarrow> work_item \<Rightarrow> SpikeEvent \<Rightarrow> bool" where
  "reports before it ev \<longleftrightarrow> (case it of (k, x, snap) \<Rightarrow>
     series_of ev = k \<and> se_value ev = x \<and> se_bucket_start_ns ev = latest_ts snap \<and> se_bucket_width_ns ev = 1000000000
     \<and> outlier (obs k (before @ [it])) x
     \<and> robust_outlier (map s_value (ss_slow snap)) x (se_median ev) (se_mad ev) (se_z_mad ev))"

lemma fires_reports:
  assumes "fires (detector_after before) it = Some ev" "length before < 2 ^ 64 - 1"
    and "\<forall>s \<in> set (ss_slow (snd (snd it))). is_fin (s_value s)"
  shows "reports before it ev"
proof -
  obtain k x snap where it: "it = (k, x, snap)" by (cases it)
  from assms(1) obtain m mad z where r: "robust_score snap x = Some (m, mad, z)"
      and ev: "ev = spike_event k (latest_ts snap) x m mad z"
      and e: "escalates (welford_update (case dt_welford (detector_after before) k of Some w \<Rightarrow> w | None \<Rightarrow> welford_default) x) x"
    unfolding it by (rule fires_Some)
  have "robust_outlier (map s_value (ss_slow snap)) x m mad z"
    using r assms(3) by (intro robust_score_sound) (simp_all add: it)
  moreover have "outlier (obs k (before @ [(k, x, snap)])) x" using e escalates_after [OF assms(2)] by simp
  moreover have "series_of ev = k" by (simp add: ev)
  ultimately show ?thesis by (simp add: reports_def it ev) (simp add: spike_event_def)
qed

lemma spikes_report:
  assumes "\<forall>it \<in> set its. \<forall>s \<in> set (ss_slow (snd (snd it))). is_fin (s_value s)" "length its < 2 ^ 64"
  shows "(\<forall>ev \<in> set (fired (detector_after its)). \<exists>before it after. its = before @ it # after \<and> reports before it ev)
    \<and> dt_rows (detector_after its) = map spike_row (fired (detector_after its))"
  using assms
proof (induction its rule: rev_induct)
  case Nil
  show ?case by (simp add: fired_def detector_new_def broadcaster_new_def)
next
  case (snoc it its)
  have IH: "\<forall>ev \<in> set (fired (detector_after its)). \<exists>before it' after. its @ [it] = before @ it' # after \<and> reports before it' ev"
    "dt_rows (detector_after its) = map spike_row (fired (detector_after its))"
    using snoc by (simp_all, metis append_Cons append_assoc)
  have "reports its it ev" if "fires (detector_after its) it = Some ev" for ev
    using that snoc.prems by (intro fires_reports) simp_all
  then have "\<exists>before it' after. its @ [it] = before @ it' # after \<and> reports before it' ev"
    if "fires (detector_after its) it = Some ev" for ev
    using that by blast
  with IH show ?case by (auto simp del: process_item.simps split: option.splits)
qed

lemma outliers_reported:
  assumes "length before < 2 ^ 64 - 1" "\<forall>s \<in> set (ss_slow snap). is_fin (s_value s)"
    and "outlier (obs k (before @ [(k, x, snap)])) x" "vs = map s_value (ss_slow snap)" "vs \<noteq> []"
    and "\<And>m d. is_median m vs \<Longrightarrow> is_median d (map (\<lambda>v. fabs (fsub F64 v m)) vs) \<Longrightarrow>
      far_off x m (fmul F64 d (lit F64 (14826 / 10000))) (fdiv F64 (fabs (fsub F64 x m)) (fmul F64 d (lit F64 (14826 / 10000))))"
  shows "\<exists>ev \<in> set (fired (detector_after (before @ [(k, x, snap)]))). series_of ev = k
    \<and> uint (latest_ts snap) < uint (se_bucket_start_ns ev) + 10000000000"
proof -
  let ?d = "detector_after before"
  obtain m mad z where r: "robust_score snap x = Some (m, mad, z)"
    using robust_score_complete [OF assms(6,4,5,2)] by (metis option.exhaust prod_cases3)
  show ?thesis
  proof (cases "rate_limited (dt_last_fired ?d) k (latest_ts snap)")
    case True
    then obtain t where t: "dt_last_fired ?d k = Some t" "sat_sub (latest_ts snap) t < 10000000000"
      by (auto simp: rate_limited_def split: option.splits)
    then have "uint (latest_ts snap) < uint t + 10000000000"
      by (simp add: word_less_def uint_sat_sub)
    with last_fired_spike [OF t(1)] show ?thesis by (auto simp del: process_item.simps)
  next
    case False
    then have "fires ?d (k, x, snap) = Some (spike_event k (latest_ts snap) x m mad z)"
      using r assms(3) escalates_after [OF assms(1)] by (simp add: fires_def Let_def)
    then show ?thesis by (auto simp: series_of_event simp del: process_item.simps) (simp add: spike_event_def)
  qed
qed

text \<open>
  C26: Exactly the outliers are reported, once on both planes. Each spike of a run reports one observation: the value,
  the time, the median and the scaled deviation of the whole slow tail are those of the observation, which has at least
  fifteen predecessors in its series, lies more than three standard deviations from the running mean and, by its rank
  statistics, 3.5 scaled deviations or more from the median, the deviation being positive. Conversely
  every observation that does is reported, unless a spike of its series less than ten seconds older was reported before. The
  rows handed to the sink are those of the spikes that are broadcast, in order. The slow tails have to be free of
  infinities and NaN. The module comment differs in two points: it has the deviation over the last 60 s of the
  slow tail, where the code takes all of it, and a spike only above 3.5, where the code fires at 3.5 too.
\<close>

theorem spikes_justified:
  assumes "\<forall>it \<in> set (observed ws). \<forall>s \<in> set (ss_slow (snd (snd it))). is_fin (s_value s)"
    and "length (observed ws) < 2 ^ 64"
  shows "(\<forall>ev \<in> set (fired (detector_run ws (detector_new broadcaster_new))).
        \<exists>before it after. observed ws = before @ it # after \<and> reports before it ev)
    \<and> (\<forall>before k x snap after. observed ws = before @ (k, x, snap) # after \<and> ss_slow snap \<noteq> []
         \<and> outlier (obs k (before @ [(k, x, snap)])) x
         \<and> (\<forall>m d. is_median m (map s_value (ss_slow snap))
              \<and> is_median d (map (\<lambda>v. fabs (fsub F64 v m)) (map s_value (ss_slow snap))) \<longrightarrow>
              far_off x m (fmul F64 d (lit F64 (14826 / 10000)))
                (fdiv F64 (fabs (fsub F64 x m)) (fmul F64 d (lit F64 (14826 / 10000))))) \<longrightarrow>
         (\<exists>ev \<in> set (fired (detector_after (before @ [(k, x, snap)]))). series_of ev = k
            \<and> uint (latest_ts snap) < uint (se_bucket_start_ns ev) + 10000000000))
    \<and> dt_rows (detector_run ws (detector_new broadcaster_new)) =
        map spike_row (fired (detector_run ws (detector_new broadcaster_new)))"
proof (intro conjI allI impI)
  show "\<forall>ev \<in> set (fired (detector_run ws (detector_new broadcaster_new))).
        \<exists>before it after. observed ws = before @ it # after \<and> reports before it ev"
    "dt_rows (detector_run ws (detector_new broadcaster_new)) =
        map spike_row (fired (detector_run ws (detector_new broadcaster_new)))"
    unfolding detector_run_observed using spikes_report [OF assms] by blast+
next
  fix before k x snap after
  assume h: "observed ws = before @ (k, x, snap) # after \<and> ss_slow snap \<noteq> []
         \<and> outlier (obs k (before @ [(k, x, snap)])) x
         \<and> (\<forall>m d. is_median m (map s_value (ss_slow snap))
              \<and> is_median d (map (\<lambda>v. fabs (fsub F64 v m)) (map s_value (ss_slow snap))) \<longrightarrow>
              far_off x m (fmul F64 d (lit F64 (14826 / 10000)))
                (fdiv F64 (fabs (fsub F64 x m)) (fmul F64 d (lit F64 (14826 / 10000)))))"
  have "\<forall>s \<in> set (ss_slow snap). is_fin (s_value s)" "length before < 2 ^ 64 - 1" using assms h by simp_all
  with h show "\<exists>ev \<in> set (fired (detector_after (before @ [(k, x, snap)]))). series_of ev = k
            \<and> uint (latest_ts snap) < uint (se_bucket_start_ns ev) + 10000000000"
    by (intro outliers_reported [OF _ _ _ refl]) simp_all
qed

text \<open>Fifteen ticks at the value 10 and one at 1000, over a slow tail of 9, 10 and 11.\<close>

definition spike_item :: "rat \<Rightarrow> work_item" where
  "spike_item v = (key0, FFin v, \<lparr>ss_slow = map (\<lambda>u. \<lparr>s_ts_ns = 0, s_value = FFin u\<rparr>) [9, 10, 11],
     ss_fast = [\<lparr>s_ts_ns = 77, s_value = FFin v\<rparr>]\<rparr>)"

definition tick_at :: "rat \<Rightarrow> detect_wakeup" where
  "tick_at v = DetectTick (fast_ring_new\<lparr>fr_snapshot := \<lparr>fs_series = [key0 \<mapsto> snd (snd (spike_item v))],
     fs_published_at_ns = 0\<rparr>\<rparr>) [key0]"

definition spike_ticks :: "detect_wakeup list" where
  "spike_ticks = replicate 15 (tick_at 10) @ [tick_at 1000]"

lemma observed_tick: "observed (tick_at v # ws) = spike_item v # observed ws"
  by (simp add: tick_at_def spike_item_def gather_def for_each_series_def fast_ring_snapshot_def last_opt_def)

lemma observed_spike_ticks: "observed spike_ticks = replicate 15 (spike_item 10) @ [spike_item 1000]"
proof -
  have "observed (replicate n (tick_at v) @ ws) = replicate n (spike_item v) @ observed ws" for n v ws
    by (induction n) (simp_all add: observed_tick)
  then show ?thesis by (simp add: spike_ticks_def observed_tick)
qed

lemma spike_outlier: "outlier (replicate 15 (FFin 10) @ [FFin 1000]) (FFin 1000)"
  by code_simp

lemma spike_medians:
  "\<not> is_median (FFin 9) [FFin 9, FFin 10, FFin 11]" "\<not> is_median (FFin 11) [FFin 9, FFin 10, FFin 11]"
  "map (\<lambda>v. fabs (fsub F64 v (FFin 10))) [FFin 9, FFin 10, FFin 11] = [FFin 1, FZero False, FFin 1]"
  "\<not> is_median (FZero False) [FFin 1, FZero False, FFin 1]"
  by code_simp+

lemma spike_far_off:
  "far_off (FFin 1000) (FFin 10) (fmul F64 (FFin 1) (lit F64 (14826 / 10000)))
     (fdiv F64 (fabs (fsub F64 (FFin 1000) (FFin 10))) (fmul F64 (FFin 1) (lit F64 (14826 / 10000))))"
  unfolding far_off_def by code_simp

theorem spikes_justified_witness:
  "\<exists>ev \<in> set (fired (detector_run spike_ticks (detector_new broadcaster_new))). series_of ev = key0
     \<and> (\<exists>before it after. observed spike_ticks = before @ it # after \<and> reports before it ev)"
proof -
  let ?before = "replicate 15 (spike_item 10)" and ?vs = "[FFin 9, FFin 10, FFin 11]"
  obtain k x snap where it: "spike_item 1000 = (k, x, snap)" by (cases "spike_item 1000")
  then have i: "k = key0" "x = FFin 1000" "map s_value (ss_slow snap) = ?vs" "ss_slow snap \<noteq> []"
    by (auto simp: spike_item_def)
  have "obs key0 ?before = replicate 15 (FFin 10)" by (simp add: obs_def spike_item_def)
  then have o: "outlier (obs k (?before @ [(k, x, snap)])) x" using spike_outlier by (simp add: i)
  have far: "far_off x m (fmul F64 d (lit F64 (14826 / 10000)))
      (fdiv F64 (fabs (fsub F64 x m)) (fmul F64 d (lit F64 (14826 / 10000))))"
    if "is_median m ?vs" "is_median d (map (\<lambda>v. fabs (fsub F64 v m)) ?vs)" for m d
  proof -
    have m: "m = FFin 10" using that(1) spike_medians(1,2) unfolding is_median_def [of m] by auto
    then have "is_median d [FFin 1, FZero False, FFin 1]" using that(2) spike_medians(3) by simp
    then have "d = FFin 1" using spike_medians(4) unfolding is_median_def [of d] by auto
    then show ?thesis using spike_far_off m unfolding i(2) by simp
  qed
  have fin: "\<forall>it \<in> set (observed spike_ticks). \<forall>s \<in> set (ss_slow (snd (snd it))). is_fin (s_value s)"
    unfolding observed_spike_ticks by (auto simp: spike_item_def)
  have "length (observed spike_ticks) < 2 ^ 64" by (simp add: observed_spike_ticks)
  note t = spikes_justified [OF fin this]
  have ob: "observed spike_ticks = ?before @ (k, x, snap) # []" by (simp add: observed_spike_ticks it)
  have "\<exists>ev \<in> set (fired (detector_after (?before @ [(k, x, snap)]))). series_of ev = k"
    using t [THEN conjunct2, THEN conjunct1, rule_format, of ?before k x snap "[]"] ob o i(4) far [folded i(3)] by blast
  then show ?thesis using t ob i(1) unfolding detector_run_observed by (metis (no_types, lifting))
qed

section \<open>When no spike can fire\<close>

lemma fmul_fkey_zero:
  "fkey x = (0, 0) \<Longrightarrow> \<not> is_nan x \<Longrightarrow> is_fin c \<Longrightarrow> fle (fmul f x c) (FZero False)"
  by (cases x; cases c) (auto simp: fmul_def Let_def rnd_sign_def fle_def feq_def split: if_splits)

lemma mad_scale_fin: "is_fin (lit F64 (14826 / 10000))"
  by code_simp

lemma filter_sort_by_length: "length (filter P (sort_by c xs)) = length (filter P xs)"
  by (metis mset_filter mset_sort_by size_mset)

text \<open>A value shared by more than half of the slow tail is its median, with MAD zero.\<close>

lemma majority_mad:
  assumes "\<forall>v \<in> set vs. is_fin v" "length vs < 2 * length (filter (\<lambda>v. fkey v = k) vs)"
  shows "fkey (mad_of vs (upper_median vs)) = (0, 0) \<and> \<not> is_nan (mad_of vs (upper_median vs))"
proof -
  let ?m = "upper_median vs"
  let ?ds = "map (\<lambda>v. fabs (fsub F64 v ?m)) (sort_by fcmp vs)"
  have ne: "vs \<noteq> []" using assms(2) by auto
  have "\<forall>x \<in> set vs. \<not> is_nan x" using assms(1) is_fin_not_nan by blast
  then have m: "fkey ?m = k" using assms(2) by (rule upper_median_majority)
  have fm: "is_fin ?m" using assms(1) upper_median_in_set [OF ne] by blast
  have nan: "\<forall>d \<in> set ?ds. \<not> is_nan d" using assms(1) fm fsub_not_nan by auto
  have "length (filter (\<lambda>v. fkey v = k) us) \<le>
      length (filter (\<lambda>d. fkey d = (0, 0)) (map (\<lambda>v. fabs (fsub F64 v ?m)) us))"
    if "set us \<subseteq> set vs" for us
    using that assms(1) m fm by (induction us) (auto simp: fkey_eq_fin)
  from this [of "sort_by fcmp vs"] have "length ?ds < 2 * length (filter (\<lambda>d. fkey d = (0, 0)) ?ds)"
    using assms(2) by (simp add: filter_sort_by_length)
  with nan have "fkey (upper_median ?ds) = (0, 0)" by (rule upper_median_majority)
  moreover have "?ds \<noteq> []" using ne by (metis length_0_conv length_map length_sort_by)
  then have "\<not> is_nan (upper_median ?ds)" using nan upper_median_in_set by blast
  ultimately show ?thesis by (simp add: mad_of_def)
qed

text \<open>
  A steady baseline silences the robust pass: when more than half of the slow tail has
  the same value and no value in it is infinite or NaN, the median absolute deviation is
  zero, so an observation of the series fires no spike, however far its value is off.
\<close>

theorem steady_baseline_never_fires:
  assumes "\<forall>v \<in> set (map s_value (ss_slow snap)). is_fin v"
    and "length (ss_slow snap) < 2 * length (filter (\<lambda>s. fkey (s_value s) = c) (ss_slow snap))"
  shows "fired (process_item d (k, x, snap)) = fired d
    \<and> dt_rows (process_item d (k, x, snap)) = dt_rows d"
proof -
  let ?vs = "map s_value (ss_slow snap)"
  have "length ?vs < 2 * length (filter (\<lambda>v. fkey v = c) ?vs)"
    using assms(2) by (simp add: filter_map o_def)
  with assms(1) have mad: "fkey (mad_of ?vs (upper_median ?vs)) = (0, 0)"
      "\<not> is_nan (mad_of ?vs (upper_median ?vs))"
    by (rule majority_mad [THEN conjunct1], rule majority_mad [THEN conjunct2])
  have "ss_slow snap \<noteq> []" using assms(2) by auto
  then have "robust_score snap x = None"
    using fmul_fkey_zero [OF mad mad_scale_fin]
    by (simp add: robust_score_def median_and_mad_def Let_def)
  then have "fires d (k, x, snap) = None" by (simp add: fires_def Let_def)
  then show ?thesis by (simp del: process_item.simps)
qed

definition steady_snap :: SeriesSnapshot where
  "steady_snap = \<lparr>ss_slow = map (\<lambda>v. \<lparr>s_ts_ns = 0, s_value = v\<rparr>) [FFin 10, FFin 10, FFin 9999],
                  ss_fast = [\<lparr>s_ts_ns = 0, s_value = FFin 9999\<rparr>]\<rparr>"

theorem steady_baseline_never_fires_witness:
  "fired (process_item (detector_new broadcaster_new) (key0, FFin 9999, steady_snap)) = []"
  using steady_baseline_never_fires [of steady_snap "fkey (FFin 10)" "detector_new broadcaster_new" key0 "FFin 9999"]
  by (simp add: steady_snap_def fired_def detector_new_def broadcaster_new_def del: process_item.simps)

lemma nan_arith [simp]:
  "is_nan a \<Longrightarrow> fadd f a b = FNaN" "is_nan b \<Longrightarrow> fadd f a b = FNaN"
  "is_nan a \<Longrightarrow> fmul f a b = FNaN" "is_nan b \<Longrightarrow> fmul f a b = FNaN"
  "is_nan a \<Longrightarrow> fdiv f a b = FNaN" "is_nan a \<Longrightarrow> fsqrt f a = FNaN" "is_nan a \<Longrightarrow> fneg a = FNaN"
  by (cases a; cases b; simp add: fmul_def fdiv_def Let_def)+

lemma fsub_nan [simp]: "is_nan a \<or> is_nan b \<Longrightarrow> fsub f a b = FNaN"
  by (auto simp: fsub_def)

lemma rne_nonneg: "0 \<le> r \<Longrightarrow> 0 \<le> rne r"
  by (simp add: rne_def Let_def)

lemma rnd_nonneg: "0 \<le> r \<Longrightarrow> \<not> sign_neg (rnd f r)"
proof -
  assume r: "0 \<le> r"
  then have "0 \<le> rne (\<bar>r\<bar> / p2 q)" for q by (intro rne_nonneg) simp
  then have "0 \<le> rat_of_int (rne (\<bar>r\<bar> / p2 q)) * p2 q" for q by simp
  with r show ?thesis by (simp add: rnd_def Let_def not_less)
qed

lemma welford_nonfinite: "\<not> is_fin x \<Longrightarrow> is_nan (wf_m2 (welford_update w x))"
proof -
  assume x: "\<not> is_fin x"
  show ?thesis
  proof (cases "is_nan (fsub F64 x (wf_mean w))")
    case True
    then show ?thesis by (simp add: welford_update_def Let_def)
  next
    case False
    let ?q = "fdiv F64 (fsub F64 x (wf_mean w)) (of_int_fp F64 (uint (wf_n w + 1)))"
    obtain s where s: "x = FInf s" using x False by (cases x) auto
    have d: "fsub F64 x (wf_mean w) = FInf s"
      using False s by (cases "wf_mean w") (auto simp: fsub_def split: if_splits)
    have "is_nan (fsub F64 x (fadd F64 (wf_mean w) q))" if "q \<in> {FInf s, FNaN}" for q
      using that s False by (cases "wf_mean w") (auto simp: fsub_def split: if_splits)
    moreover have "\<not> sign_neg (of_int_fp F64 (uint (wf_n w + 1)))"
      unfolding of_int_fp_def by (rule rnd_nonneg) (simp only: of_int_0_le_iff uint_ge_0)
    then have "?q \<in> {FInf s, FNaN}"
      by (cases "of_int_fp F64 (uint (wf_n w + 1))") (simp_all add: d fdiv_def Let_def)
    ultimately show ?thesis by (simp add: welford_update_def Let_def)
  qed
qed

lemma welford_nan_stays: "is_nan (wf_m2 w) \<Longrightarrow> is_nan (wf_m2 (welford_update w x))"
  by (simp add: welford_update_def Let_def)

lemma nan_not_escalates: "is_nan (wf_m2 w) \<Longrightarrow> \<not> escalates w x"
proof -
  assume "is_nan (wf_m2 w)"
  then have "\<not> flt (FZero False) (sigma w)" by (simp add: sigma_def)
  moreover have "fle (FZero False) WELFORD_Z_THRESHOLD" by code_simp
  ultimately show ?thesis by (simp add: escalates_def)
qed

lemma nan_silences:
  assumes "dt_welford d k = Some w" "is_nan (wf_m2 w)"
  shows "filter (\<lambda>ev. series_of ev = k) (fired (foldl process_item d its)) =
    filter (\<lambda>ev. series_of ev = k) (fired d)"
  using assms
proof (induction its arbitrary: d w)
  case (Cons it its)
  obtain k' x snap where it: "it = (k', x, snap)" by (cases it)
  have "series_of ev \<noteq> k" if "fires d it = Some ev" for ev
    using that Cons.prems nan_not_escalates [OF welford_nan_stays] unfolding it
    by (auto elim!: fires_Some)
  then have "filter (\<lambda>ev. series_of ev = k) (fired (process_item d it)) =
      filter (\<lambda>ev. series_of ev = k) (fired d)"
    by (auto simp del: process_item.simps split: option.split)
  moreover obtain w' where "dt_welford (process_item d it) k = Some w'" "is_nan (wf_m2 w')"
    using Cons.prems welford_nan_stays by (cases "k' = k") (auto simp: it observe_def simp del: process_item.simps)
  ultimately show ?case using Cons.IH by simp
qed simp

text \<open>
  C39: One infinite or NaN value silences a series for good: after such an observation,
  whatever follows, no further spike of that series fires, because the running variance
  stays NaN and the first pass never escalates again.
\<close>

theorem nonfinite_sample_silences_series:
  assumes "\<not> is_fin x"
  shows "filter (\<lambda>ev. series_of ev = k) (fired (foldl process_item d ((k, x, snap) # its))) =
    filter (\<lambda>ev. series_of ev = k) (fired d)"
proof -
  let ?w = "welford_update (case dt_welford d k of Some w \<Rightarrow> w | None \<Rightarrow> welford_default) x"
  have nan: "is_nan (wf_m2 ?w)" using assms by (rule welford_nonfinite)
  then have "fires d (k, x, snap) = None" by (simp add: fires_def nan_not_escalates)
  moreover have "dt_welford (process_item d (k, x, snap)) k = Some ?w"
    by (simp add: observe_def del: process_item.simps)
  ultimately show ?thesis using nan_silences [OF _ nan] by (simp del: process_item.simps)
qed

theorem nonfinite_sample_silences_series_witness:
  "filter (\<lambda>ev. series_of ev = key0) (fired (foldl process_item (detector_new broadcaster_new)
     ((key0, FNaN, steady_snap) # [(key0, FFin 5, steady_snap)]))) = []"
  using nonfinite_sample_silences_series [of FNaN key0 "detector_new broadcaster_new" steady_snap
      "[(key0, FFin 5, steady_snap)]"]
  by (simp add: fired_def detector_new_def broadcaster_new_def del: process_item.simps)

end
