(* ===== verification/Skew.thy ===== *)
theory Skew
  imports Clock Proto
begin

text \<open>
  The collector's clock-skew table, \<^verbatim>\<open>crates/perfweave-server/src/ingest/skew.rs\<close>: the
  latest offset of every (node, GPU) pair and the map it induces on time stamps. The clock
  reading that dates an entry is an argument. The lemmas show that the map is total and
  which value it has, entry present or not.
\<close>

section \<open>Model\<close>

record Entry =
  en_offset_ns :: i128
  en_slope_num :: i128
  en_slope_den :: i128
  en_residual_max_ns :: u64
  en_updated_at_host_ns :: u64

type_synonym SkewTable = "u32 \<times> u32 \<rightharpoonup> Entry"

definition skew_new :: SkewTable where
  "skew_new = Map.empty"

text \<open>The unsigned wire fields are zero-extended; the denominator is at least one.\<close>

definition skew_entry :: "u64 \<Rightarrow> ClockOffsetMsg \<Rightarrow> Entry" where
  "skew_entry now c =
     \<lparr>en_offset_ns = uint (co_offset_ns c), en_slope_num = uint (co_slope_num c),
      en_slope_den = max (uint (co_slope_den c)) 1,
      en_residual_max_ns = co_residual_max_ns c, en_updated_at_host_ns = now\<rparr>"

definition skew_upsert :: "u64 \<Rightarrow> SkewTable \<Rightarrow> ClockOffsetMsg \<Rightarrow> SkewTable" where
  "skew_upsert now t c = t((co_node_id c, co_gpu_id c) \<mapsto> skew_entry now c)"

definition skew_map :: "SkewTable \<Rightarrow> u32 \<Rightarrow> u32 \<Rightarrow> u64 \<Rightarrow> u64" where
  "skew_map t node_id gpu_id src_ns =
     (case t (node_id, gpu_id) of
        Some e \<Rightarrow>
          let src = uint src_ns;
              host = wrap_i128 (en_offset_ns e +
                       trunc_div (sat_i128 (en_slope_num e * src)) (en_slope_den e))
          in as_u64 (max host 0)
      | None \<Rightarrow> src_ns)"

text \<open>\<^verbatim>\<open>Iterator::max\<close> over the values, visited in the order \<open>ks\<close> of the hash map's keys.\<close>

fun max_opt :: "'a::linorder list \<Rightarrow> 'a option" where
  "max_opt [] = None"
| "max_opt (x # xs) = (case max_opt xs of None \<Rightarrow> Some x | Some m \<Rightarrow> Some (max x m))"

definition table_values :: "('k \<rightharpoonup> 'v) \<Rightarrow> 'k list \<Rightarrow> 'v list" where
  "table_values t ks = List.map_filter t ks"

definition latest_residual_ns :: "(u32 \<times> u32) list \<Rightarrow> SkewTable \<Rightarrow> u64 option" where
  "latest_residual_ns ks t = max_opt (map en_residual_max_ns (table_values t ks))"

definition newest_update_host_ns :: "(u32 \<times> u32) list \<Rightarrow> SkewTable \<Rightarrow> u64 option" where
  "newest_update_host_ns ks t = max_opt (map en_updated_at_host_ns (table_values t ks))"

section \<open>Properties\<close>

lemma max_opt_Max: "max_opt xs = (if xs = [] then None else Some (Max (set xs)))"
  by (induction xs) (auto split: option.splits)

lemma set_table_values: "set (table_values t ks) = {v. \<exists>k \<in> set ks. t k = Some v}"
  by (induction ks) (auto simp: table_values_def List.map_filter_def)

text \<open>The two summaries do not depend on the order in which the hash map is visited.\<close>

lemma summaries_order_free:
  assumes "set ks = dom t" "set ks' = dom t"
  shows "latest_residual_ns ks t = latest_residual_ns ks' t
    \<and> newest_update_host_ns ks t = newest_update_host_ns ks' t"
proof -
  have eq: "set (table_values t ks) = set (table_values t ks')"
    using assms by (simp add: set_table_values)
  then have "table_values t ks = [] \<longleftrightarrow> table_values t ks' = []" by (metis set_empty)
  with eq show ?thesis by (simp add: latest_residual_ns_def newest_update_host_ns_def max_opt_Max)
qed

text \<open>Every entry that an upsert writes has unsigned 64-bit fields and a usable denominator.\<close>

definition entry_ok :: "Entry \<Rightarrow> bool" where
  "entry_ok e \<longleftrightarrow> 0 \<le> en_offset_ns e \<and> en_offset_ns e < 2 ^ 64 \<and> 0 \<le> en_slope_num e
     \<and> en_slope_num e < 2 ^ 64 \<and> 1 \<le> en_slope_den e"

definition skew_ok :: "SkewTable \<Rightarrow> bool" where
  "skew_ok t \<longleftrightarrow> (\<forall>k e. t k = Some e \<longrightarrow> entry_ok e)"

lemma skew_ok_new: "skew_ok skew_new"
  by (simp add: skew_ok_def skew_new_def)

lemma entry_ok_entry: "entry_ok (skew_entry now c)"
  using uint_u64_less by (auto simp: entry_ok_def skew_entry_def)

lemma skew_ok_upsert: "skew_ok t \<Longrightarrow> skew_ok (skew_upsert now t c)"
  using entry_ok_entry by (auto simp: skew_ok_def skew_upsert_def)

lemma skew_ok_upserts: "skew_ok t \<Longrightarrow> skew_ok (foldl (skew_upsert now) t cs)"
  by (induction cs arbitrary: t) (auto simp: skew_ok_upsert)

text \<open>A node and GPU without an entry is left alone; another pair's offset does not matter.\<close>

lemma skew_map_no_entry: "t (n, g) = None \<Longrightarrow> skew_map t n g src = src"
  by (simp add: skew_map_def)

lemma skew_map_frame:
  "(co_node_id c, co_gpu_id c) \<noteq> (n, g) \<Longrightarrow> skew_map (skew_upsert now t c) n g src = skew_map t n g src"
  by (auto simp: skew_map_def skew_upsert_def)

lemma skew_map_entry:
  assumes "t (n, g) = Some e" "entry_ok e" "en_slope_num e * uint src < 2 ^ 126"
  shows "skew_map t n g src =
    as_u64 (en_offset_ns e + (en_slope_num e * uint src) div en_slope_den e)"
proof -
  let ?p = "en_slope_num e * uint src"
  have e: "0 \<le> en_offset_ns e" "en_offset_ns e < 2 ^ 64" "0 \<le> en_slope_num e" "1 \<le> en_slope_den e"
    using assms(2) by (simp_all add: entry_ok_def)
  have p: "0 \<le> ?p" using e(3) by simp
  then have sat: "sat_i128 ?p = ?p"
    using assms(3) by (intro sat_i128_id) (auto simp: i128_min_def i128_max_def)
  have q: "0 \<le> ?p div en_slope_den e" "?p div en_slope_den e \<le> ?p"
    using p e(4) zdiv_mono2 [of ?p 1 "en_slope_den e"] by (simp_all add: pos_imp_zdiv_nonneg_iff)
  have "wrap_i128 (en_offset_ns e + ?p div en_slope_den e) = en_offset_ns e + ?p div en_slope_den e"
    using e(1,2) q assms(3) by (intro wrap_i128_id) (auto simp: i128_min_def i128_max_def)
  then show ?thesis
    using assms(1) sat p q(1) e(1,4) by (simp add: skew_map_def Let_def trunc_div_nonneg)
qed

text \<open>
  The table holds only usable entries: after any offsets have been absorbed, even ones
  with denominator zero, every entry has a denominator of at least one, so no time stamp
  makes the map divide by zero.
\<close>

theorem skew_table_usable: "skew_ok (foldl (skew_upsert now) skew_new cs)"
  using skew_ok_new by (rule skew_ok_upserts)

text \<open>
  Applying the table's map again to a time stamp it has already corrected corrects it
  a second time: with an offset of 1000 ns a source time of 5 becomes 1005, and 2005 when
  the map is re-applied.
\<close>

theorem skew_map_not_idempotent:
  "let t = skew_upsert 0 skew_new \<lparr>co_node_id = 1, co_gpu_id = 0, co_offset_ns = 1000,
             co_slope_num = 1, co_slope_den = 1, co_residual_max_ns = 0\<rparr>
   in skew_map t 1 0 5 = 1005 \<and> skew_map t 1 0 (skew_map t 1 0 5) = 2005"
  by code_simp

end
