(* ===== verification/Sink.thy ===== *)
theory Sink
  imports Store_Rows
begin

text \<open>
  The batched writer into the database, \<^verbatim>\<open>crates/perfweave-server/src/store/sink.rs\<close>:
  absorbing messages into the pending buffers, and the task that flushes them. The database
  client is a parameter, a record of its three operations on an abstract world; the model
  keeps the log of the insert calls and their outcomes. The lemmas show that no row is
  lost, whatever the client does, and that rows arrive exactly once and in order as long as
  no insert fails.
\<close>

section \<open>The sink task\<close>

datatype SinkMsg = Msg_Batch Batch | Msg_KernelSol u32 KernelSol | Msg_Spike SpikeRow

record Pending =
  pd_events :: "EventRow list"
  pd_strings :: "StringRow list"
  pd_offsets :: "OffsetRow list"
  pd_sol :: "KernelSolRow list"
  pd_spikes :: "SpikeRow list"

definition pending_new :: Pending where
  "pending_new = \<lparr>pd_events = [], pd_strings = [], pd_offsets = [], pd_sol = [], pd_spikes = []\<rparr>"

definition event_rows :: "Event list \<Rightarrow> EventRow list" where
  "event_rows es = map event_row (filter (\<lambda>e. e_category e \<noteq> category_i32 Cat_Metric) es)"

definition string_row :: "StringIntern \<Rightarrow> StringRow" where
  "string_row s = \<lparr>sr_id = si_id s, sr_text = si_text s\<rparr>"

definition offset_row :: "u64 \<Rightarrow> ClockOffsetMsg \<Rightarrow> OffsetRow" where
  "offset_row now c =
     \<lparr>or_fitted_at_ns = now, or_node_id = co_node_id c, or_gpu_id = ucast (co_gpu_id c),
      or_offset_ns = co_offset_ns c, or_slope_num = co_slope_num c, or_slope_den = co_slope_den c,
      or_residual_max_ns = co_residual_max_ns c\<rparr>"

text \<open>\<open>clk i\<close> is the clock reading for the \<open>i\<close>-th offset of the batch.\<close>

definition offset_rows :: "(nat \<Rightarrow> u64) \<Rightarrow> ClockOffsetMsg list \<Rightarrow> OffsetRow list" where
  "offset_rows clk os = map (\<lambda>(i, c). offset_row (clk i) c) (List.enumerate 0 os)"

definition absorb :: "(nat \<Rightarrow> u64) \<Rightarrow> Batch \<Rightarrow> Pending \<Rightarrow> Pending" where
  "absorb clk b p =
     p\<lparr>pd_events := pd_events p @ event_rows (b_events b),
       pd_strings := pd_strings p @ map string_row (b_strings b),
       pd_offsets := pd_offsets p @ offset_rows clk (b_offsets b)\<rparr>"

definition absorb_msg :: "(nat \<Rightarrow> u64) \<Rightarrow> SinkMsg \<Rightarrow> Pending \<Rightarrow> Pending" where
  "absorb_msg clk m p =
     (case m of
        Msg_Batch b \<Rightarrow> absorb clk b p
      | Msg_KernelSol node_id sol \<Rightarrow> p\<lparr>pd_sol := pd_sol p @ [kernel_sol_row (clk 0) node_id sol]\<rparr>
      | Msg_Spike row \<Rightarrow> p\<lparr>pd_spikes := pd_spikes p @ [row]\<rparr>)"

text \<open>
  The operations of the database client that \<^verbatim>\<open>insert\<close> calls, on an abstract world;
  the boolean says whether the call returned \<^verbatim>\<open>Ok\<close>.
\<close>

record 'w Client =
  cl_insert :: "string \<Rightarrow> 'w \<Rightarrow> 'w \<times> bool"
  cl_write :: "Row \<Rightarrow> 'w \<Rightarrow> 'w \<times> bool"
  cl_end :: "'w \<Rightarrow> 'w \<times> bool"

fun write_rows :: "'w Client \<Rightarrow> Row list \<Rightarrow> 'w \<Rightarrow> 'w \<times> bool" where
  "write_rows c [] w = (w, True)"
| "write_rows c (r # rs) w =
     (let (w', ok) = cl_write c r w in if ok then write_rows c rs w' else (w', False))"

definition sink_insert :: "'w Client \<Rightarrow> string \<Rightarrow> Row list \<Rightarrow> 'w \<Rightarrow> 'w \<times> bool" where
  "sink_insert c table rows w =
     (let (w1, ok1) = cl_insert c table w in
      if \<not> ok1 then (w1, False)
      else let (w2, ok2) = write_rows c rows w1 in
        if \<not> ok2 then (w2, False) else cl_end c w2)"

record 'w SinkState =
  sk_pending :: Pending
  sk_world :: 'w
  sk_log :: "(string \<times> Row list \<times> bool) list"

definition sink_tables :: "string list" where
  "sink_tables = [''strings'', ''events'', ''clock_offsets'', ''kernel_sol'', ''spikes'']"

definition rows_for :: "string \<Rightarrow> Pending \<Rightarrow> Row list" where
  "rows_for t p =
     (if t = ''strings'' then map Row_String (pd_strings p)
      else if t = ''events'' then map Row_Event (pd_events p)
      else if t = ''clock_offsets'' then map Row_Offset (pd_offsets p)
      else if t = ''kernel_sol'' then map Row_Sol (pd_sol p)
      else if t = ''spikes'' then map Row_Spike (pd_spikes p) else [])"

text \<open>The five blocks of \<^verbatim>\<open>flush\<close> in their order; the first failure returns.\<close>

fun insert_tables :: "'w Client \<Rightarrow> string list \<Rightarrow> 'w SinkState \<Rightarrow> 'w SinkState \<times> bool" where
  "insert_tables c [] st = (st, True)"
| "insert_tables c (t # ts) st =
     (let rows = rows_for t (sk_pending st) in
      if rows = [] then insert_tables c ts st
      else let (w, ok) = sink_insert c t rows (sk_world st);
               st' = st\<lparr>sk_world := w, sk_log := sk_log st @ [(t, rows, ok)]\<rparr>
        in if ok then insert_tables c ts st' else (st', False))"

definition sink_flush :: "'w Client \<Rightarrow> 'w SinkState \<Rightarrow> 'w SinkState" where
  "sink_flush c st =
     (let (st', ok) = insert_tables c sink_tables st
      in if ok then st'\<lparr>sk_pending := pending_new\<rparr> else st')"

text \<open>
  One turn of the task's loop: a message received together with the clock readings made
  while it is absorbed, or a tick. The channel is closed at the end of the list, and the
  task then flushes once more.
\<close>

datatype sink_event = Recv SinkMsg "nat \<Rightarrow> u64" | Tick

fun sink_step :: "'w Client \<Rightarrow> SinkConfig \<Rightarrow> 'w SinkState \<Rightarrow> sink_event \<Rightarrow> 'w SinkState" where
  "sink_step c cfg st (Recv m clk) =
     (let st' = st\<lparr>sk_pending := absorb_msg clk m (sk_pending st)\<rparr>
      in if cfg_max_batch_rows cfg \<le> length (pd_events (sk_pending st'))
         then sink_flush c st' else st')"
| "sink_step c cfg st Tick =
     (let p = sk_pending st in
      if pd_events p \<noteq> [] \<or> pd_strings p \<noteq> [] \<or> pd_offsets p \<noteq> [] \<or> pd_sol p \<noteq> [] \<or> pd_spikes p \<noteq> []
      then sink_flush c st else st)"

definition sink_init :: "'w \<Rightarrow> 'w SinkState" where
  "sink_init w = \<lparr>sk_pending = pending_new, sk_world = w, sk_log = []\<rparr>"

definition sink_run :: "'w Client \<Rightarrow> SinkConfig \<Rightarrow> 'w \<Rightarrow> sink_event list \<Rightarrow> 'w SinkState" where
  "sink_run c cfg w evs = sink_flush c (foldl (sink_step c cfg) (sink_init w) evs)"

text \<open>
  The handle's side. The channel belongs to a library: \<open>try_send\<close> is a parameter, and
  \<^verbatim>\<open>try_push\<close> unwraps the message that it hands back. \<open>None\<close> is the branch marked
  \<^verbatim>\<open>unreachable!\<close>.
\<close>

datatype 'm try_send_error = Full 'm | Closed 'm

definition try_push ::
  "(SinkMsg \<Rightarrow> 'ch \<Rightarrow> 'ch \<times> (SinkMsg try_send_error + unit)) \<Rightarrow> Batch \<Rightarrow> 'ch
     \<Rightarrow> ('ch \<times> (Batch try_send_error + unit)) option" where
  "try_push try_send b ch =
     (let (ch', r) = try_send (Msg_Batch b) ch in
      case r of
        Inr u \<Rightarrow> Some (ch', Inr ())
      | Inl (Full (Msg_Batch b')) \<Rightarrow> Some (ch', Inl (Full b'))
      | Inl (Closed (Msg_Batch b')) \<Rightarrow> Some (ch', Inl (Closed b'))
      | Inl _ \<Rightarrow> None)"

text \<open>
  The waiting variants: \<open>send\<close> waits until there is room and reports \<open>False\<close> when the
  channel is closed.
\<close>

definition sink_push :: "(SinkMsg \<Rightarrow> 'ch \<Rightarrow> 'ch \<times> bool) \<Rightarrow> Batch \<Rightarrow> 'ch \<Rightarrow> 'ch \<times> bool" where
  "sink_push send b ch = send (Msg_Batch b) ch"

definition push_kernel_sol :: "(SinkMsg \<Rightarrow> 'ch \<Rightarrow> 'ch \<times> bool) \<Rightarrow> u32 \<Rightarrow> KernelSol \<Rightarrow> 'ch \<Rightarrow> 'ch \<times> bool" where
  "push_kernel_sol send node_id sol ch = send (Msg_KernelSol node_id sol) ch"

definition push_spike :: "(SinkMsg \<Rightarrow> 'ch \<Rightarrow> 'ch \<times> bool) \<Rightarrow> SpikeRow \<Rightarrow> 'ch \<Rightarrow> 'ch \<times> bool" where
  "push_spike send row ch = send (Msg_Spike row) ch"

text \<open>A channel that cannot take a message hands back that message.\<close>

definition hands_back :: "('m \<Rightarrow> 'ch \<Rightarrow> 'ch \<times> ('m try_send_error + unit)) \<Rightarrow> bool" where
  "hands_back try_send \<longleftrightarrow>
     (\<forall>m ch. snd (try_send m ch) \<in> {Inr (), Inl (Full m), Inl (Closed m)})"

lemma try_push_result:
  "hands_back try_send \<Longrightarrow>
     try_push try_send b ch = Some (fst (try_send (Msg_Batch b) ch),
       (case snd (try_send (Msg_Batch b) ch) of
          Inr u \<Rightarrow> Inr () | Inl (Full _) \<Rightarrow> Inl (Full b) | Inl (Closed _) \<Rightarrow> Inl (Closed b)))"
  unfolding hands_back_def try_push_def
  by (drule spec [of _ "Msg_Batch b"], drule spec [of _ ch])
    (auto simp: Let_def split: prod.splits)

section \<open>What the task must deliver\<close>

text \<open>The rows that the messages of a run bring to a table.\<close>

fun msg_rows :: "string \<Rightarrow> sink_event \<Rightarrow> Row list" where
  "msg_rows t (Recv m clk) = rows_for t (absorb_msg clk m pending_new)"
| "msg_rows t Tick = []"

definition absorbed :: "string \<Rightarrow> sink_event list \<Rightarrow> Row list" where
  "absorbed t evs = concat (map (msg_rows t) evs)"

text \<open>The rows of the inserts into a table that the client acknowledged.\<close>

definition acked :: "string \<Rightarrow> (string \<times> Row list \<times> bool) list \<Rightarrow> Row list" where
  "acked t calls = concat (map (\<lambda>(t', rows, ok). if t' = t \<and> ok then rows else []) calls)"

definition no_failure :: "(string \<times> Row list \<times> bool) list \<Rightarrow> bool" where
  "no_failure calls \<longleftrightarrow> list_all (\<lambda>(t, rows, ok). ok) calls"

lemma acked_simps [simp]:
  "acked t [] = []" "acked t (l @ l') = acked t l @ acked t l'"
  "acked t [(t', rows, ok)] = (if t' = t \<and> ok then rows else [])"
  by (simp_all add: acked_def)

lemma rows_for_new [simp]: "rows_for t pending_new = []"
  by (simp add: rows_for_def pending_new_def)

lemma rows_for_absorb: "rows_for t (absorb_msg clk m p) = rows_for t p @ rows_for t (absorb_msg clk m pending_new)"
  by (cases m) (simp_all add: absorb_msg_def absorb_def rows_for_def pending_new_def)

lemma insert_tables_grows:
  "insert_tables c ts st = (st', ok) \<Longrightarrow>
     sk_pending st' = sk_pending st \<and> (\<exists>l. sk_log st' = sk_log st @ l \<and> (no_failure l \<longleftrightarrow> ok))"
proof (induction ts arbitrary: st)
  case Nil
  then show ?case by (simp add: no_failure_def)
next
  case (Cons t ts)
  let ?rows = "rows_for t (sk_pending st)"
  obtain w k where i: "sink_insert c t ?rows (sk_world st) = (w, k)" by fastforce
  let ?st = "st\<lparr>sk_world := w, sk_log := sk_log st @ [(t, ?rows, k)]\<rparr>"
  consider "?rows = []" | "?rows \<noteq> []" "k" | "?rows \<noteq> []" "\<not> k" by blast
  then show ?case
  proof cases
    case 1
    then show ?thesis using Cons by simp
  next
    case 2
    then have "insert_tables c ts ?st = (st', ok)" using Cons.prems i by simp
    from Cons.IH [OF this] obtain l where l: "sk_pending st' = sk_pending st"
        "sk_log st' = sk_log st @ (t, ?rows, k) # l" "no_failure l \<longleftrightarrow> ok"
      by auto
    then show ?thesis using 2 by (intro conjI exI [of _ "(t, ?rows, k) # l"]) (simp_all add: no_failure_def)
  next
    case 3
    then show ?thesis using Cons.prems i by (auto simp: no_failure_def)
  qed
qed

lemma insert_tables_acks:
  "insert_tables c ts st = (st', True) \<Longrightarrow> distinct ts \<Longrightarrow>
     acked t (sk_log st') = acked t (sk_log st) @ (if t \<in> set ts then rows_for t (sk_pending st) else [])"
proof (induction ts arbitrary: st)
  case (Cons t' ts)
  then show ?case by (auto simp: Let_def split: if_splits prod.splits)
qed simp

lemma rows_for_tables: "t \<notin> set sink_tables \<Longrightarrow> rows_for t p = []"
  by (simp add: sink_tables_def rows_for_def)

text \<open>A flush delivers everything that is pending or keeps all of it for the next one.\<close>

lemma sink_flush_cases:
  obtains (delivered) "sk_pending (sink_flush c st) = pending_new"
      "\<And>t. acked t (sk_log (sink_flush c st)) = acked t (sk_log st) @ rows_for t (sk_pending st)"
      "no_failure (sk_log (sink_flush c st)) \<longleftrightarrow> no_failure (sk_log st)"
    | (kept) l where "sk_pending (sink_flush c st) = sk_pending st"
      "sk_log (sink_flush c st) = sk_log st @ l" "\<not> no_failure l"
proof -
  obtain st' ok where i: "insert_tables c sink_tables st = (st', ok)" by fastforce
  note g = insert_tables_grows [OF i]
  show thesis
  proof (cases ok)
    case True
    have "acked t (sk_log st') = acked t (sk_log st) @ rows_for t (sk_pending st)" for t
      using insert_tables_acks [of c sink_tables st st' t] True i rows_for_tables [of t]
      by (cases "t \<in> set sink_tables") (simp_all add: sink_tables_def)
    with True i g show thesis
      by (intro delivered) (auto simp: sink_flush_def no_failure_def)
  next
    case False
    with g obtain l where "sk_log st' = sk_log st @ l" "\<not> no_failure l" by blast
    with False i g show thesis by (intro kept [of l]) (simp_all add: sink_flush_def)
  qed
qed

lemma foldl_append_step: "foldl f a (xs @ [x]) = f (foldl f a xs) x"
  by simp

definition sink_loop :: "'w Client \<Rightarrow> SinkConfig \<Rightarrow> 'w \<Rightarrow> sink_event list \<Rightarrow> 'w SinkState" where
  "sink_loop c cfg w evs = foldl (sink_step c cfg) (sink_init w) evs"

lemma sink_loop_snoc: "sink_loop c cfg w (evs @ [ev]) = sink_step c cfg (sink_loop c cfg w evs) ev"
  by (simp add: sink_loop_def)

lemma absorbed_simps [simp]:
  "absorbed t [] = []" "absorbed t (evs @ [ev]) = absorbed t evs @ msg_rows t ev"
  by (simp_all add: absorbed_def)

text \<open>Three invariants of the loop, each kept by a flush and by absorbing a message.\<close>

definition all_held :: "(string \<Rightarrow> Row list) \<Rightarrow> 'w SinkState \<Rightarrow> bool" where
  "all_held due st \<longleftrightarrow>
     (\<forall>t. set (due t) \<subseteq> set (acked t (sk_log st)) \<union> set (rows_for t (sk_pending st)))"

definition in_order :: "(string \<Rightarrow> Row list) \<Rightarrow> 'w SinkState \<Rightarrow> bool" where
  "in_order due st \<longleftrightarrow>
     (no_failure (sk_log st) \<longrightarrow> (\<forall>t. acked t (sk_log st) @ rows_for t (sk_pending st) = due t))"

definition none_invented :: "(string \<Rightarrow> Row list) \<Rightarrow> 'w SinkState \<Rightarrow> bool" where
  "none_invented due st \<longleftrightarrow>
     (\<forall>t. set (rows_for t (sk_pending st)) \<subseteq> set (due t)) \<and>
     (\<forall>t rows ok. (t, rows, ok) \<in> set (sk_log st) \<longrightarrow> set rows \<subseteq> set (due t))"

lemma none_inventedD:
  "none_invented due st \<Longrightarrow> r \<in> set (rows_for t (sk_pending st)) \<Longrightarrow> r \<in> set (due t)"
  "none_invented due st \<Longrightarrow> (t, rows, ok) \<in> set (sk_log st) \<Longrightarrow> r \<in> set rows \<Longrightarrow> r \<in> set (due t)"
  unfolding none_invented_def by blast+

lemma none_invented_call:
  "none_invented due st \<Longrightarrow>
     none_invented due (st\<lparr>sk_world := w, sk_log := sk_log st @ [(t, rows_for t (sk_pending st), ok)]\<rparr>)"
  by (auto simp: none_invented_def)

lemma none_invented_tables:
  "none_invented due st \<Longrightarrow> none_invented due (fst (insert_tables c ts st))"
proof (induction ts arbitrary: st)
  case (Cons t ts)
  then show ?case
    using none_invented_call [OF Cons.prems]
    by (simp add: Let_def split: prod.split)
qed simp

lemma none_invented_flush: "none_invented due st \<Longrightarrow> none_invented due (sink_flush c st)"
proof -
  assume "none_invented due st"
  then have "none_invented due (fst (insert_tables c sink_tables st))" by (rule none_invented_tables)
  then show ?thesis
    by (cases "insert_tables c sink_tables st") (auto simp: sink_flush_def none_invented_def)
qed

lemma all_held_flush: "all_held due st \<Longrightarrow> all_held due (sink_flush c st)"
  by (rule sink_flush_cases [of c st]) (auto simp: all_held_def)

lemma in_order_flush: "in_order due st \<Longrightarrow> in_order due (sink_flush c st)"
  by (rule sink_flush_cases [of c st]) (auto simp: in_order_def no_failure_def)

lemma invariants_absorb:
  assumes "all_held due st" "in_order due st" "none_invented due st"
  shows "all_held (\<lambda>t. due t @ msg_rows t (Recv m clk)) (st\<lparr>sk_pending := absorb_msg clk m (sk_pending st)\<rparr>)"
    "in_order (\<lambda>t. due t @ msg_rows t (Recv m clk)) (st\<lparr>sk_pending := absorb_msg clk m (sk_pending st)\<rparr>)"
    "none_invented (\<lambda>t. due t @ msg_rows t (Recv m clk)) (st\<lparr>sk_pending := absorb_msg clk m (sk_pending st)\<rparr>)"
proof -
  have r: "rows_for t (absorb_msg clk m (sk_pending st)) = rows_for t (sk_pending st) @ msg_rows t (Recv m clk)" for t
    using rows_for_absorb [of t clk m "sk_pending st"] by simp
  show "all_held (\<lambda>t. due t @ msg_rows t (Recv m clk)) (st\<lparr>sk_pending := absorb_msg clk m (sk_pending st)\<rparr>)"
    using assms(1) by (auto simp: all_held_def r simp del: msg_rows.simps)
  show "in_order (\<lambda>t. due t @ msg_rows t (Recv m clk)) (st\<lparr>sk_pending := absorb_msg clk m (sk_pending st)\<rparr>)"
    using assms(2) by (simp add: in_order_def r flip: append_assoc del: msg_rows.simps)
  show "none_invented (\<lambda>t. due t @ msg_rows t (Recv m clk)) (st\<lparr>sk_pending := absorb_msg clk m (sk_pending st)\<rparr>)"
    using assms(3) by (auto simp: none_invented_def r simp del: msg_rows.simps) blast+
qed

lemma sink_loop_invariants:
  "all_held (\<lambda>t. absorbed t evs) (sink_loop c cfg w evs)
   \<and> in_order (\<lambda>t. absorbed t evs) (sink_loop c cfg w evs)
   \<and> none_invented (\<lambda>t. absorbed t evs) (sink_loop c cfg w evs)"
proof (induction evs rule: rev_induct)
  case Nil
  show ?case by (simp add: sink_loop_def sink_init_def all_held_def in_order_def none_invented_def)
next
  case (snoc ev evs)
  note keep = all_held_flush in_order_flush none_invented_flush
  show ?case
  proof (cases ev)
    case (Recv m clk)
    then show ?thesis
      using snoc invariants_absorb [of "\<lambda>t. absorbed t evs" "sink_loop c cfg w evs" m clk]
      by (simp add: sink_loop_snoc Let_def keep del: msg_rows.simps)
  next
    case Tick
    then show ?thesis using snoc by (simp add: sink_loop_snoc Let_def keep)
  qed
qed

lemma sink_run_invariants:
  "all_held (\<lambda>t. absorbed t evs) (sink_run c cfg w evs)"
  "in_order (\<lambda>t. absorbed t evs) (sink_run c cfg w evs)"
  "none_invented (\<lambda>t. absorbed t evs) (sink_run c cfg w evs)"
proof -
  have run: "sink_run c cfg w evs = sink_flush c (sink_loop c cfg w evs)"
    by (simp add: sink_run_def sink_loop_def)
  show "all_held (\<lambda>t. absorbed t evs) (sink_run c cfg w evs)"
    "in_order (\<lambda>t. absorbed t evs) (sink_run c cfg w evs)"
    "none_invented (\<lambda>t. absorbed t evs) (sink_run c cfg w evs)"
    unfolding run using sink_loop_invariants [of evs c cfg w]
    by (auto intro: all_held_flush in_order_flush none_invented_flush)
qed

lemma set_acked: "set (acked t l) = {r. \<exists>rows. (t, rows, True) \<in> set l \<and> r \<in> set rows}"
  by (force simp: acked_def)

text \<open>The rows due for the events table are those of the events that are not metrics.\<close>

fun msg_events :: "sink_event \<Rightarrow> Event list" where
  "msg_events (Recv (Msg_Batch b) clk) = b_events b"
| "msg_events (Recv (Msg_KernelSol n k) clk) = []"
| "msg_events (Recv (Msg_Spike r) clk) = []"
| "msg_events Tick = []"

lemma absorbed_events: "absorbed ''events'' evs = map Row_Event (event_rows (concat (map msg_events evs)))"
proof (induction evs)
  case Nil
  show ?case by (simp add: event_rows_def)
next
  case (Cons ev evs)
  have "msg_rows ''events'' ev = map Row_Event (event_rows (msg_events ev))"
    by (cases ev rule: msg_events.cases)
      (simp_all add: rows_for_def absorb_msg_def absorb_def pending_new_def event_rows_def)
  with Cons show ?case by (simp add: absorbed_def event_rows_def del: msg_rows.simps)
qed

section \<open>Properties\<close>

text \<open>
  C4: The sink loses nothing and invents nothing. For every database client, whatever
  inserts fail, and every interleaving of messages and ticks, the rows that the messages
  brought to a table are exactly those that are in an insert that the client acknowledged
  or are still pending when the task has made its last flush.
\<close>

theorem sink_at_least_once:
  "set (absorbed t evs) =
     set (acked t (sk_log (sink_run c cfg w evs))) \<union> set (rows_for t (sk_pending (sink_run c cfg w evs)))"
  using sink_run_invariants(1,3) [of evs c cfg w]
  by (fastforce simp: all_held_def set_acked dest: none_inventedD)

lemma sink_delivers:
  assumes "no_failure (sk_log (sink_run c cfg w evs))"
  shows "acked t (sk_log (sink_run c cfg w evs)) = absorbed t evs
    \<and> sk_pending (sink_run c cfg w evs) = pending_new"
proof -
  have run: "sink_run c cfg w evs = sink_flush c (sink_loop c cfg w evs)"
    by (simp add: sink_run_def sink_loop_def)
  have p: "sk_pending (sink_run c cfg w evs) = pending_new"
    using assms unfolding run
    by (cases rule: sink_flush_cases [of c "sink_loop c cfg w evs"]) (auto simp: no_failure_def)
  then show ?thesis using sink_run_invariants(2) [of evs c cfg w] assms by (simp add: in_order_def)
qed

text \<open>
  As long as no insert fails, the sink delivers exactly once and in order: when the
  channel has been closed, the rows acknowledged for each table are the rows that the
  messages brought, in the order in which they came, and nothing is pending.
\<close>

theorem sink_exactly_once:
  assumes "no_failure (sk_log (sink_run c cfg w evs))"
  shows "acked t (sk_log (sink_run c cfg w evs)) = absorbed t evs
    \<and> sk_pending (sink_run c cfg w evs) = pending_new"
  using assms by (rule sink_delivers)

definition small_config :: SinkConfig where
  "small_config =
     \<lparr>cfg_url = ''http://127.0.0.1:8123'', cfg_user = ''default'', cfg_password = '''',
      cfg_database = ''default'', cfg_max_batch_rows = 3, cfg_max_batch_ms = 500\<rparr>"

definition ok_client :: "unit Client" where
  "ok_client = \<lparr>cl_insert = \<lambda>t w. (w, True), cl_write = \<lambda>r w. (w, True), cl_end = \<lambda>w. (w, True)\<rparr>"

definition event0 :: Event where
  "event0 = \<lparr>e_ts_ns = 5, e_duration_ns = 7, e_node_id = 1, e_gpu_id = 0, e_pid = 9, e_tid = 9,
             e_ctx_id = 0, e_stream_id = 0, e_category = category_i32 Cat_Kernel, e_name_id = 77,
             e_correlation_id = 3, e_parent_id = 0, e_payload = None\<rparr>"

definition batch0 :: Batch where
  "batch0 = \<lparr>b_events = [event0, event0\<lparr>e_category := category_i32 Cat_Metric\<rparr>],
             b_strings = [\<lparr>si_id = 77, si_text = ''gemm''\<rparr>], b_offsets = [], b_metric_frames = []\<rparr>"

theorem sink_exactly_once_witness:
  "acked ''events'' (sk_log (sink_run ok_client small_config () [Recv (Msg_Batch batch0) (\<lambda>i. 0), Tick]))
     = [Row_Event (event_row event0)]"
proof -
  let ?evs = "[Recv (Msg_Batch batch0) (\<lambda>i. 0), Tick]"
  have "no_failure (sk_log (sink_run ok_client small_config () ?evs))"
    by code_simp
  from sink_exactly_once [OF this, of "''events''"] show ?thesis
    by (simp add: absorbed_events batch0_def event_rows_def event0_def)
qed

text \<open>
  Metric events never reach the database: every row of every insert into the events
  table that the task attempts is the row of an event received in some batch whose category
  is not METRIC, with that event's time stamp, name and correlation id.
\<close>

theorem sink_skips_metrics:
  assumes "(''events'', rows, ok) \<in> set (sk_log (sink_run c cfg w evs))" "Row_Event r \<in> set rows"
  shows "\<exists>e \<in> set (concat (map msg_events evs)). e_category e \<noteq> category_i32 Cat_Metric
    \<and> r = event_row e \<and> er_ts_ns r = e_ts_ns e \<and> er_name_id r = e_name_id e
    \<and> er_correlation_id r = e_correlation_id e"
proof -
  have "Row_Event r \<in> set (absorbed ''events'' evs)"
    using sink_run_invariants(3) [of evs c cfg w] assms unfolding none_invented_def by blast
  then obtain e where e: "e \<in> set (concat (map msg_events evs))" "e_category e \<noteq> category_i32 Cat_Metric"
      "r = event_row e"
    unfolding absorbed_events event_rows_def by auto
  have "er_ts_ns (event_row e) = e_ts_ns e \<and> er_name_id (event_row e) = e_name_id e
    \<and> er_correlation_id (event_row e) = e_correlation_id e"
    by (auto simp: event_row_def event_row_base_def Let_def split: option.splits Payload.splits)
  with e show ?thesis by blast
qed

theorem sink_skips_metrics_witness:
  "\<exists>e \<in> set (b_events batch0). e_category e \<noteq> category_i32 Cat_Metric \<and> event_row event0 = event_row e"
proof -
  let ?evs = "[Recv (Msg_Batch batch0) (\<lambda>i. 0), Tick]"
  have "(''events'', [Row_Event (event_row event0)], True)
      \<in> set (sk_log (sink_run ok_client small_config () ?evs))"
    by code_simp
  from sink_skips_metrics [OF this, of "event_row event0"] show ?thesis by auto
qed

definition scripted_client :: "bool list Client" where
  "scripted_client =
     \<lparr>cl_insert = \<lambda>t w. (w, True), cl_write = \<lambda>r w. (w, True),
      cl_end = \<lambda>w. (case w of [] \<Rightarrow> ([], True) | b # bs \<Rightarrow> (bs, b))\<rparr>"

text \<open>
  A flush that fails half-way repeats the inserts that had succeeded. With a client
  whose second insert fails, the strings of the first attempt are acknowledged twice, while
  the event is stored once.
\<close>

theorem sink_duplicates_after_failure:
  "let l = sk_log (sink_run scripted_client small_config [True, False]
             [Recv (Msg_Batch batch0) (\<lambda>i. 0), Tick])
   in acked ''strings'' l = [Row_String (string_row \<lparr>si_id = 77, si_text = ''gemm''\<rparr>),
                             Row_String (string_row \<lparr>si_id = 77, si_text = ''gemm''\<rparr>)]
      \<and> acked ''events'' l = [Row_Event (event_row event0)]"
  by code_simp

end
