(* ===== verification/Replay.thy ===== *)
theory Replay
  imports Proto
begin

text \<open>
  The agent registry and the call back to an agent, \<^verbatim>\<open>crates/perfweave-server/src/replay.rs\<close>.
  Connecting and the remote call belong to a library and are parameters. The lemmas give
  what a lookup returns after a registration and when a request is refused.
\<close>

section \<open>Model\<close>

record AgentEntry =
  ae_node_id :: u32
  ae_hostname :: string
  ae_rpc_addr :: "string option"

type_synonym AgentRegistry = "u32 \<rightharpoonup> AgentEntry"

definition registry_new :: AgentRegistry where
  "registry_new = Map.empty"

definition registry_register :: "u32 \<Rightarrow> AgentHello \<Rightarrow> AgentRegistry \<Rightarrow> AgentRegistry" where
  "registry_register node_id hello reg =
     (let rpc = (if ah_agent_rpc_addr hello = '''' then None else Some (ah_agent_rpc_addr hello))
      in reg(node_id \<mapsto> \<lparr>ae_node_id = node_id, ae_hostname = ah_hostname hello, ae_rpc_addr = rpc\<rparr>))"

definition registry_get :: "AgentRegistry \<Rightarrow> u32 \<Rightarrow> AgentEntry option" where
  "registry_get reg node_id = reg node_id"

datatype 'e profile_error = NotRegistered u32 | NoRpcAddress u32 | ConnectFailed 'e | CallFailed 'e

text \<open>\<open>connect\<close> returns a client, \<open>call\<close> the stream of results.\<close>

definition profile_kernels_rpc ::
  "(string \<Rightarrow> 'e + 'c) \<Rightarrow> ('c \<Rightarrow> ProfileRequest \<Rightarrow> 'e + 's) \<Rightarrow> AgentRegistry \<Rightarrow> u32 \<Rightarrow> ProfileRequest
     \<Rightarrow> 'e profile_error + 's" where
  "profile_kernels_rpc connect call registry node_id req =
     (case registry_get registry node_id of
        None \<Rightarrow> Inl (NotRegistered node_id)
      | Some entry \<Rightarrow>
          (case ae_rpc_addr entry of
             None \<Rightarrow> Inl (NoRpcAddress node_id)
           | Some addr \<Rightarrow>
               (case connect addr of
                  Inl e \<Rightarrow> Inl (ConnectFailed e)
                | Inr client \<Rightarrow>
                    (case call client req of Inl e \<Rightarrow> Inl (CallFailed e) | Inr s \<Rightarrow> Inr s))))"

section \<open>Properties\<close>

text \<open>
  A keyed store: what a lookup returns after an insertion. The registry's client only
  relies on these two laws.
\<close>

locale keyed_store =
  fixes ins :: "'k \<Rightarrow> 'v \<Rightarrow> 's \<Rightarrow> 's" and look :: "'s \<Rightarrow> 'k \<Rightarrow> 'e option" and entry :: "'k \<Rightarrow> 'v \<Rightarrow> 'e"
  assumes look_same: "look (ins k v s) k = Some (entry k v)"
    and look_other: "k \<noteq> k' \<Longrightarrow> look (ins k v s) k' = look s k'"
begin

lemma look_fold:
  "look (foldl (\<lambda>s (k, v). ins k v s) s kvs) k =
     (case map_of (rev kvs) k of None \<Rightarrow> look s k | Some v \<Rightarrow> Some (entry k v))"
proof (induction kvs rule: rev_induct)
  case (snoc kv kvs)
  then show ?case by (cases kv) (auto simp: look_same look_other)
qed simp

end

definition entry_of :: "u32 \<Rightarrow> AgentHello \<Rightarrow> AgentEntry" where
  "entry_of n h = \<lparr>ae_node_id = n, ae_hostname = ah_hostname h,
     ae_rpc_addr = (if ah_agent_rpc_addr h = '''' then None else Some (ah_agent_rpc_addr h))\<rparr>"

interpretation registry: keyed_store registry_register registry_get entry_of
  by unfold_locales (simp_all add: registry_register_def registry_get_def entry_of_def Let_def)

text \<open>
  A profiling request goes to the agent of the latest registration of its node. After
  any registrations, a request for a node is refused without a call exactly when the node
  has not registered or its latest registration has no RPC address; otherwise it connects
  to that address and returns what the agent returns.
\<close>

theorem profile_uses_latest_registration:
  "profile_kernels_rpc connect call
     (foldl (\<lambda>r (n, h). registry_register n h r) registry_new regs) node req =
   (case map_of (rev regs) node of
      None \<Rightarrow> Inl (NotRegistered node)
    | Some h \<Rightarrow>
        if ah_agent_rpc_addr h = '''' then Inl (NoRpcAddress node)
        else (case connect (ah_agent_rpc_addr h) of
                Inl e \<Rightarrow> Inl (ConnectFailed e)
              | Inr c \<Rightarrow> (case call c req of Inl e \<Rightarrow> Inl (CallFailed e) | Inr s \<Rightarrow> Inr s)))"
  using registry.look_fold [of registry_new regs node]
  by (auto simp: profile_kernels_rpc_def registry_get_def registry_new_def entry_of_def split: option.splits)

end
