(* ===== verification/Ingest.thy ===== *)
theory Ingest
  imports Fast_Ring Live Skew Sink Replay
begin

text \<open>
  The collector service, \<^verbatim>\<open>crates/perfweave-server/src/ingest/grpc.rs\<close>: registration of
  agents and the ingest loop that splits every batch between the in-memory ring, the live
  broadcaster and the sink. The sink's channel is a parameter; clock readings, and whether
  the agent still takes acknowledgements, are part of the input. The lemmas give the split
  of a batch and the accounting of the acknowledgements.
\<close>

section \<open>Model\<close>

record 'ch CollectorSvc =
  cv_sink :: 'ch
  cv_fast :: FastRing
  cv_skew :: SkewTable
  cv_live :: LiveBroadcaster
  cv_agents :: AgentRegistry
  cv_next_node_id :: u32

definition collector_new ::
  "'ch \<Rightarrow> FastRing \<Rightarrow> SkewTable \<Rightarrow> LiveBroadcaster \<Rightarrow> AgentRegistry \<Rightarrow> 'ch CollectorSvc" where
  "collector_new sink ring skew live agents =
     \<lparr>cv_sink = sink, cv_fast = ring, cv_skew = skew, cv_live = live, cv_agents = agents,
      cv_next_node_id = 1\<rparr>"

text \<open>\<^verbatim>\<open>fetch_add\<close> returns the old value and wraps around.\<close>

definition svc_register :: "u64 \<Rightarrow> AgentHello \<Rightarrow> 'ch CollectorSvc \<Rightarrow> 'ch CollectorSvc \<times> RegisterAck" where
  "svc_register now hello svc =
     (let (svc', assigned) =
        (if ah_node_id hello = 0
         then (svc\<lparr>cv_next_node_id := cv_next_node_id svc + 1\<rparr>, cv_next_node_id svc)
         else (svc, ah_node_id hello))
      in (svc'\<lparr>cv_agents := registry_register assigned hello (cv_agents svc')\<rparr>,
          \<lparr>ra_assigned_node_id = assigned, ra_server_epoch_ns = now\<rparr>))"

definition absorb_offsets :: "(nat \<Rightarrow> u64) \<Rightarrow> ClockOffsetMsg list \<Rightarrow> SkewTable \<Rightarrow> SkewTable" where
  "absorb_offsets clk offsets t =
     foldl (\<lambda>t (i, c). skew_upsert (clk i) t c) t (List.enumerate 0 offsets)"

definition absorb_frame :: "SkewTable \<Rightarrow> FastRing \<Rightarrow> MetricFrame \<Rightarrow> FastRing" where
  "absorb_frame t ring f =
     (let ts = skew_map t (mf_node_id f) (mf_gpu_id f) (mf_ts_ns f)
      in foldl (\<lambda>fr p. fast_ring_push fr
           \<lparr>sk_node_id = mf_node_id f, sk_gpu_id = mf_gpu_id f, sk_metric_id = mp_metric_id p\<rparr>
           \<lparr>s_ts_ns = ts, s_value = mp_value p\<rparr>) ring (mf_points f))"

definition skew_event :: "SkewTable \<Rightarrow> Event \<Rightarrow> Event" where
  "skew_event t e =
     (if e_category e = category_i32 Cat_Kernel \<or> e_category e = category_i32 Cat_ApiCall
         \<or> e_category e = category_i32 Cat_Memcpy
      then e\<lparr>e_ts_ns := skew_map t (e_node_id e) (e_gpu_id e) (e_ts_ns e)\<rparr> else e)"

definition live_kernel :: "u64 \<Rightarrow> Event \<Rightarrow> LiveKernelEvent" where
  "live_kernel now e =
     \<lparr>lk_ts_ns = e_ts_ns e, lk_duration_ns = e_duration_ns e, lk_node_id = e_node_id e,
      lk_gpu_id = e_gpu_id e, lk_correlation_id = e_correlation_id e, lk_name_id = e_name_id e,
      lk_server_now_ns = now\<rparr>"

text \<open>One turn of the loop over the events of a batch, with the clock reading \<open>now\<close>.\<close>

record Split =
  sl_fast :: FastRing
  sl_live :: LiveBroadcaster
  sl_persisted :: "Event list"

definition split_event :: "SkewTable \<Rightarrow> Split \<Rightarrow> u64 \<times> Event \<Rightarrow> Split" where
  "split_event t s ne =
     (let now = fst ne; e = skew_event t (snd ne) in
      if e_category e = category_i32 Cat_Metric then
        (case e_payload e of
           Some (Payload_Metric m) \<Rightarrow>
             s\<lparr>sl_fast := fast_ring_push (sl_fast s)
                 \<lparr>sk_node_id = e_node_id e, sk_gpu_id = e_gpu_id e, sk_metric_id = ms_metric_id m\<rparr>
                 \<lparr>s_ts_ns = e_ts_ns e, s_value = ms_value m\<rparr>\<rparr>
         | _ \<Rightarrow> s)
      else
        let s' = (if e_category e = category_i32 Cat_Kernel
                  then s\<lparr>sl_live := publish_kernel (live_kernel now e) (sl_live s)\<rparr> else s)
        in s'\<lparr>sl_persisted := sl_persisted s' @ [e]\<rparr>)"

text \<open>
  The clock readings of one batch: \<open>clk_off i\<close> for its \<open>i\<close>-th offset, \<open>clk_ev i\<close> for its
  \<open>i\<close>-th event.
\<close>

definition ingest_batch ::
  "(nat \<Rightarrow> u64) \<Rightarrow> (nat \<Rightarrow> u64) \<Rightarrow> Batch \<Rightarrow> 'ch CollectorSvc \<Rightarrow> 'ch CollectorSvc \<times> Batch" where
  "ingest_batch clk_off clk_ev b svc =
     (let skew = absorb_offsets clk_off (b_offsets b) (cv_skew svc);
          ring = foldl (absorb_frame skew) (cv_fast svc) (b_metric_frames b);
          s = foldl (split_event skew) \<lparr>sl_fast = ring, sl_live = cv_live svc, sl_persisted = []\<rparr>
                (map (\<lambda>(i, e). (clk_ev i, e)) (List.enumerate 0 (b_events b)))
      in (svc\<lparr>cv_skew := skew, cv_fast := sl_fast s, cv_live := sl_live s\<rparr>,
          \<lparr>b_events = sl_persisted s, b_strings = b_strings b, b_offsets = b_offsets b,
           b_metric_frames = []\<rparr>))"

text \<open>
  What the stream yields: a batch with its clock readings, or an error. \<open>im_ack_ok\<close> says
  whether sending the acknowledgement succeeds.
\<close>

datatype inbound =
  In_Batch (in_batch: Batch) "nat \<Rightarrow> u64" "nat \<Rightarrow> u64" bool
  | In_Error string

datatype status = Unavailable string | StreamError string

datatype stop = SinkPanic | Returned | CleanClose

text \<open>
  The loop of the ingest task. It returns the service, the results sent to the agent and
  how it ended.
\<close>

fun ingest_loop ::
  "(SinkMsg \<Rightarrow> 'ch \<Rightarrow> 'ch \<times> (SinkMsg try_send_error + unit)) \<Rightarrow> u64 \<Rightarrow> u64 \<Rightarrow> inbound list
     \<Rightarrow> 'ch CollectorSvc \<Rightarrow> 'ch CollectorSvc \<times> (status + Ack) list \<times> stop" where
  "ingest_loop try_send accepted dropped [] svc = (svc, [], CleanClose)"
| "ingest_loop try_send accepted dropped (In_Error e # ms) svc = (svc, [Inl (StreamError e)], Returned)"
| "ingest_loop try_send accepted dropped (In_Batch b clk_off clk_ev ack_ok # ms) svc =
     (let rows = of_nat (length (b_events b));
          (svc1, out) = ingest_batch clk_off clk_ev b svc
      in case try_push try_send out (cv_sink svc1) of
           None \<Rightarrow> (svc1, [], SinkPanic)
         | Some (ch, r) \<Rightarrow>
             let svc2 = svc1\<lparr>cv_sink := ch\<rparr> in
             (case r of
                Inl (Closed _) \<Rightarrow> (svc2, [Inl (Unavailable ''sink closed'')], Returned)
              | _ \<Rightarrow>
                let accepted' = (case r of Inr _ \<Rightarrow> accepted + rows | Inl _ \<Rightarrow> accepted);
                    dropped' = (case r of Inr _ \<Rightarrow> dropped | Inl _ \<Rightarrow> dropped + rows);
                    ack = Inr \<lparr>ack_accepted = accepted', ack_dropped = dropped'\<rparr>
                in if \<not> ack_ok then (svc2, [], Returned)
                   else let (svc3, outs, st) = ingest_loop try_send accepted' dropped' ms svc2
                     in (svc3, ack # outs, st)))"

definition ingest ::
  "(SinkMsg \<Rightarrow> 'ch \<Rightarrow> 'ch \<times> (SinkMsg try_send_error + unit)) \<Rightarrow> inbound list
     \<Rightarrow> 'ch CollectorSvc \<Rightarrow> 'ch CollectorSvc \<times> (status + Ack) list \<times> stop" where
  "ingest try_send ms svc = ingest_loop try_send 0 0 ms svc"

section \<open>The split of a batch\<close>

definition is_cat :: "Category \<Rightarrow> Event \<Rightarrow> bool" where
  "is_cat c e \<longleftrightarrow> e_category e = category_i32 c"

lemma skew_event_frame [simp]:
  "e_category (skew_event t e) = e_category e" "e_payload (skew_event t e) = e_payload e"
  "e_node_id (skew_event t e) = e_node_id e" "e_gpu_id (skew_event t e) = e_gpu_id e"
  "is_cat c (skew_event t e) = is_cat c e"
  by (simp_all add: skew_event_def is_cat_def)

text \<open>The pushes into the ring that a batch causes, in their order.\<close>

definition frame_pushes :: "SkewTable \<Rightarrow> MetricFrame \<Rightarrow> ring_op list" where
  "frame_pushes t f = map (\<lambda>p. Push
     \<lparr>sk_node_id = mf_node_id f, sk_gpu_id = mf_gpu_id f, sk_metric_id = mp_metric_id p\<rparr>
     \<lparr>s_ts_ns = skew_map t (mf_node_id f) (mf_gpu_id f) (mf_ts_ns f), s_value = mp_value p\<rparr>) (mf_points f)"

definition event_pushes :: "Event \<Rightarrow> ring_op list" where
  "event_pushes e =
     (if is_cat Cat_Metric e
      then (case e_payload e of
              Some (Payload_Metric m) \<Rightarrow>
                [Push \<lparr>sk_node_id = e_node_id e, sk_gpu_id = e_gpu_id e, sk_metric_id = ms_metric_id m\<rparr>
                      \<lparr>s_ts_ns = e_ts_ns e, s_value = ms_value m\<rparr>]
            | _ \<Rightarrow> [])
      else [])"

lemma absorb_frame_pushes: "absorb_frame t fr f = foldl ring_step fr (frame_pushes t f)"
  by (simp add: absorb_frame_def frame_pushes_def foldl_map Let_def)

lemma absorb_frames_pushes:
  "foldl (absorb_frame t) fr fs = foldl ring_step fr (concat (map (frame_pushes t) fs))"
  by (induction fs arbitrary: fr) (simp_all add: absorb_frame_pushes)

lemma metric_event_unskewed: "is_cat Cat_Metric e \<Longrightarrow> skew_event t e = e"
  by (simp add: skew_event_def is_cat_def)

lemma split_events:
  "foldl (split_event t) s nes =
     \<lparr>sl_fast = foldl ring_step (sl_fast s) (concat (map (event_pushes \<circ> snd) nes)),
      sl_live = (sl_live s)\<lparr>lb_kernels := lb_kernels (sl_live s) @
         map (\<lambda>(now, e). live_kernel now (skew_event t e)) (filter (\<lambda>(now, e). is_cat Cat_Kernel e) nes)\<rparr>,
      sl_persisted = sl_persisted s @ map (skew_event t \<circ> snd) (filter (\<lambda>(now, e). \<not> is_cat Cat_Metric e) nes)\<rparr>"
proof (induction nes arbitrary: s)
  case (Cons ne nes)
  obtain now e where ne: "ne = (now, e)" by (cases ne)
  consider "is_cat Cat_Metric e" | "is_cat Cat_Kernel e" | "\<not> is_cat Cat_Metric e" "\<not> is_cat Cat_Kernel e"
    by blast
  then show ?case
  proof cases
    case 1
    then have "\<not> is_cat Cat_Kernel e" by (simp add: is_cat_def)
    then show ?thesis
      using 1 Cons.IH metric_event_unskewed [OF 1, of t]
      by (auto simp: ne split_event_def event_pushes_def Let_def is_cat_def split: option.split Payload.split)
  next
    case 2
    then have "\<not> is_cat Cat_Metric e" by (simp add: is_cat_def)
    then show ?thesis
      using 2 Cons.IH
      by (auto simp: ne split_event_def event_pushes_def Let_def is_cat_def publish_kernel_def)
  next
    case 3
    then show ?thesis
      using Cons.IH by (auto simp: ne split_event_def event_pushes_def Let_def is_cat_def)
  qed
qed simp

lemma enumerate_snd:
  "map snd (map (\<lambda>(i, e). (f i, e)) (List.enumerate n es)) = es"
  by (induction es arbitrary: n) simp_all

definition timed :: "(nat \<Rightarrow> u64) \<Rightarrow> Event list \<Rightarrow> (u64 \<times> Event) list" where
  "timed clk es = map (\<lambda>(i, e). (clk i, e)) (List.enumerate 0 es)"

lemma snd_timed: "map snd (timed clk es) = es"
  unfolding timed_def by (rule enumerate_snd)

lemma filter_timed: "map (f \<circ> snd) (filter (\<lambda>(now, e). P e) (timed clk es)) = map f (filter P es)"
proof -
  have "map snd (filter (\<lambda>(now, e). P e) (timed clk es)) = filter P (map snd (timed clk es))"
    by (simp add: filter_map o_def case_prod_unfold)
  then show ?thesis by (metis map_map snd_timed)
qed

lemma concat_timed: "concat (map (f \<circ> snd) (timed clk es)) = concat (map f es)"
  by (metis map_map snd_timed)

section \<open>Properties\<close>

lemma ingest_batch_split:
  fixes b svc clk_off clk_ev
  defines "t \<equiv> absorb_offsets clk_off (b_offsets b) (cv_skew svc)"
  shows "ingest_batch clk_off clk_ev b svc =
    (svc\<lparr>cv_skew := t,
         cv_fast := foldl ring_step (cv_fast svc)
           (concat (map (frame_pushes t) (b_metric_frames b)) @ concat (map event_pushes (b_events b))),
         cv_live := (cv_live svc)\<lparr>lb_kernels := lb_kernels (cv_live svc) @
           map (\<lambda>(now, e). live_kernel now (skew_event t e))
             (filter (\<lambda>(now, e). is_cat Cat_Kernel e) (timed clk_ev (b_events b)))\<rparr>\<rparr>,
     \<lparr>b_events = map (skew_event t) (filter (\<lambda>e. \<not> is_cat Cat_Metric e) (b_events b)),
      b_strings = b_strings b, b_offsets = b_offsets b, b_metric_frames = []\<rparr>)"
  using filter_timed [of "skew_event t" "\<lambda>e. \<not> is_cat Cat_Metric e" clk_ev "b_events b"]
    concat_timed [of event_pushes clk_ev "b_events b"]
  unfolding ingest_batch_def t_def [symmetric] timed_def [symmetric] Let_def
  by (simp add: split_events absorb_frames_pushes)

text \<open>
  C10: A batch is split without loss. Its offsets are absorbed first, so they already apply
  to the batch itself. Every point of a metric frame, at the corrected time of the frame,
  and every metric event with a metric payload becomes one push into the ring, in order;
  every other event goes to the sink, in order, kernel, API and copy events with their time
  stamp corrected; every kernel event is also broadcast; strings and offsets are passed on
  and no metric frame is.
\<close>

theorem ingest_splits_batch:
  fixes b svc clk_off clk_ev
  defines "t \<equiv> absorb_offsets clk_off (b_offsets b) (cv_skew svc)"
  shows "ingest_batch clk_off clk_ev b svc =
    (svc\<lparr>cv_skew := t,
         cv_fast := foldl ring_step (cv_fast svc)
           (concat (map (frame_pushes t) (b_metric_frames b)) @ concat (map event_pushes (b_events b))),
         cv_live := (cv_live svc)\<lparr>lb_kernels := lb_kernels (cv_live svc) @
           map (\<lambda>(now, e). live_kernel now (skew_event t e))
             (filter (\<lambda>(now, e). is_cat Cat_Kernel e) (timed clk_ev (b_events b)))\<rparr>\<rparr>,
     \<lparr>b_events = map (skew_event t) (filter (\<lambda>e. \<not> is_cat Cat_Metric e) (b_events b)),
      b_strings = b_strings b, b_offsets = b_offsets b, b_metric_frames = []\<rparr>)"
  unfolding t_def by (rule ingest_batch_split)

text \<open>The acknowledgements sent, and the number of events of each message.\<close>

definition acks :: "(status + Ack) list \<Rightarrow> Ack list" where
  "acks outs = List.map_filter (\<lambda>r. case r of Inr a \<Rightarrow> Some a | Inl _ \<Rightarrow> None) outs"

fun rows_of :: "inbound \<Rightarrow> nat" where
  "rows_of (In_Batch b clk_off clk_ev ok) = length (b_events b)"
| "rows_of (In_Error e) = 0"

lemma acks_simps [simp]:
  "acks [] = []" "acks (Inr a # outs) = a # acks outs" "acks (Inl s # outs) = acks outs"
  by (simp_all add: acks_def List.map_filter_def)

definition ack_total :: "Ack \<Rightarrow> u64" where
  "ack_total a = ack_accepted a + ack_dropped a"

definition totals :: "u64 \<Rightarrow> nat list \<Rightarrow> nat \<Rightarrow> u64 list" where
  "totals t0 rows n = map (\<lambda>i. t0 + of_nat (sum_list (take (Suc i) rows))) [0..<n]"

lemma totals_simps [simp]:
  "totals t0 rows 0 = []"
  "totals t0 (r # rows) (Suc n) = (t0 + of_nat r) # totals (t0 + of_nat r) rows n"
  by (simp_all add: totals_def upt_conv_Cons map_Suc_upt [symmetric] o_def add.assoc del: upt_Suc)

lemma try_push_cases:
  obtains "try_push try_send b ch = None"
    | ch' b' where "try_push try_send b ch = Some (ch', Inl (Closed b'))"
    | ch' b' where "try_push try_send b ch = Some (ch', Inl (Full b'))"
    | ch' where "try_push try_send b ch = Some (ch', Inr ())"
proof (cases "try_push try_send b ch")
  case (Some x)
  then show thesis
    using that(2-4) by (cases x; cases "snd x") (auto, metis try_send_error.exhaust)
qed (use that(1) in simp)

lemma ingest_loop_totals:
  "ingest_loop try_send acc dr ms svc = (svc', outs, st) \<Longrightarrow>
     map ack_total (acks outs) = totals (acc + dr) (map rows_of ms) (length (acks outs))"
proof (induction ms arbitrary: acc dr svc svc' outs st)
  case (Cons m ms)
  show ?case
  proof (cases m)
    case (In_Error e)
    then show ?thesis using Cons.prems by auto
  next
    case (In_Batch b clk_off clk_ev ack_ok)
    obtain svc1 out where b: "ingest_batch clk_off clk_ev b svc = (svc1, out)" by fastforce
    consider "try_push try_send out (cv_sink svc1) = None"
      | ch b' where "try_push try_send out (cv_sink svc1) = Some (ch, Inl (Closed b'))"
      | ch b' where "try_push try_send out (cv_sink svc1) = Some (ch, Inl (Full b'))"
      | ch where "try_push try_send out (cv_sink svc1) = Some (ch, Inr ())"
      by (rule try_push_cases)
    then show ?thesis
    proof cases
      case 3
      then show ?thesis
        using Cons.prems In_Batch b Cons.IH [of acc "dr + of_nat (length (b_events b))" "svc1\<lparr>cv_sink := ch\<rparr>"]
        by (auto simp: Let_def ack_total_def add.assoc split: if_splits prod.splits)
    next
      case 4
      then show ?thesis
        using Cons.prems In_Batch b Cons.IH [of "acc + of_nat (length (b_events b))" dr "svc1\<lparr>cv_sink := ch\<rparr>"]
        by (auto simp: Let_def ack_total_def ac_simps split: if_splits prod.splits)
    qed (use Cons.prems In_Batch b in auto)
  qed
qed auto

text \<open>
  C25: Every acknowledgement accounts for every event received so far: whatever the sink's
  channel does, the \<open>i\<close>-th acknowledgement's accepted and dropped counts add up to the
  number of events in the first \<open>i + 1\<close> batches of the stream (modulo \<open>2 ^ 64\<close>).
\<close>

theorem ingest_accounting:
  "map (\<lambda>a. ack_accepted a + ack_dropped a) (acks (fst (snd (ingest try_send ms svc)))) =
   map (\<lambda>i. of_nat (sum_list (take (Suc i) (map rows_of ms))))
     [0..<length (acks (fst (snd (ingest try_send ms svc))))]"
  unfolding ingest_def using ingest_loop_totals [of try_send 0 0 ms svc]
  by (cases "ingest_loop try_send 0 0 ms svc") (simp add: totals_def ack_total_def [abs_def])

text \<open>The ingest loop of a stream of batches whose acknowledgements all get through.\<close>

fun ingest_batches :: "inbound list \<Rightarrow> 'ch CollectorSvc \<Rightarrow> 'ch CollectorSvc \<times> Batch list" where
  "ingest_batches [] svc = (svc, [])"
| "ingest_batches (In_Batch b clk_off clk_ev ok # ms) svc =
     (let (svc1, out) = ingest_batch clk_off clk_ev b svc; (svc2, outs) = ingest_batches ms svc1
      in (svc2, out # outs))"
| "ingest_batches (In_Error e # ms) svc = (svc, [])"

definition healthy :: "inbound \<Rightarrow> bool" where
  "healthy m \<longleftrightarrow> (case m of In_Batch b clk_off clk_ev ok \<Rightarrow> ok | In_Error e \<Rightarrow> False)"

lemma ingest_batch_sink [simp]:
  "cv_sink (fst (ingest_batch clk_off clk_ev b svc)) = cv_sink svc"
  "ingest_batch clk_off clk_ev b (svc\<lparr>cv_sink := ch\<rparr>) =
     (let (svc', out) = ingest_batch clk_off clk_ev b svc in (svc'\<lparr>cv_sink := ch\<rparr>, out))"
  by (simp_all add: ingest_batch_def Let_def)

lemma ingest_batches_sink:
  "ingest_batches ms (svc\<lparr>cv_sink := ch\<rparr>) =
     (let (svc', outs) = ingest_batches ms svc in (svc'\<lparr>cv_sink := ch\<rparr>, outs))"
  by (induction ms svc rule: ingest_batches.induct) (auto simp: Let_def split: prod.splits)

lemma ingest_loop_healthy:
  assumes "\<And>m ch. try_send m ch = (enq m ch, Inr ())" "list_all healthy ms"
  shows "\<exists>svc' outs. ingest_loop try_send acc dr ms svc = (svc', outs, CleanClose)
    \<and> cv_sink svc' = foldl (\<lambda>ch b. enq (Msg_Batch b) ch) (cv_sink svc) (snd (ingest_batches ms svc))
    \<and> map ack_dropped (acks outs) = replicate (length ms) dr"
  using assms(2)
proof (induction ms arbitrary: acc svc)
  case (Cons m ms)
  obtain b clk_off clk_ev where m: "m = In_Batch b clk_off clk_ev True"
    using Cons.prems by (cases m) (auto simp: healthy_def)
  obtain svc1 out where b: "ingest_batch clk_off clk_ev b svc = (svc1, out)" by fastforce
  let ?svc = "svc1\<lparr>cv_sink := enq (Msg_Batch out) (cv_sink svc)\<rparr>"
  have push: "try_push try_send out ch = Some (enq (Msg_Batch out) ch, Inr ())" for ch
    by (simp add: try_push_def assms(1))
  have sink: "cv_sink svc1 = cv_sink svc" using ingest_batch_sink(1) [of clk_off clk_ev b svc] b by simp
  have "list_all healthy ms" using Cons.prems by simp
  from Cons.IH [OF this, of "acc + of_nat (length (b_events b))" ?svc]
  obtain svc' outs where "ingest_loop try_send (acc + of_nat (length (b_events b))) dr ms ?svc = (svc', outs, CleanClose)"
    "cv_sink svc' = foldl (\<lambda>ch b. enq (Msg_Batch b) ch) (cv_sink ?svc) (snd (ingest_batches ms ?svc))"
    "map ack_dropped (acks outs) = replicate (length ms) dr"
    by blast
  then show ?case
    by (auto simp: m b push sink Let_def ingest_batches_sink split: prod.splits)
qed auto

text \<open>
  C37: A collector whose sink keeps up drops nothing: if the sink's channel takes every
  message and no acknowledgement fails, the loop runs to the clean end of the stream,
  acknowledges every batch with a dropped count of zero, and has queued for the sink exactly
  the split of each batch, one message per batch and in order.
\<close>

theorem ingest_without_backpressure:
  assumes "\<And>m ch. try_send m ch = (enq m ch, Inr ())" "list_all healthy ms"
  shows "\<exists>svc' outs. ingest try_send ms svc = (svc', outs, CleanClose)
    \<and> cv_sink svc' = foldl (\<lambda>ch b. enq (Msg_Batch b) ch) (cv_sink svc) (snd (ingest_batches ms svc))
    \<and> map ack_dropped (acks outs) = replicate (length ms) 0"
  unfolding ingest_def by (rule ingest_loop_healthy [OF assms])

definition queue_send :: "SinkMsg \<Rightarrow> SinkMsg list \<Rightarrow> SinkMsg list \<times> (SinkMsg try_send_error + unit)" where
  "queue_send m q = (q @ [m], Inr ())"

definition svc0 :: "SinkMsg list CollectorSvc" where
  "svc0 = collector_new [] fast_ring_new skew_new broadcaster_new registry_new"

theorem ingest_without_backpressure_witness:
  "\<exists>svc' outs. ingest queue_send [In_Batch batch0 (\<lambda>i. 0) (\<lambda>i. 0) True] svc0 = (svc', outs, CleanClose)
    \<and> map ack_dropped (acks outs) = [0]"
proof -
  have "list_all healthy [In_Batch batch0 (\<lambda>i. 0) (\<lambda>i. 0) True]" by (simp add: healthy_def)
  from ingest_without_backpressure [of queue_send "\<lambda>m q. q @ [m]", OF _ this, of svc0]
  show ?thesis by (auto simp: queue_send_def)
qed

section \<open>Registration\<close>

fun register_all :: "AgentHello list \<Rightarrow> 'ch CollectorSvc \<Rightarrow> 'ch CollectorSvc \<times> u32 list" where
  "register_all [] svc = (svc, [])"
| "register_all (h # hs) svc =
     (let (svc1, a) = svc_register 0 h svc; (svc2, ids) = register_all hs svc1
      in (svc2, ra_assigned_node_id a # ids))"

lemma register_all_anonymous:
  "list_all (\<lambda>h. ah_node_id h = 0) hs \<Longrightarrow>
     snd (register_all hs svc) = map (\<lambda>i. cv_next_node_id svc + of_nat i) [0..<length hs]"
proof (induction hs arbitrary: svc)
  case (Cons h hs)
  let ?svc = "fst (svc_register 0 h svc)"
  have h: "ra_assigned_node_id (snd (svc_register 0 h svc)) = cv_next_node_id svc"
    "cv_next_node_id ?svc = cv_next_node_id svc + 1"
    using Cons.prems by (simp_all add: svc_register_def)
  have "snd (register_all hs ?svc) = map (\<lambda>i. cv_next_node_id svc + 1 + of_nat i) [0..<length hs]"
    using Cons.IH [of ?svc] Cons.prems h(2) by simp
  then show ?case
    using h(1) by (simp add: case_prod_unfold Let_def upt_conv_Cons map_Suc_upt [symmetric] o_def ac_simps del: upt_Suc)
qed simp

text \<open>
  Agents that register without an id get different ids: the first \<open>n < 2 ^ 32 - 1\<close> such
  registrations of a new collector receive pairwise different ids, none of them zero.
\<close>

theorem register_assigns_distinct_ids:
  assumes "list_all (\<lambda>h. ah_node_id h = 0) hs" "length hs < 2 ^ 32 - 1"
  shows "distinct (snd (register_all hs (collector_new ch fr sk lv ag)))
    \<and> 0 \<notin> set (snd (register_all hs (collector_new ch fr sk lv ag)))"
proof -
  have u: "unat (1 + of_nat i :: u32) = Suc i" if "i < length hs" for i
    using that assms(2) by (simp add: unat_word_ariths unat_of_nat)
  have ids: "snd (register_all hs (collector_new ch fr sk lv ag)) = map (\<lambda>i. 1 + of_nat i) [0..<length hs]"
    by (subst register_all_anonymous [OF assms(1)]) (simp add: collector_new_def)
  have "inj_on (\<lambda>i. 1 + of_nat i :: u32) {0..<length hs}"
    using u by (metis (no_types, lifting) atLeastLessThan_iff inj_onI nat.inject)
  moreover have "(1 + of_nat i :: u32) \<noteq> 0" if "i < length hs" for i
    using u [OF that] by (metis nat.distinct(1) unat_0)
  ultimately show ?thesis unfolding ids by (auto simp: distinct_map)
qed

definition hello :: "u32 \<Rightarrow> AgentHello" where
  "hello n = \<lparr>ah_node_id = n, ah_hostname = ''h'', ah_agent_version = ''1'', ah_num_gpus = 1,
              ah_device_peaks = [], ah_agent_rpc_addr = ''''\<rparr>"

theorem register_assigns_distinct_ids_witness:
  "distinct (snd (register_all [hello 0, hello 0] svc0))"
  unfolding svc0_def
  using register_assigns_distinct_ids [of "[hello 0, hello 0]" "[] :: SinkMsg list"]
  by (simp add: hello_def)

text \<open>
  The counter ignores ids that agents chose themselves: after an agent registered as
  node 1, the next agent that asks for an id gets 1 too and replaces its registry entry.
\<close>

theorem register_collides_with_chosen_id:
  "snd (register_all [hello 1, (hello 0)\<lparr>ah_hostname := ''other''\<rparr>] svc0) = [1, 1]
   \<and> map_option ae_hostname (registry_get (cv_agents (fst (register_all
        [hello 1, (hello 0)\<lparr>ah_hostname := ''other''\<rparr>] svc0))) 1) = Some ''other''"
  by code_simp

end
