(* ===== verification/Event_Ring.thy ===== *)
theory Event_Ring
  imports Proto "HOL-Library.Sublist"
begin

text \<open>
  The agent's ring between the samplers and the uploader, \<^verbatim>\<open>crates/perfweave-agent/src/ring.rs\<close>:
  two bounded lanes with counters of what did not fit. The channels belong to a library and
  are parameters; what the ring relies on is the locale \<open>bounded_fifo\<close>. The lemmas show
  that the event lane refines a bounded queue and that every event pushed is drained, still
  queued or counted as dropped.
\<close>

section \<open>Model\<close>

datatype 'm cb_send_error = Cb_Full 'm | Cb_Disconnected 'm

record ('m, 'ch) Channel =
  chn_try_send :: "'m \<Rightarrow> 'ch \<Rightarrow> 'ch \<times> ('m cb_send_error + unit)"
  chn_try_recv :: "'ch \<Rightarrow> 'ch \<times> 'm option"

record ('ch, 'fch) EventRing =
  rg_events :: 'ch
  rg_frames :: 'fch
  rg_dropped :: u64
  rg_dropped_frames :: u64

text \<open>\<^verbatim>\<open>EventRing::new\<close> makes the channels with these capacities.\<close>

definition frame_capacity :: "nat \<Rightarrow> nat" where
  "frame_capacity capacity = capacity div 32 + 256"

definition event_ring_new :: "(nat \<Rightarrow> 'ch) \<Rightarrow> (nat \<Rightarrow> 'fch) \<Rightarrow> nat \<Rightarrow> ('ch, 'fch) EventRing" where
  "event_ring_new bounded bounded_f capacity =
     \<lparr>rg_events = bounded capacity, rg_frames = bounded_f (frame_capacity capacity),
      rg_dropped = 0, rg_dropped_frames = 0\<rparr>"

definition ring_push :: "(Event, 'ch) Channel \<Rightarrow> Event \<Rightarrow> ('ch, 'fch) EventRing \<Rightarrow> ('ch, 'fch) EventRing" where
  "ring_push c e r =
     (let (ch, res) = chn_try_send c e (rg_events r); r' = r\<lparr>rg_events := ch\<rparr>
      in case res of Inl (Cb_Full _) \<Rightarrow> r'\<lparr>rg_dropped := rg_dropped r' + 1\<rparr> | _ \<Rightarrow> r')"

definition ring_push_frame ::
  "(MetricFrame, 'fch) Channel \<Rightarrow> MetricFrame \<Rightarrow> ('ch, 'fch) EventRing \<Rightarrow> ('ch, 'fch) EventRing" where
  "ring_push_frame c f r =
     (let (ch, res) = chn_try_send c f (rg_frames r); r' = r\<lparr>rg_frames := ch\<rparr>
      in case res of Inl (Cb_Full _) \<Rightarrow> r'\<lparr>rg_dropped_frames := rg_dropped_frames r' + 1\<rparr> | _ \<Rightarrow> r')"

text \<open>At most \<open>n\<close> receives; the loop stops at the first one that fails.\<close>

fun recv_up_to :: "('m, 'ch) Channel \<Rightarrow> nat \<Rightarrow> 'ch \<Rightarrow> 'm list \<times> 'ch" where
  "recv_up_to c 0 ch = ([], ch)"
| "recv_up_to c (Suc n) ch =
     (case chn_try_recv c ch of
        (ch', None) \<Rightarrow> ([], ch')
      | (ch', Some m) \<Rightarrow> (let (ms, ch'') = recv_up_to c n ch' in (m # ms, ch'')))"

definition drain_up_to ::
  "(Event, 'ch) Channel \<Rightarrow> nat \<Rightarrow> ('ch, 'fch) EventRing \<Rightarrow> Event list \<times> ('ch, 'fch) EventRing" where
  "drain_up_to c n r = (let (es, ch) = recv_up_to c n (rg_events r) in (es, r\<lparr>rg_events := ch\<rparr>))"

text \<open>Receiving until the channel is empty: \<open>None\<close> is a loop that does not end.\<close>

partial_function (option) recv_all :: "('m, 'ch) Channel \<Rightarrow> 'ch \<Rightarrow> ('m list \<times> 'ch) option" where
  "recv_all c ch =
     (case chn_try_recv c ch of
        (ch', None) \<Rightarrow> Some ([], ch')
      | (ch', Some m) \<Rightarrow> Option.bind (recv_all c ch') (\<lambda>(ms, ch''). Some (m # ms, ch'')))"

text \<open>The same equation with the test first, for evaluation.\<close>

lemma recv_all_code [code]:
  "recv_all c ch =
     (if snd (chn_try_recv c ch) = None then Some ([], fst (chn_try_recv c ch))
      else map_option (\<lambda>(ms, ch''). (the (snd (chn_try_recv c ch)) # ms, ch''))
        (recv_all c (fst (chn_try_recv c ch))))"
  by (subst recv_all.simps)
    (auto simp: map_conv_bind_option case_prod_unfold o_def split: prod.split option.split)

definition drain_frames ::
  "(MetricFrame, 'fch) Channel \<Rightarrow> ('ch, 'fch) EventRing \<Rightarrow> (MetricFrame list \<times> ('ch, 'fch) EventRing) option" where
  "drain_frames c r = map_option (\<lambda>(fs, ch). (fs, r\<lparr>rg_frames := ch\<rparr>)) (recv_all c (rg_frames r))"

text \<open>\<^verbatim>\<open>wait_for_one\<close> receives one event, once there is one, and discards it.\<close>

definition wait_for_one :: "(Event, 'ch) Channel \<Rightarrow> ('ch, 'fch) EventRing \<Rightarrow> ('ch, 'fch) EventRing" where
  "wait_for_one c r = r\<lparr>rg_events := fst (chn_try_recv c (rg_events r))\<rparr>"

definition dropped_count :: "('ch, 'fch) EventRing \<Rightarrow> u64" where
  "dropped_count r = rg_dropped r"

definition take_dropped :: "('ch, 'fch) EventRing \<Rightarrow> u64 \<times> ('ch, 'fch) EventRing" where
  "take_dropped r = (rg_dropped r, r\<lparr>rg_dropped := 0\<rparr>)"

definition take_dropped_frames :: "('ch, 'fch) EventRing \<Rightarrow> u64 \<times> ('ch, 'fch) EventRing" where
  "take_dropped_frames r = (rg_dropped_frames r, r\<lparr>rg_dropped_frames := 0\<rparr>)"

section \<open>What the channel promises\<close>

text \<open>
  A bounded first-in first-out channel of which both ends are held: \<open>q\<close> is what it
  contains, a send fails with \<open>Cb_Full\<close> exactly when \<open>cap\<close> messages are queued.
\<close>

locale bounded_fifo =
  fixes c :: "('m, 'ch) Channel" and cap :: nat and q :: "'ch \<Rightarrow> 'm list"
  assumes send_ok: "length (q ch) < cap \<Longrightarrow>
      q (fst (chn_try_send c m ch)) = q ch @ [m] \<and> snd (chn_try_send c m ch) = Inr ()"
    and send_full: "\<not> length (q ch) < cap \<Longrightarrow>
      q (fst (chn_try_send c m ch)) = q ch \<and> snd (chn_try_send c m ch) = Inl (Cb_Full m)"
    and recv_empty: "q ch = [] \<Longrightarrow> snd (chn_try_recv c ch) = None \<and> q (fst (chn_try_recv c ch)) = []"
    and recv_some: "q ch = m # ms \<Longrightarrow> snd (chn_try_recv c ch) = Some m \<and> q (fst (chn_try_recv c ch)) = ms"
begin

lemma recv_up_to_take:
  "fst (recv_up_to c n ch) = take n (q ch) \<and> q (snd (recv_up_to c n ch)) = drop n (q ch)"
proof (induction n arbitrary: ch)
  case (Suc n)
  obtain ch' r where r: "chn_try_recv c ch = (ch', r)" by fastforce
  show ?case
  proof (cases "q ch")
    case Nil
    then show ?thesis using recv_empty [OF Nil] r by simp
  next
    case (Cons m ms)
    then show ?thesis using recv_some [OF Cons] r Suc [of ch'] by (auto split: prod.splits)
  qed
qed simp

lemma recv_all_returns: "\<exists>ch'. recv_all c ch = Some (q ch, ch') \<and> q ch' = []"
proof (induction "q ch" arbitrary: ch)
  case Nil
  obtain ch' r where r: "chn_try_recv c ch = (ch', r)" by fastforce
  then show ?case
    using recv_empty [of ch] Nil by (subst recv_all.simps) auto
next
  case (Cons m ms)
  obtain ch' r where r: "chn_try_recv c ch = (ch', r)" by fastforce
  then have "r = Some m" "q ch' = ms" using recv_some [OF Cons.hyps(2) [symmetric]] by auto
  with r Cons.hyps(1) [of ch'] Cons.hyps(2) [symmetric] show ?case
    by (subst recv_all.simps) auto
qed

end

text \<open>The bounded queue itself, as a channel.\<close>

definition queue_channel :: "nat \<Rightarrow> ('m, 'm list) Channel" where
  "queue_channel cap =
     \<lparr>chn_try_send = \<lambda>m ms. if length ms < cap then (ms @ [m], Inr ()) else (ms, Inl (Cb_Full m)),
      chn_try_recv = \<lambda>ms. case ms of [] \<Rightarrow> ([], None) | m # ms' \<Rightarrow> (ms', Some m)\<rparr>"

interpretation queue: bounded_fifo "queue_channel cap" cap "\<lambda>ms. ms"
  by unfold_locales (simp_all add: queue_channel_def)

section \<open>The event lane is a bounded queue\<close>

text \<open>What the samplers and the uploader do to the event lane.\<close>

datatype lane_op = Lane_Push Event | Lane_Drain nat

fun lane_step ::
  "(Event, 'ch) Channel \<Rightarrow> ('ch, 'fch) EventRing \<times> Event list \<Rightarrow> lane_op \<Rightarrow> ('ch, 'fch) EventRing \<times> Event list" where
  "lane_step c (r, out) (Lane_Push e) = (ring_push c e r, out)"
| "lane_step c (r, out) (Lane_Drain n) = (let (es, r') = drain_up_to c n r in (r', out @ es))"

text \<open>The specification: the queue, the events drained so far and the number dropped.\<close>

fun spec_step :: "nat \<Rightarrow> Event list \<times> Event list \<times> nat \<Rightarrow> lane_op \<Rightarrow> Event list \<times> Event list \<times> nat" where
  "spec_step cap (q, out, d) (Lane_Push e) = (if length q < cap then (q @ [e], out, d) else (q, out, Suc d))"
| "spec_step cap (q, out, d) (Lane_Drain n) = (drop n q, out @ take n q, d)"

fun lane_pushes :: "lane_op list \<Rightarrow> Event list" where
  "lane_pushes [] = []"
| "lane_pushes (Lane_Push e # ops) = e # lane_pushes ops"
| "lane_pushes (Lane_Drain n # ops) = lane_pushes ops"

lemma lane_pushes_append [simp]: "lane_pushes (xs @ ys) = lane_pushes xs @ lane_pushes ys"
  by (induction xs rule: lane_pushes.induct) auto

lemma lane_refines:
  assumes "bounded_fifo c cap q" "q (rg_events r) = []" "rg_dropped r = 0"
  shows "case (foldl (lane_step c) (r, []) ops, foldl (spec_step cap) ([], [], 0) ops) of
    ((r', out), (sq, sout, d)) \<Rightarrow> q (rg_events r') = sq \<and> out = sout \<and> rg_dropped r' = of_nat d"
proof (induction ops rule: rev_induct)
  case Nil
  show ?case using assms(2,3) by simp
next
  case (snoc op ops)
  obtain r' out where s: "foldl (lane_step c) (r, []) ops = (r', out)" by fastforce
  obtain sq sout d where t: "foldl (spec_step cap) ([], [], 0) ops = (sq, sout, d)"
    by (metis prod.exhaust)
  have inv: "q (rg_events r') = sq" "out = sout" "rg_dropped r' = of_nat d"
    using snoc s t by auto
  show ?case
  proof (cases op)
    case (Lane_Push e)
    then show ?thesis
      using inv s t bounded_fifo.send_ok [OF assms(1), of "rg_events r'" e]
        bounded_fifo.send_full [OF assms(1), of "rg_events r'" e]
      by (cases "length sq < cap") (auto simp: ring_push_def Let_def add.commute split: prod.splits)
  next
    case (Lane_Drain n)
    then show ?thesis
      using inv s t bounded_fifo.recv_up_to_take [OF assms(1), of n "rg_events r'"]
      by (auto simp: drain_up_to_def split: prod.splits)
  qed
qed

lemma spec_conservation:
  "case foldl (spec_step cap) ([], [], 0) ops of (q, out, d) \<Rightarrow>
     subseq (out @ q) (lane_pushes ops) \<and> length (lane_pushes ops) = length out + length q + d
     \<and> length q \<le> cap"
proof (induction ops rule: rev_induct)
  case (snoc op ops)
  obtain sq sout d where t: "foldl (spec_step cap) ([], [], 0) ops = (sq, sout, d)"
    by (metis prod.exhaust)
  then have inv: "subseq (sout @ sq) (lane_pushes ops)"
      "length (lane_pushes ops) = length sout + length sq + d" "length sq \<le> cap"
    using snoc by auto
  show ?case
  proof (cases op)
    case (Lane_Push e)
    have "subseq ((sout @ sq) @ [e]) (lane_pushes ops @ [e])"
      using inv(1) by (intro list_emb_append_mono) simp_all
    with Lane_Push inv t show ?thesis by (auto intro: list_emb_append2)
  next
    case (Lane_Drain n)
    with inv t show ?thesis by auto
  qed
qed simp

section \<open>Properties\<close>

text \<open>
  C13: No event disappears without being counted. For every bounded first-in first-out
  channel and every interleaving of pushes and drains, what has been drained followed by
  what is still queued is a subsequence of what was pushed, in the order of the pushes, at
  most the capacity is queued, and the dropped counter is exactly the number of events
  missing (modulo \<open>2 ^ 64\<close>).
\<close>

theorem event_ring_conservation:
  assumes "bounded_fifo c cap q" "q (bounded cap) = []"
  shows "case foldl (lane_step c) (event_ring_new bounded bounded_f cap, []) ops of (r, out) \<Rightarrow>
    subseq (out @ q (rg_events r)) (lane_pushes ops) \<and> length (q (rg_events r)) \<le> cap
    \<and> (\<exists>d. length (lane_pushes ops) = length out + length (q (rg_events r)) + d
         \<and> dropped_count r = of_nat d)"
proof -
  obtain r out where s: "foldl (lane_step c) (event_ring_new bounded bounded_f cap, []) ops = (r, out)"
    by fastforce
  obtain sq sout d where t: "foldl (spec_step cap) ([], [], 0) ops = (sq, sout, d)"
    by (metis prod.exhaust)
  have "q (rg_events (event_ring_new bounded bounded_f cap)) = []"
      "rg_dropped (event_ring_new bounded bounded_f cap) = 0"
    using assms(2) by (simp_all add: event_ring_new_def)
  from lane_refines [OF assms(1) this, of ops] spec_conservation [where cap = cap and ops = ops]
  show ?thesis by (auto simp: s t dropped_count_def)
qed

definition tick_event :: "u64 \<Rightarrow> Event" where
  "tick_event ts = \<lparr>e_ts_ns = ts, e_duration_ns = 0, e_node_id = 1, e_gpu_id = 0, e_pid = 0, e_tid = 0,
     e_ctx_id = 0, e_stream_id = 0, e_category = category_i32 Cat_Kernel, e_name_id = 0,
     e_correlation_id = 0, e_parent_id = 0, e_payload = None\<rparr>"

theorem event_ring_conservation_witness:
  "case foldl (lane_step (queue_channel 2)) (event_ring_new (\<lambda>n. []) (\<lambda>n. ()) 2, [])
      [Lane_Push (tick_event 1), Lane_Push (tick_event 2), Lane_Push (tick_event 3), Lane_Drain 1] of
    (r, out) \<Rightarrow> subseq (out @ rg_events r) [tick_event 1, tick_event 2, tick_event 3]
      \<and> length (rg_events r) \<le> 2
      \<and> (\<exists>d. 3 = length out + length (rg_events r) + d \<and> dropped_count r = of_nat d)"
  using event_ring_conservation [where c = "queue_channel 2" and cap = 2 and q = "\<lambda>ms. ms" and bounded = "\<lambda>n. []" and bounded_f = "\<lambda>n. ()" and ops = "[Lane_Push (tick_event 1), Lane_Push (tick_event 2), Lane_Push (tick_event 3), Lane_Drain 1]"]
    queue.bounded_fifo_axioms [of 2]
  by (simp add: numeral_3_eq_3)

text \<open>
  Draining the frames always ends: for every bounded first-in first-out channel it
  returns all queued frames, oldest first, and leaves the lane empty.
\<close>

theorem drain_frames_returns:
  assumes "bounded_fifo c cap q"
  shows "\<exists>r'. drain_frames c r = Some (q (rg_frames r), r') \<and> q (rg_frames r') = []
    \<and> rg_events r' = rg_events r"
  using bounded_fifo.recv_all_returns [OF assms, of "rg_frames r"] by (auto simp: drain_frames_def)

theorem drain_frames_returns_witness:
  "\<exists>r'. drain_frames (queue_channel 4)
     \<lparr>rg_events = (), rg_frames = [\<lparr>mf_node_id = 1, mf_gpu_id = 0, mf_ts_ns = 5, mf_points = []\<rparr>],
      rg_dropped = 0, rg_dropped_frames = 0\<rparr>
     = Some ([\<lparr>mf_node_id = 1, mf_gpu_id = 0, mf_ts_ns = 5, mf_points = []\<rparr>], r')"
  using drain_frames_returns [OF queue.bounded_fifo_axioms, of 4
      "\<lparr>rg_events = (), rg_frames = [\<lparr>mf_node_id = 1, mf_gpu_id = 0, mf_ts_ns = 5, mf_points = []\<rparr>],
        rg_dropped = 0, rg_dropped_frames = 0\<rparr>"]
  by auto

text \<open>
  Waiting for an event loses it: on a non-empty lane \<^verbatim>\<open>wait_for_one\<close> takes the oldest
  event off the channel without returning it and without counting it as dropped.
\<close>

theorem wait_for_one_discards:
  assumes "bounded_fifo c cap q" "q (rg_events r) = e # es"
  shows "q (rg_events (wait_for_one c r)) = es \<and> dropped_count (wait_for_one c r) = dropped_count r"
  using bounded_fifo.recv_some [OF assms] by (simp add: wait_for_one_def dropped_count_def)

theorem wait_for_one_discards_witness:
  "rg_events (wait_for_one (queue_channel 4)
     \<lparr>rg_events = [tick_event 1, tick_event 2], rg_frames = (), rg_dropped = 0, rg_dropped_frames = 0\<rparr>)
   = [tick_event 2]"
  using wait_for_one_discards [OF queue.bounded_fifo_axioms, of
      "\<lparr>rg_events = [tick_event 1, tick_event 2], rg_frames = (), rg_dropped = 0, rg_dropped_frames = 0\<rparr>"]
  by simp

end
