(* ===== verification/Clock_Sync.thy ===== *)
theory Clock_Sync
  imports Skew
begin

text \<open>
  The agent's clock alignment, \<^verbatim>\<open>crates/perfweave-agent/src/clock_sync.rs\<close>: one
  measurement round, the shared offset and its wire form. The readings of the two clocks
  are arguments. The lemmas give what a round keeps and returns, and relate the agent's map
  to the map of the collector that receives the wire form.
\<close>

section \<open>Model\<close>

text \<open>One turn of the sampling loop: host clock, source clock, host clock.\<close>

record Reading =
  rd_before :: u64
  rd_src :: u64
  rd_after :: u64

datatype panic = IndexOutOfBounds

definition latency :: "Reading \<Rightarrow> u64" where
  "latency r = sat_sub (rd_after r) (rd_before r)"

definition pair_of :: "Reading \<Rightarrow> Pair" where
  "pair_of r = \<lparr>p_src_ns = rd_src r, p_host_ns = rd_before r + latency r div 2\<rparr>"

definition cutoff_of :: "u64 list \<Rightarrow> panic + u64" where
  "cutoff_of latencies =
     (let sorted_lat = sort latencies; i = length sorted_lat * 9 div 10
      in if i < length sorted_lat then Inr (sorted_lat ! i) else Inl IndexOutOfBounds)"

definition keep_below :: "u64 \<Rightarrow> Pair list \<Rightarrow> u64 list \<Rightarrow> Pair list" where
  "keep_below cutoff pairs latencies =
     map fst (filter (\<lambda>(_, l). l \<le> cutoff) (zip pairs latencies))"

text \<open>
  \<^verbatim>\<open>measure\<close>, with the warning for a large residual as the second component of the
  result.
\<close>

definition clock_measure ::
  "u64 \<Rightarrow> Reading list \<Rightarrow> u64 \<Rightarrow> panic + (ClockOffset \<times> bool) option" where
  "clock_measure now readings max_residual_ns =
     (let pairs = map pair_of readings; latencies = map latency readings in
      case cutoff_of latencies of
        Inl p \<Rightarrow> Inl p
      | Inr cutoff \<Rightarrow>
          Inr (case fit_theil_sen now (keep_below cutoff pairs latencies) of
                 None \<Rightarrow> None
               | Some fit \<Rightarrow> Some (fit, max_residual_ns < clk_residual_max_ns fit)))"

text \<open>The handle is a cell; \<^verbatim>\<open>current\<close> reads it and \<^verbatim>\<open>set\<close> writes it.\<close>

record OffsetHandle =
  oh_inner :: ClockOffset

definition handle_new :: "ClockOffset \<Rightarrow> OffsetHandle" where
  "handle_new c = \<lparr>oh_inner = c\<rparr>"

definition handle_default :: OffsetHandle where
  "handle_default = handle_new IDENTITY"

definition current :: "OffsetHandle \<Rightarrow> ClockOffset" where
  "current h = oh_inner h"

definition handle_set :: "OffsetHandle \<Rightarrow> ClockOffset \<Rightarrow> OffsetHandle" where
  "handle_set h c = h\<lparr>oh_inner := c\<rparr>"

definition latest_proto :: "OffsetHandle \<Rightarrow> u32 \<Rightarrow> ClockOffsetMsg option" where
  "latest_proto h node_id =
     (let c = current h in
      if clk_offset_ns c = 0 \<and> clk_slope_num c = clk_slope_den c \<and> clk_residual_max_ns c = 0
      then None
      else Some \<lparr>co_node_id = node_id, co_gpu_id = 0,
                 co_offset_ns = as_u64 (clk_offset_ns c), co_slope_num = as_u64 (clk_slope_num c),
                 co_slope_den = as_u64 (clk_slope_den c),
                 co_residual_max_ns = clk_residual_max_ns c\<rparr>)"

section \<open>A measurement round\<close>

lemma nine_tenths: "0 < n \<Longrightarrow> n * 9 div 10 < (n :: nat)"
  by arith

lemma cutoff_defined: "xs \<noteq> [] \<Longrightarrow> cutoff_of xs = Inr (sort xs ! (length xs * 9 div 10))"
  using nine_tenths [of "length xs"] by (simp add: cutoff_of_def Let_def)

lemma keep_below_readings:
  "keep_below c (map pair_of rs) (map latency rs) = map pair_of (filter (\<lambda>r. latency r \<le> c) rs)"
  by (induction rs) (simp_all add: keep_below_def)

text \<open>The elements up to position \<open>i\<close> of a sorted list are at most the one there.\<close>

lemma sorted_rank:
  fixes xs :: "'a::linorder list"
  assumes "i < length xs"
  shows "i < length (filter (\<lambda>x. x \<le> sort xs ! i) xs)"
proof -
  let ?ys = "sort xs"
  have "x \<le> ?ys ! i" if "x \<in> set (take (Suc i) ?ys)" for x
  proof -
    from that obtain j where "j < Suc i" "j < length xs" "x = ?ys ! j"
      by (auto simp: in_set_conv_nth)
    then show ?thesis using assms by (simp add: sorted_nth_mono)
  qed
  then have "filter (\<lambda>x. x \<le> ?ys ! i) (take (Suc i) ?ys) = take (Suc i) ?ys"
    by (simp add: filter_id_conv)
  then have "Suc i \<le> length (filter (\<lambda>x. x \<le> ?ys ! i) (take (Suc i) ?ys @ drop (Suc i) ?ys))"
    using assms by (simp del: append_take_drop_id)
  also have "\<dots> = length (filter (\<lambda>x. x \<le> ?ys ! i) ?ys)" by simp
  also have "\<dots> = length (filter (\<lambda>x. x \<le> ?ys ! i) xs)"
    by (metis mset_filter mset_sort size_mset)
  finally show ?thesis by simp
qed

text \<open>At most \<open>i\<close> elements are below it.\<close>

lemma sorted_rank_below:
  fixes xs :: "'a::linorder list"
  assumes "i < length xs"
  shows "length (filter (\<lambda>x. x < sort xs ! i) xs) \<le> i"
proof -
  let ?ys = "sort xs"
  have "?ys ! i \<le> x" if "x \<in> set (drop i ?ys)" for x
  proof -
    from that obtain j where "j < length (drop i ?ys)" "x = ?ys ! (i + j)"
      by (auto simp: in_set_conv_nth)
    then show ?thesis by (auto intro: sorted_nth_mono)
  qed
  then have "filter (\<lambda>x. x < ?ys ! i) (drop i ?ys) = []" by (force simp: filter_empty_conv)
  then have "length (filter (\<lambda>x. x < ?ys ! i) (take i ?ys @ drop i ?ys)) \<le> length (take i ?ys)"
    unfolding filter_append by (simp only: append_Nil2 length_filter_le)
  then have "length (filter (\<lambda>x. x < ?ys ! i) ?ys) \<le> i" using assms by simp
  then show ?thesis by (metis mset_filter mset_sort size_mset)
qed

lemma kept_readings:
  assumes "rs \<noteq> []"
  shows "length rs * 9 div 10
    < length (filter (\<lambda>r. latency r \<le> sort (map latency rs) ! (length rs * 9 div 10)) rs)"
    "length (filter (\<lambda>r. latency r < sort (map latency rs) ! (length rs * 9 div 10)) rs)
    \<le> length rs * 9 div 10"
  using sorted_rank [of "length rs * 9 div 10" "map latency rs"] assms nine_tenths [of "length rs"]
    sorted_rank_below [of "length rs * 9 div 10" "map latency rs"]
  by (simp_all add: filter_map o_def)

text \<open>
  A measurement round of \<open>n \<ge> 1\<close> readings never panics. It fits the readings up to a
  latency that more than \<open>9 n / 10\<close> of them do not exceed and at most \<open>9 n / 10\<close> are below,
  so those it leaves out took longer than every one it fits. With no readings it indexes an
  empty vector and panics.
\<close>

theorem measure_keeps_fast_readings:
  "clock_measure now [] bound = Inl IndexOutOfBounds
   \<and> (rs \<noteq> [] \<longrightarrow>
       (\<exists>cutoff. clock_measure now rs bound =
           Inr (map_option (\<lambda>fit. (fit, bound < clk_residual_max_ns fit))
                  (fit_theil_sen now (map pair_of (filter (\<lambda>r. latency r \<le> cutoff) rs))))
         \<and> length rs * 9 div 10 < length (filter (\<lambda>r. latency r \<le> cutoff) rs)
         \<and> length (filter (\<lambda>r. latency r < cutoff) rs) \<le> length rs * 9 div 10))"
proof (intro conjI impI)
  show "clock_measure now [] bound = Inl IndexOutOfBounds"
    by (simp add: clock_measure_def cutoff_of_def Let_def)
  assume ne: "rs \<noteq> []"
  let ?c = "sort (map latency rs) ! (length rs * 9 div 10)"
  show "\<exists>cutoff. clock_measure now rs bound =
           Inr (map_option (\<lambda>fit. (fit, bound < clk_residual_max_ns fit))
                  (fit_theil_sen now (map pair_of (filter (\<lambda>r. latency r \<le> cutoff) rs))))
         \<and> length rs * 9 div 10 < length (filter (\<lambda>r. latency r \<le> cutoff) rs)
         \<and> length (filter (\<lambda>r. latency r < cutoff) rs) \<le> length rs * 9 div 10"
    using kept_readings [OF ne] ne
    by (intro exI [of _ ?c])
      (auto simp: clock_measure_def Let_def cutoff_defined keep_below_readings split: option.splits)
qed

definition reading_at :: "u64 \<Rightarrow> u64 \<Rightarrow> u64 \<Rightarrow> Reading" where
  "reading_at b s a = \<lparr>rd_before = b, rd_src = s, rd_after = a\<rparr>"

theorem measure_keeps_fast_readings_witness:
  "\<exists>cutoff. clock_measure 0 [reading_at 10 5 12, reading_at 20 15 22] 100 =
       Inr (map_option (\<lambda>fit. (fit, 100 < clk_residual_max_ns fit))
         (fit_theil_sen 0 (map pair_of (filter (\<lambda>r. latency r \<le> cutoff)
            [reading_at 10 5 12, reading_at 20 15 22]))))
     \<and> 1 < length (filter (\<lambda>r. latency r \<le> cutoff) [reading_at 10 5 12, reading_at 20 15 22])
     \<and> length (filter (\<lambda>r. latency r < cutoff) [reading_at 10 5 12, reading_at 20 15 22]) \<le> 1"
  using measure_keeps_fast_readings [of 0 100 "[reading_at 10 5 12, reading_at 20 15 22]"] by simp

section \<open>The agent's map and the collector's\<close>

lemma uint_as_u64: "0 \<le> n \<Longrightarrow> n < 2 ^ 64 \<Longrightarrow> uint (as_u64 n) = n"
  by (simp add: as_u64_def uint_word_of_int)

lemma as_u64_cast: "as_u64 (uint (as_u64 n) + m) = as_u64 (n + m)"
  by (simp add: as_u64_def)

lemma as_u64_max: "as_u64 (max n 0) = (if 0 \<le> n then as_u64 n else 0)"
  by (simp add: as_u64_def)

text \<open>The collector's map after it has absorbed the agent's wire offset.\<close>

lemma skew_map_proto:
  assumes "clock_ok c" "0 \<le> clk_slope_num c" "clk_slope_den c < 2 ^ 64"
    and "latest_proto (handle_new c) node = Some m"
  shows "skew_map (skew_upsert now t m) node 0 src =
      as_u64 (affine (clk_offset_ns c) (clk_slope_num c) (clk_slope_den c) (uint src))"
proof -
  let ?e = "skew_entry now m" and ?a = "affine (clk_offset_ns c) (clk_slope_num c) (clk_slope_den c) (uint src)"
  have c: "clk_slope_num c < 2 ^ 62" "0 < clk_slope_den c"
    using assms(1) unfolding clock_ok_def by linarith+
  have m: "co_node_id m = node" "co_gpu_id m = 0" "co_offset_ns m = as_u64 (clk_offset_ns c)"
    "co_slope_num m = as_u64 (clk_slope_num c)" "co_slope_den m = as_u64 (clk_slope_den c)"
    using assms(4) by (auto simp: latest_proto_def current_def handle_new_def Let_def split: if_splits)
  have num: "en_slope_num ?e = clk_slope_num c"
    using m assms(2) c(1) by (simp add: skew_entry_def uint_as_u64)
  have den: "en_slope_den ?e = clk_slope_den c"
    using m assms(3) c(2) by (simp add: skew_entry_def uint_as_u64)
  have "\<bar>clk_slope_num c * uint src\<bar> < 2 ^ 126"
    using assms(2) c(1) by (intro product_bound) simp
  then have p: "en_slope_num ?e * uint src < 2 ^ 126" unfolding num by linarith
  have "skew_map (skew_upsert now t m) node 0 src =
      as_u64 (en_offset_ns ?e + (clk_slope_num c * uint src) div clk_slope_den c)"
    using skew_map_entry [OF _ entry_ok_entry p, of "skew_upsert now t m" node 0] m num den
    by (simp add: skew_upsert_def)
  also have "\<dots> = as_u64 ?a"
    using m assms(2) c(2) by (simp add: skew_entry_def as_u64_cast affine_def trunc_div_nonneg)
  finally show ?thesis .
qed

text \<open>
  C6: The collector reproduces the agent's correction from the wire form. For an offset
  within the bounds of the fit, a positive slope and GPU 0, the collector's map of any
  source time after absorbing the agent's wire offset equals the agent's own map whenever
  the corrected time is not negative, even though a negative offset travels as an unsigned
  number. When the corrected time is negative the two differ: the agent clamps it to zero,
  the collector returns it modulo \<open>2 ^ 64\<close>.
\<close>

theorem server_map_matches_agent:
  assumes "clock_ok c" "0 \<le> clk_slope_num c" "clk_slope_den c < 2 ^ 64"
    and "latest_proto (handle_new c) node = Some m"
  shows "clock_map c src = Some (if 0 \<le> affine (clk_offset_ns c) (clk_slope_num c) (clk_slope_den c) (uint src)
      then skew_map (skew_upsert now t m) node 0 src else 0)
    \<and> skew_map (skew_upsert now t m) node 0 src =
      as_u64 (affine (clk_offset_ns c) (clk_slope_num c) (clk_slope_den c) (uint src))"
  using skew_map_proto [OF assms] clock_map_affine [OF assms(1), of src] by (simp add: as_u64_max)

text \<open>A clock 500 ns ahead of host time: source time 1000 agrees, source time 100 does not.\<close>

definition ahead_clock :: ClockOffset where
  "ahead_clock = \<lparr>clk_offset_ns = - 500, clk_slope_num = 1, clk_slope_den = 1,
                  clk_residual_max_ns = 3, clk_fitted_at_host_ns = 0\<rparr>"

definition ahead_msg :: ClockOffsetMsg where
  "ahead_msg = \<lparr>co_node_id = 1, co_gpu_id = 0, co_offset_ns = - 500, co_slope_num = 1,
                co_slope_den = 1, co_residual_max_ns = 3\<rparr>"

lemma ahead_proto: "latest_proto (handle_new ahead_clock) 1 = Some ahead_msg"
  by code_simp

theorem server_map_matches_agent_witness:
  "clock_map ahead_clock 1000 = Some (skew_map (skew_upsert 0 skew_new ahead_msg) 1 0 1000)
   \<and> clock_map ahead_clock 100 = Some 0
   \<and> skew_map (skew_upsert 0 skew_new ahead_msg) 1 0 100 = as_u64 (- 400)"
  using server_map_matches_agent [OF _ _ _ ahead_proto, of 1000 0 skew_new]
    server_map_matches_agent [OF _ _ _ ahead_proto, of 100 0 skew_new]
  by (simp add: ahead_clock_def clock_ok_def affine_def)

text \<open>An identity offset is not sent, and the collector then leaves time stamps alone.\<close>

lemma identity_not_sent: "latest_proto handle_default node = None"
  by (simp add: latest_proto_def handle_default_def handle_new_def current_def IDENTITY_def Let_def)

lemma handle_set_current: "current (handle_set h c) = c"
  by (simp add: current_def handle_set_def)

end
