(* ===== verification/Intern.thy ===== *)
theory Intern
  imports Proto
begin

text \<open>
  String interning, \<^verbatim>\<open>crates/perfweave-common/src/intern.rs\<close>. The hash
  \<^verbatim>\<open>xxh3_64\<close> comes from a library and is a parameter. The lemmas show that every
  name is announced with its text exactly once between two resets.
\<close>

section \<open>Model\<close>

record Interner =
  int_seen :: "u64 set"

definition interner_new :: Interner where
  "interner_new = \<lparr>int_seen = {}\<rparr>"

definition intern_hash :: "(string \<Rightarrow> u64) \<Rightarrow> string \<Rightarrow> u64" where
  "intern_hash xxh3_64 s = xxh3_64 s"

definition interner_record ::
  "(string \<Rightarrow> u64) \<Rightarrow> Interner \<Rightarrow> string \<Rightarrow> Interner \<times> u64 \<times> StringIntern option" where
  "interner_record xxh3_64 i text =
     (let id = intern_hash xxh3_64 text in
      if id \<notin> int_seen i
      then (i\<lparr>int_seen := insert id (int_seen i)\<rparr>, id, Some \<lparr>si_id = id, si_text = text\<rparr>)
      else (i, id, None))"

definition interner_reset :: "Interner \<Rightarrow> Interner" where
  "interner_reset i = i\<lparr>int_seen := {}\<rparr>"

text \<open>Recording the names of a stream of events, one after the other.\<close>

fun record_all ::
  "(string \<Rightarrow> u64) \<Rightarrow> Interner \<Rightarrow> string list \<Rightarrow> Interner \<times> (u64 \<times> StringIntern option) list" where
  "record_all h i [] = (i, [])"
| "record_all h i (s # ss) =
     (let (i', r) = interner_record h i s; (i'', rs) = record_all h i' ss in (i'', r # rs))"

definition announced :: "(u64 \<times> StringIntern option) list \<Rightarrow> StringIntern list" where
  "announced rs = List.map_filter snd rs"

section \<open>Properties\<close>

lemma announced_simps [simp]:
  "announced [] = []" "announced ((x, None) # rs) = announced rs"
  "announced ((x, Some r) # rs) = r # announced rs"
  by (simp_all add: announced_def List.map_filter_def)

lemma record_all_from:
  "fst (record_all h i ss) = i\<lparr>int_seen := int_seen i \<union> h ` set ss\<rparr>
   \<and> map fst (snd (record_all h i ss)) = map h ss
   \<and> distinct (map si_id (announced (snd (record_all h i ss))))
   \<and> si_id ` set (announced (snd (record_all h i ss))) = h ` set ss - int_seen i
   \<and> (\<forall>r \<in> set (announced (snd (record_all h i ss))). si_text r \<in> set ss \<and> si_id r = h (si_text r))"
proof (induction ss arbitrary: i)
  case (Cons s ss)
  show ?case
  proof (cases "h s \<in> int_seen i")
    case True
    then show ?thesis
      using Cons.IH [of i]
      by (auto simp: interner_record_def intern_hash_def Let_def insert_absorb split: prod.splits)
  next
    case False
    let ?i = "i\<lparr>int_seen := insert (h s) (int_seen i)\<rparr>"
    show ?thesis
      using Cons.IH [of ?i] False
      by (auto simp: interner_record_def intern_hash_def Let_def split: prod.splits)
  qed
qed simp

text \<open>
  Whatever the hash function, recording any names on a new or just reset interner
  returns the hash of each name and announces every distinct id exactly once, together
  with a text among the names that has this id.
\<close>

theorem interner_announces_once:
  "map fst (snd (record_all h (interner_reset i) ss)) = map h ss
   \<and> distinct (map si_id (announced (snd (record_all h (interner_reset i) ss))))
   \<and> si_id ` set (announced (snd (record_all h (interner_reset i) ss))) = h ` set ss
   \<and> si_text ` set (announced (snd (record_all h (interner_reset i) ss))) \<subseteq> set ss"
  using record_all_from [of h "interner_reset i" ss] by (auto simp: interner_reset_def)

end
