(* ===== verification/Uploader.thy ===== *)
theory Uploader
  imports Event_Ring Clock_Sync Intern
begin

text \<open>
  The agent's uploader, \<^verbatim>\<open>crates/perfweave-agent/src/grpc_client.rs\<close>: the reconnect loop
  with exponential back-off, and a session that drains the ring, corrects time stamps and
  sends batches. What the network does is part of the input. The lemmas give the content of
  every batch and the sequence of back-off times.
\<close>

section \<open>Model\<close>

record UploaderConfig =
  uc_collector_url :: string
  uc_hostname :: string
  uc_node_id :: u32
  uc_num_gpus :: u32
  uc_max_batch_events :: nat
  uc_flush_interval_ms :: u64
  uc_agent_rpc_addr :: string

definition agent_hello :: "string \<Rightarrow> UploaderConfig \<Rightarrow> AgentHello" where
  "agent_hello version cfg =
     \<lparr>ah_node_id = uc_node_id cfg, ah_hostname = uc_hostname cfg, ah_agent_version = version,
      ah_num_gpus = uc_num_gpus cfg, ah_device_peaks = [], ah_agent_rpc_addr = uc_agent_rpc_addr cfg\<rparr>"

text \<open>The agent's state: the ring, the interner, the offset, and the batches sent.\<close>

record ('ch, 'fch) AgentState =
  ag_ring :: "('ch, 'fch) EventRing"
  ag_interner :: Interner
  ag_offsets :: OffsetHandle
  ag_sent :: "Batch list"

text \<open>Kernel, API and copy events are in GPU time; \<open>None\<close> is a panic of the map.\<close>

definition correct_event :: "ClockOffset \<Rightarrow> Event \<Rightarrow> Event option" where
  "correct_event off e =
     (if e_category e = category_i32 Cat_Kernel \<or> e_category e = category_i32 Cat_ApiCall
         \<or> e_category e = category_i32 Cat_Memcpy
      then map_option (\<lambda>ts. e\<lparr>e_ts_ns := ts\<rparr>) (clock_map off (e_ts_ns e)) else Some e)"

fun intern_units :: "(string \<Rightarrow> u64) \<Rightarrow> Interner \<Rightarrow> Event list \<Rightarrow> Interner \<times> StringIntern list" where
  "intern_units h i [] = (i, [])"
| "intern_units h i (e # es) =
     (case e_payload e of
        Some (Payload_Metric m) \<Rightarrow>
          if ms_unit m = '''' then intern_units h i es
          else let (i', _, rec) = interner_record h i (ms_unit m); (i'', rs) = intern_units h i' es
               in (i'', case rec of Some r \<Rightarrow> r # rs | None \<Rightarrow> rs)
      | _ \<Rightarrow> intern_units h i es)"

datatype flush_result = Flushed | Nothing_To_Send | Send_Failed | Flush_Panic

text \<open>The flush tick; \<open>send_ok\<close> is the result of handing the batch to the stream.\<close>

definition flush_tick ::
  "(Event, 'ch) Channel \<Rightarrow> (MetricFrame, 'fch) Channel \<Rightarrow> (string \<Rightarrow> u64) \<Rightarrow> UploaderConfig \<Rightarrow> bool
     \<Rightarrow> ('ch, 'fch) AgentState \<Rightarrow> ('ch, 'fch) AgentState \<times> flush_result" where
  "flush_tick ec fc h cfg send_ok st =
     (let (events, ring1) = drain_up_to ec (uc_max_batch_events cfg) (ag_ring st) in
      case drain_frames fc ring1 of
        None \<Rightarrow> (st, Flush_Panic)
      | Some (frames, ring2) \<Rightarrow>
          let st1 = st\<lparr>ag_ring := ring2\<rparr> in
          if events = [] \<and> frames = [] then (st1, Nothing_To_Send)
          else case those (map (correct_event (current (ag_offsets st))) events) of
            None \<Rightarrow> (st1, Flush_Panic)
          | Some corrected \<Rightarrow>
              let (i, strings) = intern_units h (ag_interner st1) corrected;
                  offsets = (case latest_proto (ag_offsets st1) (uc_node_id cfg) of Some o' \<Rightarrow> [o'] | None \<Rightarrow> []);
                  batch = \<lparr>b_events = corrected, b_strings = strings, b_offsets = offsets,
                           b_metric_frames = frames\<rparr>;
                  st2 = st1\<lparr>ag_interner := i\<rparr>
              in if send_ok then (st2\<lparr>ag_sent := ag_sent st2 @ [batch]\<rparr>, Flushed) else (st2, Send_Failed))"

datatype session_event =
  Sess_Shutdown bool | Sess_Flush bool | Sess_Ack Ack | Sess_End | Sess_Error | Sess_Dropped_Tick

datatype session_result = Session_Ok | Session_Err | Session_Panic | Session_Open

text \<open>The loop of a session over the events that wake it; \<open>Session_Open\<close> when none is left.\<close>

fun session_loop ::
  "(Event, 'ch) Channel \<Rightarrow> (MetricFrame, 'fch) Channel \<Rightarrow> (string \<Rightarrow> u64) \<Rightarrow> UploaderConfig
     \<Rightarrow> session_event list \<Rightarrow> ('ch, 'fch) AgentState \<Rightarrow> ('ch, 'fch) AgentState \<times> session_result" where
  "session_loop ec fc h cfg [] st = (st, Session_Open)"
| "session_loop ec fc h cfg (Sess_Shutdown b # evs) st =
     (if b then (st, Session_Ok) else session_loop ec fc h cfg evs st)"
| "session_loop ec fc h cfg (Sess_Flush send_ok # evs) st =
     (case flush_tick ec fc h cfg send_ok st of
        (st', Flush_Panic) \<Rightarrow> (st', Session_Panic)
      | (st', Send_Failed) \<Rightarrow> (st', Session_Err)
      | (st', _) \<Rightarrow> session_loop ec fc h cfg evs st')"
| "session_loop ec fc h cfg (Sess_Ack a # evs) st = session_loop ec fc h cfg evs st"
| "session_loop ec fc h cfg (Sess_End # evs) st = (st, Session_Err)"
| "session_loop ec fc h cfg (Sess_Error # evs) st = (st, Session_Err)"
| "session_loop ec fc h cfg (Sess_Dropped_Tick # evs) st =
     session_loop ec fc h cfg evs
       (st\<lparr>ag_ring := snd (take_dropped_frames (snd (take_dropped (ag_ring st))))\<rparr>)"

text \<open>\<^verbatim>\<open>run_session\<close> first registers and opens the stream; \<open>setup_ok\<close> says whether both succeed.\<close>

definition run_session ::
  "(Event, 'ch) Channel \<Rightarrow> (MetricFrame, 'fch) Channel \<Rightarrow> (string \<Rightarrow> u64) \<Rightarrow> UploaderConfig \<Rightarrow> bool
     \<Rightarrow> session_event list \<Rightarrow> ('ch, 'fch) AgentState \<Rightarrow> ('ch, 'fch) AgentState \<times> session_result" where
  "run_session ec fc h cfg setup_ok evs st =
     (if setup_ok then session_loop ec fc h cfg evs st else (st, Session_Err))"

text \<open>One turn of the outer loop: the shutdown flag, and what connecting leads to.\<close>

datatype turn = Turn_Shutdown | Turn_Connect_Failed | Turn_Connected bool "session_event list"

fun uploader_run ::
  "(Event, 'ch) Channel \<Rightarrow> (MetricFrame, 'fch) Channel \<Rightarrow> (string \<Rightarrow> u64) \<Rightarrow> UploaderConfig \<Rightarrow> u64
     \<Rightarrow> turn list \<Rightarrow> ('ch, 'fch) AgentState \<Rightarrow> ('ch, 'fch) AgentState \<times> u64 list" where
  "uploader_run ec fc h cfg backoff_ms [] st = (st, [])"
| "uploader_run ec fc h cfg backoff_ms (Turn_Shutdown # ts) st = (st, [])"
| "uploader_run ec fc h cfg backoff_ms (Turn_Connect_Failed # ts) st =
     (let (st', sleeps) = uploader_run ec fc h cfg (min (backoff_ms * 2) 10000) ts st
      in (st', backoff_ms # sleeps))"
| "uploader_run ec fc h cfg backoff_ms (Turn_Connected setup_ok evs # ts) st =
     (case run_session ec fc h cfg setup_ok evs st of
        (st1, Session_Err) \<Rightarrow>
          let st2 = st1\<lparr>ag_interner := interner_reset (ag_interner st1)\<rparr>;
              (st3, sleeps) = uploader_run ec fc h cfg 250 ts st2
          in (st3, 500 # sleeps)
      | (st1, _) \<Rightarrow> (st1, []))"

definition upload ::
  "(Event, 'ch) Channel \<Rightarrow> (MetricFrame, 'fch) Channel \<Rightarrow> (string \<Rightarrow> u64) \<Rightarrow> UploaderConfig
     \<Rightarrow> turn list \<Rightarrow> ('ch, 'fch) AgentState \<Rightarrow> ('ch, 'fch) AgentState \<times> u64 list" where
  "upload ec fc h cfg turns st = uploader_run ec fc h cfg 250 turns st"

section \<open>Back-off\<close>

text \<open>The back-off after \<open>i\<close> failures in a row, in milliseconds.\<close>

definition backoff_after :: "nat \<Rightarrow> nat" where
  "backoff_after i = min (250 * 2 ^ i) 10000"

lemma backoff_after_Suc: "backoff_after (Suc i) = min (backoff_after i * 2) 10000"
  by (simp add: backoff_after_def min_def)

lemma backoff_word: "min (of_nat (backoff_after i) * 2) (10000 :: u64) = of_nat (backoff_after (Suc i))"
proof -
  have b: "backoff_after i \<le> 10000" by (simp add: backoff_after_def)
  have u: "(of_nat (backoff_after i) :: u64) * 2 = of_nat (backoff_after i * 2)" by simp
  have "unat (of_nat (backoff_after i * 2) :: u64) = backoff_after i * 2"
    using b by (simp only: unat_of_nat) simp
  then show ?thesis
    unfolding u by (auto simp: min_def word_le_nat_alt backoff_after_Suc)
qed

lemma uploader_sleeps:
  "snd (uploader_run ec fc h cfg (of_nat (backoff_after i)) (replicate n Turn_Connect_Failed @ ts) st) =
     map (\<lambda>j. of_nat (backoff_after j)) [i..<i + n]
     @ snd (uploader_run ec fc h cfg (of_nat (backoff_after (i + n))) ts st)"
proof (induction n arbitrary: i)
  case (Suc n)
  then show ?case
    using Suc [of "Suc i"] by (simp add: backoff_word case_prod_unfold upt_conv_Cons del: upt_Suc)
qed simp

section \<open>Properties\<close>

text \<open>
  The back-off doubles from 250 ms and stops growing at ten seconds: while the collector
  is unreachable from the start, the \<open>j\<close>-th wait is \<open>min (250 * 2 ^ j) 10000\<close> milliseconds,
  with no overflow however often it fails.
\<close>

theorem backoff_doubles:
  "snd (upload ec fc h cfg (replicate n Turn_Connect_Failed) st) =
     map (\<lambda>j. of_nat (min (250 * 2 ^ j) 10000)) [0..<n]"
  using uploader_sleeps [of ec fc h cfg 0 n "[]" st]
  by (simp add: upload_def backoff_after_def)

text \<open>Correcting events never panics for an offset within the bounds of the fit.\<close>

definition corrected :: "ClockOffset \<Rightarrow> Event \<Rightarrow> Event" where
  "corrected off e = the (correct_event off e)"

lemma correct_event_Some: "clock_ok off \<Longrightarrow> correct_event off e = Some (corrected off e)"
  by (simp add: correct_event_def corrected_def clock_map_affine)

lemma those_correct: "clock_ok off \<Longrightarrow> those (map (correct_event off) es) = Some (map (corrected off) es)"
  by (induction es) (simp_all add: correct_event_Some)

lemma flush_batch:
  assumes "bounded_fifo ec cap q" "bounded_fifo fc fcap fq" "clock_ok (current (ag_offsets st))"
    and "q (rg_events (ag_ring st)) \<noteq> [] \<or> fq (rg_frames (ag_ring st)) \<noteq> []" "0 < uc_max_batch_events cfg"
  shows "\<exists>st' b. flush_tick ec fc h cfg True st = (st', Flushed) \<and> ag_sent st' = ag_sent st @ [b]
    \<and> b_events b = map (corrected (current (ag_offsets st)))
        (take (uc_max_batch_events cfg) (q (rg_events (ag_ring st))))
    \<and> b_metric_frames b = fq (rg_frames (ag_ring st))
    \<and> b_offsets b = (case latest_proto (ag_offsets st) (uc_node_id cfg) of Some m \<Rightarrow> [m] | None \<Rightarrow> [])
    \<and> q (rg_events (ag_ring st')) = drop (uc_max_batch_events cfg) (q (rg_events (ag_ring st)))
    \<and> fq (rg_frames (ag_ring st')) = []"
proof -
  let ?n = "uc_max_batch_events cfg" and ?r = "ag_ring st"
  obtain es r1 where d: "drain_up_to ec ?n ?r = (es, r1)" by fastforce
  have es: "es = take ?n (q (rg_events ?r))" "q (rg_events r1) = drop ?n (q (rg_events ?r))"
      "rg_frames r1 = rg_frames ?r"
    using d bounded_fifo.recv_up_to_take [OF assms(1), of ?n "rg_events ?r"]
    by (auto simp: drain_up_to_def split: prod.splits)
  obtain ch where "recv_all fc (rg_frames r1) = Some (fq (rg_frames r1), ch)" "fq ch = []"
    using bounded_fifo.recv_all_returns [OF assms(2)] by blast
  then have f: "drain_frames fc r1 = Some (fq (rg_frames ?r), r1\<lparr>rg_frames := ch\<rparr>)" "fq ch = []"
    by (simp_all add: drain_frames_def es(3))
  have ne: "\<not> (es = [] \<and> fq (rg_frames ?r) = [])" using assms(4,5) es(1) by auto
  show ?thesis
    using those_correct [OF assms(3)] ne es f(2)
    by (auto simp: flush_tick_def d f(1) Let_def case_prod_unfold)
qed

text \<open>
  What one flush sends. For bounded first-in first-out channels and an offset within
  the bounds of the fit, a flush with something to send sends one batch: the oldest events,
  at most the configured number of them, in order and with the GPU time stamps corrected by
  the current offset, every queued metric frame, and the offset itself unless it is the
  identity. The events beyond the limit stay in the ring.
\<close>

theorem flush_sends_oldest:
  assumes "bounded_fifo ec cap q" "bounded_fifo fc fcap fq" "clock_ok (current (ag_offsets st))"
    and "q (rg_events (ag_ring st)) \<noteq> [] \<or> fq (rg_frames (ag_ring st)) \<noteq> []" "0 < uc_max_batch_events cfg"
  shows "\<exists>st' b. flush_tick ec fc h cfg True st = (st', Flushed) \<and> ag_sent st' = ag_sent st @ [b]
    \<and> b_events b = map (corrected (current (ag_offsets st)))
        (take (uc_max_batch_events cfg) (q (rg_events (ag_ring st))))
    \<and> b_metric_frames b = fq (rg_frames (ag_ring st))
    \<and> b_offsets b = (case latest_proto (ag_offsets st) (uc_node_id cfg) of Some m \<Rightarrow> [m] | None \<Rightarrow> [])
    \<and> q (rg_events (ag_ring st')) = drop (uc_max_batch_events cfg) (q (rg_events (ag_ring st)))
    \<and> fq (rg_frames (ag_ring st')) = []"
  using assms by (rule flush_batch)

definition agent0 :: "(Event list, MetricFrame list) AgentState" where
  "agent0 = \<lparr>ag_ring = \<lparr>rg_events = [tick_event 100, tick_event 200], rg_frames = [], rg_dropped = 0,
               rg_dropped_frames = 0\<rparr>,
             ag_interner = interner_new, ag_offsets = handle_new sample_clock, ag_sent = []\<rparr>"

definition uploader_cfg0 :: UploaderConfig where
  "uploader_cfg0 = \<lparr>uc_collector_url = '''', uc_hostname = '''', uc_node_id = 1, uc_num_gpus = 1,
                    uc_max_batch_events = 1, uc_flush_interval_ms = 100, uc_agent_rpc_addr = ''''\<rparr>"

theorem flush_sends_oldest_witness:
  "\<exists>st' b. flush_tick (queue_channel 4) (queue_channel 4) (\<lambda>s. 0) uploader_cfg0 True agent0 = (st', Flushed)
    \<and> ag_sent st' = [b] \<and> b_events b = [corrected sample_clock (tick_event 100)] \<and> rg_events (ag_ring st') = [tick_event 200]"
proof -
  have "clock_ok (current (ag_offsets agent0))"
    by (simp add: agent0_def current_def handle_new_def sample_clock_def clock_ok_def)
  from flush_sends_oldest [OF queue.bounded_fifo_axioms [of 4] queue.bounded_fifo_axioms [of 4] this,
      of uploader_cfg0 "\<lambda>s. 0"]
  show ?thesis by (auto simp: agent0_def uploader_cfg0_def current_def handle_new_def)
qed

end
