(* ===== verification/Cupti_Pipe.thy ===== *)
theory Cupti_Pipe
  imports Event_Ring
begin

text \<open>
  The pipe from the process under profile to the agent: connecting with back-off
  (\<^verbatim>\<open>crates/perfweave-cupti-inject/src/transport.rs\<close>), sending length-prefixed batches
  (\<^verbatim>\<open>ship\<close> in \<^verbatim>\<open>crates/perfweave-cupti-inject/src/lib.rs\<close>) and the agent's receiver
  (\<^verbatim>\<open>handle_conn\<close> in \<^verbatim>\<open>crates/perfweave-agent/src/sampler/cupti.rs\<close>). Sockets and the
  protobuf codec are parameters. The lemmas show that the receiver undoes the framing and
  that the retries stay within their budget.
\<close>

section \<open>Connecting\<close>

definition INIT_BUDGET_MS :: nat where "INIT_BUDGET_MS = 10000"
definition MIN_BACKOFF_MS :: nat where "MIN_BACKOFF_MS = 50"
definition MAX_BACKOFF_MS :: nat where "MAX_BACKOFF_MS = 500"

text \<open>
  One attempt of the loop: what connecting returns (on success together with the result of
  switching the socket to blocking mode), and the clock after a failure, in milliseconds.
\<close>

datatype ('e, 's) attempt = Connected 's "'e option" | Refused 'e nat

text \<open>
  The loop over the attempts that the environment answers: the result, if it returned by
  then, and the times slept.
\<close>

fun connect_loop ::
  "nat \<Rightarrow> nat \<Rightarrow> 'e option \<Rightarrow> ('e, 's) attempt list \<Rightarrow> ('e + 's) option \<times> (nat \<times> nat) list" where
  "connect_loop deadline backoff last_err [] = (None, [])"
| "connect_loop deadline backoff last_err (Connected s nb # as) =
     (case nb of None \<Rightarrow> (Some (Inr s), []) | Some e \<Rightarrow> (Some (Inl e), []))"
| "connect_loop deadline backoff last_err (Refused e now # as) =
     (if deadline \<le> now
      then (Some (Inl (case last_err of Some e' \<Rightarrow> e' | None \<Rightarrow> e)), [])
      else let sleep = min backoff (deadline - now);
               (r, sl) = connect_loop deadline (min (backoff * 2) MAX_BACKOFF_MS) (Some e) as
           in (r, (now, sleep) # sl))"

definition connect :: "nat \<Rightarrow> ('e, 's) attempt list \<Rightarrow> ('e + 's) option \<times> (nat \<times> nat) list" where
  "connect start = connect_loop (start + INIT_BUDGET_MS) MIN_BACKOFF_MS None"

definition reconnect :: "nat \<Rightarrow> nat \<Rightarrow> ('e, 's) attempt list \<Rightarrow> ('e + 's) option \<times> (nat \<times> nat) list" where
  "reconnect budget start = connect_loop (start + budget) MIN_BACKOFF_MS None"

section \<open>Framing\<close>

definition u32_to_le_bytes :: "u32 \<Rightarrow> u8 list" where
  "u32_to_le_bytes w = [ucast w, ucast (drop_bit 8 w), ucast (drop_bit 16 w), ucast (drop_bit 24 w)]"

definition u32_from_le_bytes :: "u8 list \<Rightarrow> u32" where
  "u32_from_le_bytes bs =
     of_nat (unat (bs ! 0) + 256 * unat (bs ! 1) + 65536 * unat (bs ! 2) + 16777216 * unat (bs ! 3))"

text \<open>The protobuf codec of batches.\<close>

record Codec =
  cd_encode :: "Batch \<Rightarrow> u8 list option"
  cd_encoded_len :: "Batch \<Rightarrow> nat"
  cd_decode :: "u8 list \<Rightarrow> Batch option"

record 'conn InjectorState =
  inj_conn :: "'conn option"
  inj_dropped_batches :: u64

text \<open>
  \<^verbatim>\<open>ship\<close>: \<open>r1\<close> and \<open>r2\<close> are the results of the two reconnects it may try,
  \<open>write_all\<close> the socket's operation.
\<close>

definition ship ::
  "Codec \<Rightarrow> ('conn \<Rightarrow> u8 list \<Rightarrow> 'conn \<times> bool) \<Rightarrow> 'conn option \<Rightarrow> 'conn option \<Rightarrow> Batch
     \<Rightarrow> 'conn InjectorState \<Rightarrow> 'conn InjectorState" where
  "ship cd write_all r1 r2 batch st =
     (let guard = (case inj_conn st of Some c \<Rightarrow> Some c | None \<Rightarrow> r1) in
      case guard of
        None \<Rightarrow> st\<lparr>inj_dropped_batches := inj_dropped_batches st + 1\<rparr>
      | Some conn \<Rightarrow>
          let st = st\<lparr>inj_conn := Some conn\<rparr> in
          case cd_encode cd batch of
            None \<Rightarrow> st
          | Some bytes \<Rightarrow>
              let buf = u32_to_le_bytes (of_nat (cd_encoded_len cd batch)) @ bytes;
                  (conn1, ok1) = write_all conn buf;
                  st1 = st\<lparr>inj_conn := Some conn1\<rparr>
              in if ok1 then st1
                 else let st2 = st1\<lparr>inj_dropped_batches := inj_dropped_batches st1 + 1\<rparr> in
                   case r2 of
                     None \<Rightarrow> st2
                   | Some conn2 \<Rightarrow> st2\<lparr>inj_conn := Some (fst (write_all conn2 buf))\<rparr>)"

section \<open>Receiving\<close>

definition MAX_FRAME :: nat where "MAX_FRAME = 64 * 1024 * 1024"

text \<open>\<^verbatim>\<open>read_exact\<close> on the bytes that the peer sends before it closes the socket.\<close>

definition read_exact :: "nat \<Rightarrow> u8 list \<Rightarrow> (u8 list \<times> u8 list) option" where
  "read_exact n bs = (if length bs < n then None else Some (take n bs, drop n bs))"

definition push_batch ::
  "(Event, 'ch) Channel \<Rightarrow> Batch option \<Rightarrow> ('ch, 'fch) EventRing \<Rightarrow> ('ch, 'fch) EventRing" where
  "push_batch c b ring =
     (case b of Some b \<Rightarrow> foldl (\<lambda>r e. ring_push c e r) ring (b_events b) | None \<Rightarrow> ring)"

function handle_conn ::
  "Codec \<Rightarrow> (Event, 'ch) Channel \<Rightarrow> u8 list \<Rightarrow> ('ch, 'fch) EventRing \<Rightarrow> ('ch, 'fch) EventRing" where
  "handle_conn cd c stream ring =
     (case read_exact 4 stream of
        None \<Rightarrow> ring
      | Some (len_buf, rest) \<Rightarrow>
          let len = unat (u32_from_le_bytes len_buf) in
          if MAX_FRAME < len then ring
          else case read_exact len rest of
            None \<Rightarrow> ring
          | Some (payload, rest') \<Rightarrow> handle_conn cd c rest' (push_batch c (cd_decode cd payload) ring))"
  by pat_completeness auto
termination
  by (relation "measure (\<lambda>(cd, c, stream, ring). length stream)")
    (auto simp: read_exact_def split: if_splits)

declare handle_conn.simps [simp del]

section \<open>The receiver undoes the framing\<close>

lemma mod_div_digits:
  fixes n :: nat
  assumes "n < 4294967296"
  shows "n mod 256 + 256 * (n div 256 mod 256) + 65536 * (n div 65536 mod 256)
    + 16777216 * (n div 16777216 mod 256) = n"
proof -
  let ?a = "n div 256" and ?b = "n div 65536" and ?c = "n div 16777216"
  have "?a div 256 = ?b" "?b div 256 = ?c" by (simp_all flip: div_mult2_eq)
  moreover have "?c < 256" using assms by (simp add: less_mult_imp_div_less)
  ultimately have "?a = ?b * 256 + ?a mod 256" "?b = ?c * 256 + ?b mod 256" "?c mod 256 = ?c"
    using div_mult_mod_eq [of ?a 256] div_mult_mod_eq [of ?b 256] by simp_all
  moreover have "n = ?a * 256 + n mod 256" by simp
  ultimately show ?thesis by linarith
qed

lemma le_bytes_roundtrip: "u32_from_le_bytes (u32_to_le_bytes w @ rest) = w"
proof -
  have lt: "unat w < 4294967296" using unsigned_less [of w] by simp
  have "unat (ucast (drop_bit k w) :: u8) = unat w div 2 ^ k mod 256" for k
    by (simp add: unsigned_ucast_eq unsigned_drop_bit_eq) (simp add: take_bit_eq_mod drop_bit_eq_div lt)
  from this [of 0] this [of 8] this [of 16] this [of 24]
  show ?thesis
    using mod_div_digits [OF lt] by (simp add: u32_from_le_bytes_def u32_to_le_bytes_def)
qed

definition frame :: "u8 list \<Rightarrow> u8 list" where
  "frame bytes = u32_to_le_bytes (of_nat (length bytes)) @ bytes"

lemma length_le_bytes [simp]: "length (u32_to_le_bytes w) = 4"
  by (simp add: u32_to_le_bytes_def)

lemma frame_length_field:
  assumes "length bytes \<le> MAX_FRAME"
  shows "unat (u32_from_le_bytes (u32_to_le_bytes (of_nat (length bytes)) @ rest)) = length bytes"
proof -
  have "length bytes < 2 ^ 32" using assms by (simp add: MAX_FRAME_def)
  then show ?thesis by (simp add: le_bytes_roundtrip unat_of_nat)
qed

lemma handle_conn_frame:
  assumes "length bytes \<le> MAX_FRAME"
  shows "handle_conn cd c (frame bytes @ rest) ring =
    handle_conn cd c rest (push_batch c (cd_decode cd bytes) ring)"
  using frame_length_field [OF assms, of "[]"] assms
  by (subst handle_conn.simps) (simp add: frame_def read_exact_def)

lemma handle_conn_partial:
  assumes "length bytes \<le> MAX_FRAME" "k < length (frame bytes)"
  shows "handle_conn cd c (take k (frame bytes)) ring = ring"
proof (cases "k < 4")
  case True
  then show ?thesis by (subst handle_conn.simps) (simp add: read_exact_def min_def)
next
  case False
  then have "take k (frame bytes) = u32_to_le_bytes (of_nat (length bytes)) @ take (k - 4) bytes"
    by (simp add: frame_def)
  with False assms show ?thesis
    using frame_length_field [OF assms(1), of "[]"]
    by (subst handle_conn.simps) (auto simp: read_exact_def frame_def Let_def)
qed

lemma handle_conn_frames:
  assumes "list_all (\<lambda>bs. length bs \<le> MAX_FRAME) bss"
  shows "handle_conn cd c (concat (map frame bss) @ rest) ring =
    handle_conn cd c rest (foldl (\<lambda>r bs. push_batch c (cd_decode cd bs) r) ring bss)"
  using assms by (induction bss arbitrary: ring) (simp_all add: handle_conn_frame)

text \<open>What the codec promises: decoding undoes encoding, and the length is announced right.\<close>

definition codec_ok :: "Codec \<Rightarrow> bool" where
  "codec_ok cd \<longleftrightarrow>
     (\<forall>b bytes. cd_encode cd b = Some bytes \<longrightarrow> cd_decode cd bytes = Some b \<and> cd_encoded_len cd b = length bytes)"

text \<open>The bytes that \<^verbatim>\<open>ship\<close> writes for a batch.\<close>

definition wire :: "Codec \<Rightarrow> Batch \<Rightarrow> u8 list" where
  "wire cd b = u32_to_le_bytes (of_nat (cd_encoded_len cd b)) @ the (cd_encode cd b)"

definition sendable :: "Codec \<Rightarrow> Batch \<Rightarrow> bool" where
  "sendable cd b \<longleftrightarrow> (case cd_encode cd b of Some bytes \<Rightarrow> length bytes \<le> MAX_FRAME | None \<Rightarrow> False)"

lemma wire_frame: "codec_ok cd \<Longrightarrow> sendable cd b \<Longrightarrow> wire cd b = frame (the (cd_encode cd b))"
  by (auto simp: codec_ok_def sendable_def wire_def frame_def split: option.splits)

lemma decode_encoded: "codec_ok cd \<Longrightarrow> sendable cd b \<Longrightarrow> cd_decode cd (the (cd_encode cd b)) = Some b"
  by (auto simp: codec_ok_def sendable_def split: option.splits)

section \<open>Properties\<close>

text \<open>
  C12: The receiver undoes the framing of the sender. For every codec that decodes what it
  encodes, if the injector writes the frames of some batches of at most 64 MiB and then
  part of one more (the process dies in the middle of a write), the agent pushes exactly the
  events of the complete batches into the ring, in order, and nothing of the last one.
\<close>

theorem framing_roundtrip:
  assumes "codec_ok cd" "list_all (sendable cd) bs" "sendable cd b" "k < length (wire cd b)"
  shows "handle_conn cd c (concat (map (wire cd) bs) @ take k (wire cd b)) ring =
    foldl (\<lambda>r e. ring_push c e r) ring (concat (map b_events bs))"
proof -
  let ?enc = "\<lambda>b. the (cd_encode cd b)"
  have w: "map (wire cd) bs = map frame (map ?enc bs)"
    using assms(2) wire_frame [OF assms(1)] by (simp add: list_all_iff)
  have le: "list_all (\<lambda>bs. length bs \<le> MAX_FRAME) (map ?enc bs)" "length (?enc b) \<le> MAX_FRAME"
    using assms(2,3) by (auto simp: list_all_iff sendable_def split: option.splits)
  have "foldl (\<lambda>r bs. push_batch c (cd_decode cd bs) r) ring (map ?enc bs) =
      foldl (\<lambda>r e. ring_push c e r) ring (concat (map b_events bs))" for ring
    using assms(2) by (induction bs arbitrary: ring)
      (simp_all add: decode_encoded [OF assms(1)] push_batch_def)
  moreover have "handle_conn cd c (take k (frame (?enc b))) r = r" for r
    using handle_conn_partial [OF le(2)] assms(4) wire_frame [OF assms(1,3)] by simp
  ultimately show ?thesis
    unfolding w wire_frame [OF assms(1,3)] handle_conn_frames [OF le(1)] by metis
qed

definition batch_of :: "Event list \<Rightarrow> Batch" where
  "batch_of es = \<lparr>b_events = es, b_strings = [], b_offsets = [], b_metric_frames = []\<rparr>"

text \<open>A codec for batches that hold the event at time 1 some number of times.\<close>

definition unary_codec :: Codec where
  "unary_codec =
     \<lparr>cd_encode = \<lambda>b. if b = batch_of (replicate (length (b_events b)) (tick_event 1))
                      then Some (replicate (length (b_events b)) 7) else None,
      cd_encoded_len = \<lambda>b. length (b_events b),
      cd_decode = \<lambda>bs. Some (batch_of (replicate (length bs) (tick_event 1)))\<rparr>"

theorem framing_roundtrip_witness:
  "handle_conn unary_codec (queue_channel 8)
     (concat (map (wire unary_codec) [batch_of [tick_event 1], batch_of [tick_event 1, tick_event 1]])
      @ take 5 (wire unary_codec (batch_of [tick_event 1, tick_event 1])))
     (event_ring_new (\<lambda>n. []) (\<lambda>n. ()) 8)
   = foldl (\<lambda>r e. ring_push (queue_channel 8) e r) (event_ring_new (\<lambda>n. []) (\<lambda>n. ()) 8)
       [tick_event 1, tick_event 1, tick_event 1]"
proof -
  have "codec_ok unary_codec" by (auto simp: codec_ok_def unary_codec_def split: if_splits)
  moreover have "wire unary_codec (batch_of [tick_event 1, tick_event 1]) = [2, 0, 0, 0, 7, 7]"
    by (simp add: wire_def unary_codec_def batch_of_def u32_to_le_bytes_def numeral_2_eq_2)
  ultimately show ?thesis
    using framing_roundtrip [of unary_codec "[batch_of [tick_event 1], batch_of [tick_event 1, tick_event 1]]"
        "batch_of [tick_event 1, tick_event 1]" 5 "queue_channel 8" "event_ring_new (\<lambda>n. []) (\<lambda>n. ()) 8"]
    by (simp add: sendable_def unary_codec_def batch_of_def MAX_FRAME_def numeral_2_eq_2)
qed

text \<open>
  A batch is either on the wire or counted: when the injector has a connection or gets
  one, the batch can be encoded and the first write succeeds, exactly the frame is written
  and the drop counter is unchanged; when it cannot get a connection the batch is dropped
  and counted; and the counter goes up by one whenever the first write fails.
\<close>

theorem ship_cases:
  assumes "cd_encode cd b = Some bytes"
  shows "(case (case inj_conn st of Some c \<Rightarrow> Some c | None \<Rightarrow> r1) of
      None \<Rightarrow> ship cd wr r1 r2 b st = st\<lparr>inj_dropped_batches := inj_dropped_batches st + 1\<rparr>
    | Some conn \<Rightarrow>
        if snd (wr conn (wire cd b))
        then ship cd wr r1 r2 b st = st\<lparr>inj_conn := Some (fst (wr conn (wire cd b)))\<rparr>
        else inj_dropped_batches (ship cd wr r1 r2 b st) = inj_dropped_batches st + 1
          \<and> inj_conn (ship cd wr r1 r2 b st) =
            Some (case r2 of None \<Rightarrow> fst (wr conn (wire cd b)) | Some conn2 \<Rightarrow> fst (wr conn2 (wire cd b))))"
  using assms by (auto simp: ship_def wire_def Let_def split: option.splits prod.splits)

text \<open>A socket that records the bytes written and fails once its script says so.\<close>

definition scripted_write :: "u8 list \<times> bool \<Rightarrow> u8 list \<Rightarrow> (u8 list \<times> bool) \<times> bool" where
  "scripted_write s bs = (if snd s then ((fst s @ bs, True), True) else (s, False))"

theorem ship_cases_witness:
  "ship unary_codec scripted_write None None (batch_of [tick_event 1])
     \<lparr>inj_conn = Some ([], True), inj_dropped_batches = 0\<rparr>
   = \<lparr>inj_conn = Some ([1, 0, 0, 0, 7], True), inj_dropped_batches = 0\<rparr>"
proof -
  have w: "wire unary_codec (batch_of [tick_event 1]) = [1, 0, 0, 0, 7]"
    by (simp add: wire_def unary_codec_def batch_of_def u32_to_le_bytes_def)
  have "cd_encode unary_codec (batch_of [tick_event 1]) = Some [7]"
    by (simp add: unary_codec_def batch_of_def)
  from ship_cases [OF this, where st = "\<lparr>inj_conn = Some ([], True), inj_dropped_batches = 0\<rparr>" and wr = scripted_write
      and ?r1.0 = None and ?r2.0 = None]
  show ?thesis by (simp add: w scripted_write_def)
qed

text \<open>
  The drop counter also counts batches that arrive: when the first write fails and the
  reconnect and the second write succeed, the whole frame is on the new socket and the
  batch is counted as dropped all the same.
\<close>

theorem ship_counts_delivered_batch:
  "ship unary_codec scripted_write None (Some ([], True)) (batch_of [tick_event 1])
     \<lparr>inj_conn = Some ([], False), inj_dropped_batches = 0\<rparr>
   = \<lparr>inj_conn = Some ([1, 0, 0, 0, 7], True), inj_dropped_batches = 1\<rparr>"
  by code_simp

section \<open>Retries\<close>

lemma connect_loop_bounds:
  "b \<le> MAX_BACKOFF_MS \<Longrightarrow>
     list_all (\<lambda>(now, sl). sl \<le> MAX_BACKOFF_MS \<and> now + sl \<le> deadline) (snd (connect_loop deadline b le as))"
proof (induction as arbitrary: b le)
  case (Cons a as)
  then show ?case by (cases a) (auto simp: Let_def case_prod_unfold split: option.splits)
qed simp

lemma connect_loop_returns:
  "\<exists>a \<in> set as. (case a of Connected s nb \<Rightarrow> True | Refused e now \<Rightarrow> deadline \<le> now) \<Longrightarrow>
     fst (connect_loop deadline b le as) \<noteq> None"
proof (induction as arbitrary: b le)
  case (Cons a as)
  then show ?case by (cases a) (auto simp: Let_def case_prod_unfold split: option.splits)
qed simp

text \<open>
  C38: Connecting never sleeps past its budget and always comes back: every sleep is at most
  500 ms and ends within ten seconds of the start, and as soon as an attempt succeeds or one
  fails at or after the deadline, the call returns.
\<close>

theorem connect_within_budget:
  "list_all (\<lambda>(now, sl). sl \<le> MAX_BACKOFF_MS \<and> now + sl \<le> start + INIT_BUDGET_MS)
     (snd (connect start as))
   \<and> (fst (connect start as) = None \<longrightarrow>
       list_all (\<lambda>a. case a of Connected s nb \<Rightarrow> False | Refused e now \<Rightarrow> now < start + INIT_BUDGET_MS) as)"
proof (intro conjI impI)
  have b: "MIN_BACKOFF_MS \<le> MAX_BACKOFF_MS" by (simp add: MIN_BACKOFF_MS_def MAX_BACKOFF_MS_def)
  show "list_all (\<lambda>(now, sl). sl \<le> MAX_BACKOFF_MS \<and> now + sl \<le> start + INIT_BUDGET_MS)
      (snd (connect start as))"
    using connect_loop_bounds [OF b] by (simp add: connect_def)
  assume "fst (connect start as) = None"
  then have "\<not> (case a of Connected s nb \<Rightarrow> True | Refused e now \<Rightarrow> start + INIT_BUDGET_MS \<le> now)"
    if "a \<in> set as" for a
    using connect_loop_returns [of as "start + INIT_BUDGET_MS"] that unfolding connect_def by blast
  then show "list_all (\<lambda>a. case a of Connected s nb \<Rightarrow> False | Refused e now \<Rightarrow> now < start + INIT_BUDGET_MS) as"
    unfolding list_all_iff
  proof (intro ballI)
    fix a assume n: "\<And>a. a \<in> set as \<Longrightarrow>
        \<not> (case a of Connected s nb \<Rightarrow> True | Refused e now \<Rightarrow> start + INIT_BUDGET_MS \<le> now)" and "a \<in> set as"
    then have "\<not> (case a of Connected s nb \<Rightarrow> True | Refused e now \<Rightarrow> start + INIT_BUDGET_MS \<le> now)" by blast
    then show "case a of Connected s nb \<Rightarrow> False | Refused e now \<Rightarrow> now < start + INIT_BUDGET_MS"
      by (cases a) simp_all
  qed
qed

theorem connect_within_budget_witness:
  "fst (connect 0 [Refused (1 :: nat) 20 :: (nat, nat) attempt]) = None
   \<and> list_all (\<lambda>a. case a of Connected s nb \<Rightarrow> False | Refused e now \<Rightarrow> now < 0 + INIT_BUDGET_MS)
       [Refused (1 :: nat) 20 :: (nat, nat) attempt]"
proof -
  have "fst (connect 0 [Refused (1 :: nat) 20 :: (nat, nat) attempt]) = None"
    by (simp add: connect_def INIT_BUDGET_MS_def)
  with connect_within_budget [of 0 "[Refused (1 :: nat) 20 :: (nat, nat) attempt]"] show ?thesis by blast
qed

end
