(* ===== verification/Activity.thy ===== *)
theory Activity
  imports Proto Intern
begin

text \<open>
  Records of the CUPTI activity and callback interfaces,
  \<^verbatim>\<open>crates/perfweave-cupti-inject/src/activity.rs\<close> and \<^verbatim>\<open>callback.rs\<close>: the packed
  layouts, parsing a record into an event, and translating a marker callback. A buffer is a
  list of bytes; the memory behind a pointer is a parameter. The lemmas show that parsing
  always makes progress within the buffer and say from which bytes each number of an event comes.
\<close>

section \<open>Packed layouts\<close>

text \<open>A packed structure: its fields in order with their sizes in bytes.\<close>

type_synonym layout = "(string \<times> nat) list"

definition size_of :: "layout \<Rightarrow> nat" where
  "size_of l = sum_list (map snd l)"

definition activity_header :: layout where
  "activity_header = [(''kind'', 4)]"

definition activity_kernel7 :: layout where
  "activity_kernel7 =
     [(''kind'', 4), (''cache_config'', 1), (''compute_api_requested'', 1), (''compute_api_executed'', 1),
      (''shared_memory_config'', 1), (''registers_per_thread'', 4),
      (''partitioned_global_cache_requested'', 4), (''partitioned_global_cache_executed'', 4),
      (''start'', 8), (''end'', 8), (''completed'', 4), (''device_id'', 4), (''context_id'', 4),
      (''stream_id'', 4), (''grid_x'', 4), (''grid_y'', 4), (''grid_z'', 4), (''block_x'', 4),
      (''block_y'', 4), (''block_z'', 4), (''static_shared_memory'', 4), (''dynamic_shared_memory'', 4),
      (''local_memory_per_thread'', 4), (''local_memory_total'', 4), (''correlation_id'', 4),
      (''grid_id'', 8), (''name_ptr'', 8), (''reserved0'', 8), (''queued'', 8), (''submitted'', 8),
      (''launch_type'', 1), (''is_shared_memory_carveout_requested'', 1),
      (''shared_memory_carveout_requested'', 1), (''padding'', 1), (''shared_memory_executed'', 4),
      (''graph_node_id'', 8), (''shmem_limit_config'', 4), (''graph_id'', 4),
      (''access_policy_window'', 32), (''channel_id'', 4), (''channel_type'', 4), (''cluster_x'', 4),
      (''cluster_y'', 4), (''cluster_z'', 4), (''cluster_scheduling_policy'', 4),
      (''local_memory_total_v2'', 8), (''max_potential_cluster_size'', 4), (''max_active_clusters'', 4)]"

definition activity_memcpy6 :: layout where
  "activity_memcpy6 =
     [(''kind'', 4), (''copy_kind'', 1), (''src_kind'', 1), (''dst_kind'', 1), (''flags'', 1),
      (''bytes'', 8), (''start'', 8), (''end'', 8), (''device_id'', 4), (''context_id'', 4),
      (''stream_id'', 4), (''correlation_id'', 4), (''runtime_correlation_id'', 4), (''pad'', 4),
      (''graph_node_id'', 8), (''graph_id'', 4), (''channel_id'', 4), (''channel_type'', 4),
      (''pad2'', 4), (''copy_count'', 8)]"

definition activity_memset4 :: layout where
  "activity_memset4 =
     [(''kind'', 4), (''value'', 4), (''bytes'', 8), (''start'', 8), (''end'', 8), (''device_id'', 4),
      (''context_id'', 4), (''stream_id'', 4), (''correlation_id'', 4), (''flags'', 2),
      (''memory_kind'', 2), (''graph_node_id'', 8), (''graph_id'', 4), (''channel_id'', 4),
      (''channel_type'', 4), (''pad'', 4)]"

definition activity_api :: layout where
  "activity_api =
     [(''kind'', 4), (''cbid'', 4), (''start'', 8), (''end'', 8), (''process_id'', 4),
      (''thread_id'', 4), (''correlation_id'', 4), (''return_value'', 4)]"

text \<open>Little-endian numbers, and the value of a field of a structure at the start of a buffer.\<close>

fun le_nat :: "u8 list \<Rightarrow> nat" where
  "le_nat [] = 0"
| "le_nat (b # bs) = unat b + 256 * le_nat bs"

fun read_field :: "layout \<Rightarrow> string \<Rightarrow> u8 list \<Rightarrow> nat" where
  "read_field [] name buf = 0"
| "read_field ((n, sz) # l) name buf =
     (if n = name then le_nat (take sz buf) else read_field l name (drop sz buf))"

section \<open>Parsing\<close>

datatype ActivityKind =
  Act_Invalid | Act_Memcpy | Act_Memset | Act_Kernel | Act_Driver | Act_Runtime
  | Act_ConcurrentKernel | Act_Memcpy2 | Act_Overhead

fun activity_kind_u32 :: "ActivityKind \<Rightarrow> nat" where
  "activity_kind_u32 Act_Invalid = 0"
| "activity_kind_u32 Act_Memcpy = 1"
| "activity_kind_u32 Act_Memset = 2"
| "activity_kind_u32 Act_Kernel = 3"
| "activity_kind_u32 Act_Driver = 4"
| "activity_kind_u32 Act_Runtime = 5"
| "activity_kind_u32 Act_ConcurrentKernel = 12"
| "activity_kind_u32 Act_Memcpy2 = 22"
| "activity_kind_u32 Act_Overhead = 27"

text \<open>\<open>cstr p\<close> is the text of the C string at a pointer \<open>p\<close> that is not null.\<close>

definition kernel_event :: "(string \<Rightarrow> u64) \<Rightarrow> (nat \<Rightarrow> string) \<Rightarrow> (string \<Rightarrow> nat) \<Rightarrow> Event" where
  "kernel_event h cstr f =
     (let name = (if f ''name_ptr'' = 0 then ''<unknown_kernel>'' else cstr (f ''name_ptr''))
      in \<lparr>e_ts_ns = of_nat (f ''start''),
          e_duration_ns = sat_sub (of_nat (f ''end'')) (of_nat (f ''start'')),
          e_node_id = 0, e_gpu_id = of_nat (f ''device_id''), e_pid = 0, e_tid = 0,
          e_ctx_id = of_nat (f ''context_id''), e_stream_id = of_nat (f ''stream_id''),
          e_category = category_i32 Cat_Kernel, e_name_id = intern_hash h name,
          e_correlation_id = of_nat (f ''correlation_id''), e_parent_id = 0,
          e_payload = Some (Payload_Kernel
            \<lparr>kd_grid_x = of_nat (f ''grid_x''), kd_grid_y = of_nat (f ''grid_y''), kd_grid_z = of_nat (f ''grid_z''),
             kd_block_x = of_nat (f ''block_x''), kd_block_y = of_nat (f ''block_y''), kd_block_z = of_nat (f ''block_z''),
             kd_static_shared_mem_bytes = of_nat (f ''static_shared_memory''),
             kd_dynamic_shared_mem_bytes = of_nat (f ''dynamic_shared_memory''),
             kd_registers_per_thread = of_nat (f ''registers_per_thread''),
             kd_local_mem_per_thread = of_nat (f ''local_memory_per_thread''), kd_launch_cbid = 0\<rparr>)\<rparr>)"

definition copy_kind_of :: "nat \<Rightarrow> Memcpy_Kind" where
  "copy_kind_of k =
     (if k = 1 then Kind_H2d else if k = 2 then Kind_D2h else if k = 3 then Kind_H2h
      else if k = 4 then Kind_D2d else if k = 10 then Kind_P2p else Kind_Unknown)"

definition transfer_event :: "Category \<Rightarrow> u64 \<Rightarrow> i32 \<Rightarrow> (string \<Rightarrow> nat) \<Rightarrow> Event" where
  "transfer_event cat name_id kind f =
     \<lparr>e_ts_ns = of_nat (f ''start''),
      e_duration_ns = sat_sub (of_nat (f ''end'')) (of_nat (f ''start'')),
      e_node_id = 0, e_gpu_id = of_nat (f ''device_id''), e_pid = 0, e_tid = 0,
      e_ctx_id = of_nat (f ''context_id''), e_stream_id = of_nat (f ''stream_id''),
      e_category = category_i32 cat, e_name_id = name_id,
      e_correlation_id = of_nat (f ''correlation_id''), e_parent_id = 0,
      e_payload = Some (Payload_Memcpy
        \<lparr>md_kind = kind, md_bytes = of_nat (f ''bytes''), md_src_device = of_nat (f ''device_id''),
         md_dst_device = of_nat (f ''device_id'')\<rparr>)\<rparr>"

definition memcpy_event :: "(string \<Rightarrow> u64) \<Rightarrow> (string \<Rightarrow> nat) \<Rightarrow> Event" where
  "memcpy_event h f =
     transfer_event Cat_Memcpy (intern_hash h ''cudaMemcpy'') (memcpy_kind_i32 (copy_kind_of (f ''copy_kind''))) f"

definition memset_event :: "(string \<Rightarrow> u64) \<Rightarrow> (string \<Rightarrow> nat) \<Rightarrow> Event" where
  "memset_event h f = transfer_event Cat_Memset (intern_hash h ''cudaMemset'') 0 f"

definition api_event :: "(string \<Rightarrow> u64) \<Rightarrow> (string \<Rightarrow> nat) \<Rightarrow> Event" where
  "api_event h f =
     \<lparr>e_ts_ns = of_nat (f ''start''),
      e_duration_ns = sat_sub (of_nat (f ''end'')) (of_nat (f ''start'')),
      e_node_id = 0, e_gpu_id = 0, e_pid = of_nat (f ''process_id''), e_tid = of_nat (f ''thread_id''),
      e_ctx_id = 0, e_stream_id = 0, e_category = category_i32 Cat_ApiCall,
      e_name_id = intern_hash h ''cuApi'', e_correlation_id = of_nat (f ''correlation_id''), e_parent_id = 0,
      e_payload = Some (Payload_Api
        \<lparr>ad_cbid = of_nat (f ''cbid''), ad_status = of_nat (f ''return_value'')\<rparr>)\<rparr>"

text \<open>A record of a known kind: it must fit, else the rest of the buffer is skipped.\<close>

definition sized :: "layout \<Rightarrow> ((string \<Rightarrow> nat) \<Rightarrow> Event) \<Rightarrow> u8 list \<Rightarrow> nat \<times> Event option" where
  "sized l ev buf =
     (let sz = size_of l in
      if length buf < sz then (length buf, None)
      else (sz, Some (ev (\<lambda>name. read_field l name buf))))"

definition parse_record ::
  "(string \<Rightarrow> u64) \<Rightarrow> (nat \<Rightarrow> string) \<Rightarrow> u8 list \<Rightarrow> nat \<times> Event option" where
  "parse_record h cstr buf =
     (if length buf < size_of activity_header then (length buf, None)
      else let kind = read_field activity_header ''kind'' buf in
        if kind = activity_kind_u32 Act_Kernel \<or> kind = activity_kind_u32 Act_ConcurrentKernel
        then sized activity_kernel7 (kernel_event h cstr) buf
        else if kind = activity_kind_u32 Act_Memcpy \<or> kind = activity_kind_u32 Act_Memcpy2
        then sized activity_memcpy6 (memcpy_event h) buf
        else if kind = activity_kind_u32 Act_Memset
        then sized activity_memset4 (memset_event h) buf
        else if kind = activity_kind_u32 Act_Runtime \<or> kind = activity_kind_u32 Act_Driver
        then sized activity_api (api_event h) buf
        else (size_of activity_header, None))"

section \<open>Marker callbacks\<close>

record NvtxEventAttributes =
  na_color_argb :: u32
  na_message_ptr :: nat

text \<open>
  The structures that the parameters of a callback may point to; a pointer is a number and
  null is zero. \<open>show_ptr\<close> is the formatting of a pointer.
\<close>

record NvtxMemory =
  nm_range_push :: "nat \<Rightarrow> nat"
  nm_domain_push :: "nat \<Rightarrow> nat \<times> nat"
  nm_attr :: "nat \<Rightarrow> NvtxEventAttributes"
  nm_cstr :: "nat \<Rightarrow> string"

definition marker_event :: "u64 \<Rightarrow> u32 \<Rightarrow> u32 \<Rightarrow> u64 \<Rightarrow> u32 \<Rightarrow> u64 \<Rightarrow> Event" where
  "marker_event ts_ns node_id gpu_id domain_id color message_id =
     \<lparr>e_ts_ns = ts_ns, e_duration_ns = 0, e_node_id = node_id, e_gpu_id = gpu_id, e_pid = 0, e_tid = 0,
      e_ctx_id = 0, e_stream_id = 0, e_category = category_i32 Cat_Marker, e_name_id = message_id,
      e_correlation_id = 0, e_parent_id = 0,
      e_payload = Some (Payload_Marker
        \<lparr>mk_domain_id = domain_id, mk_color_argb = color, mk_message_id = message_id\<rparr>)\<rparr>"

text \<open>The domain, the colour and the message pointer, for the functions that have them.\<close>

definition nvtx_parts ::
  "(string \<Rightarrow> u64) \<Rightarrow> (nat \<Rightarrow> string) \<Rightarrow> NvtxMemory \<Rightarrow> string \<Rightarrow> nat \<Rightarrow> (u64 \<times> u32 \<times> nat) option" where
  "nvtx_parts h show_ptr mem fname params =
     (if fname = ''nvtxMarkEx'' \<or> fname = ''nvtxRangePushEx'' then
        (let attr = nm_range_push mem params in
         if attr = 0 then None
         else Some (0, na_color_argb (nm_attr mem attr), na_message_ptr (nm_attr mem attr)))
      else if fname = ''nvtxDomainMarkEx'' \<or> fname = ''nvtxDomainRangePushEx'' then
        (let (domain, attr) = nm_domain_push mem params in
         if attr = 0 then None
         else Some (intern_hash h (show_ptr domain), na_color_argb (nm_attr mem attr),
                    na_message_ptr (nm_attr mem attr)))
      else None)"

definition translate_nvtx_callback ::
  "(string \<Rightarrow> u64) \<Rightarrow> (nat \<Rightarrow> string) \<Rightarrow> NvtxMemory \<Rightarrow> string \<Rightarrow> nat \<Rightarrow> u64 \<Rightarrow> u32 \<Rightarrow> u32 \<Rightarrow> Event option" where
  "translate_nvtx_callback h show_ptr mem fname params ts_ns node_id gpu_id =
     (if params = 0 then None
      else case nvtx_parts h show_ptr mem fname params of
        None \<Rightarrow> None
      | Some (domain_id, color, msg_ptr) \<Rightarrow>
          let message = (if msg_ptr = 0 then ''<nvtx>'' else nm_cstr mem msg_ptr)
          in Some (marker_event ts_ns node_id gpu_id domain_id color (intern_hash h message)))"

section \<open>Fields by their place in the buffer\<close>

text \<open>The number in \<open>n\<close> bytes at an offset of the buffer, the byte at the lowest address being the lowest digit.\<close>

definition bytes_at :: "u8 list \<Rightarrow> nat \<Rightarrow> nat \<Rightarrow> nat" where
  "bytes_at buf off n = (\<Sum>i<n. unat (buf ! (off + i)) * 256 ^ i)"




lemma bytes_at_bound: "bytes_at buf off n < 256 ^ n"
proof (induction n)
  case (Suc n)
  have "unat (buf ! (off + n)) < 2 ^ 8" using unsigned_less [of "buf ! (off + n)", where 'a = nat] by simp
  then have "unat (buf ! (off + n)) \<le> 255" by simp
  then have "unat (buf ! (off + n)) * 256 ^ n \<le> 255 * 256 ^ n" by (rule mult_le_mono1)
  moreover have "bytes_at buf off (Suc n) = bytes_at buf off n + unat (buf ! (off + n)) * 256 ^ n"
    by (simp add: bytes_at_def)
  ultimately show ?case using Suc unfolding power_Suc by linarith
qed (simp add: bytes_at_def)

lemma unat_bytes_at [simp]:
  "unat (of_nat (bytes_at buf off 4) :: u32) = bytes_at buf off 4"
  "unat (of_nat (bytes_at buf off 4) :: u64) = bytes_at buf off 4"
  "unat (of_nat (bytes_at buf off 8) :: u64) = bytes_at buf off 8"
  using bytes_at_bound [of buf off 4] bytes_at_bound [of buf off 8] by (simp_all add: unat_of_nat)


lemma sizes [simp]:
  "size_of activity_header = 4" "size_of activity_kernel7 = 232" "size_of activity_memcpy6 = 88"
  "size_of activity_memset4 = 76" "size_of activity_api = 40"
  by (simp_all add: size_of_def activity_header_def activity_kernel7_def activity_memcpy6_def
      activity_memset4_def activity_api_def)





section \<open>Properties\<close>











text \<open>
  A loop over a buffer that advances by the returned size always makes progress and
  never leaves the buffer: the size is positive unless the buffer is empty, and at most the
  number of bytes left; an event is only produced from a record that lies completely inside.
\<close>

theorem parse_record_progress:
  "(fst (parse_record h cstr buf) = 0 \<longleftrightarrow> buf = []) \<and> fst (parse_record h cstr buf) \<le> length buf
   \<and> (snd (parse_record h cstr buf) = None \<or> 40 \<le> fst (parse_record h cstr buf))"
  by (auto simp: parse_record_def sized_def Let_def)

text \<open>A marker callback yields no event for a null pointer or a function it does not know.\<close>

lemma nvtx_ignored:
  "params = 0 \<or> fname \<notin> {''nvtxMarkEx'', ''nvtxRangePushEx'', ''nvtxDomainMarkEx'', ''nvtxDomainRangePushEx''}
     \<Longrightarrow> translate_nvtx_callback h sp mem fname params ts node gpu = None"
  by (auto simp: translate_nvtx_callback_def nvtx_parts_def)

lemma nvtx_marker:
  "translate_nvtx_callback h sp mem fname params ts node gpu = Some e \<Longrightarrow>
     e_ts_ns e = ts \<and> e_node_id e = node \<and> e_gpu_id e = gpu \<and> e_category e = category_i32 Cat_Marker
     \<and> (\<exists>d. e_payload e = Some (Payload_Marker d) \<and> mk_message_id d = e_name_id e)"
  unfolding translate_nvtx_callback_def
  by (cases "nvtx_parts h sp mem fname params") (auto simp: marker_event_def Let_def split: if_splits)

end
