(* ===== verification/Host_Sampler.thy ===== *)
theory Host_Sampler
  imports Proto Intern "HOL-Library.Multiset"
begin

text \<open>
  Host sampling of kernel metrics, \<^verbatim>\<open>crates/perfweave-cupti-inject/src/pm.rs\<close>: the
  accumulator of each kernel, the classification of its bound, and the sampler that emits
  one card per kernel with enough samples. The order in which the hash map is drained is an
  argument. The lemmas give which kernels get a card, what the card holds and when each
  class is assigned.
\<close>

section \<open>Model\<close>

definition MIN_SAMPLES_FOR_CARD :: u32 where "MIN_SAMPLES_FOR_CARD = 5"

definition SAMPLE_PERIOD_MS :: u64 where "SAMPLE_PERIOD_MS = 100"

record PmSample =
  pm_sm_active_pct :: f32
  pm_occupancy_pct :: f32
  pm_dram_bw_pct :: f32
  pm_inst_tp_pct :: f32

record Attribution =
  at_count :: u32
  at_sum_sm_active :: f64
  at_sum_occ :: f64
  at_sum_dram :: f64
  at_sum_inst :: f64

definition attribution_default :: Attribution where
  "attribution_default = \<lparr>at_count = 0, at_sum_sm_active = FZero False, at_sum_occ = FZero False,
                          at_sum_dram = FZero False, at_sum_inst = FZero False\<rparr>"

text \<open>An \<^verbatim>\<open>f32\<close> is an \<^verbatim>\<open>f64\<close> as it is: the cast is exact.\<close>

definition attribution_add :: "Attribution \<Rightarrow> PmSample \<Rightarrow> Attribution" where
  "attribution_add a s =
     \<lparr>at_count = at_count a + 1,
      at_sum_sm_active = fadd F64 (at_sum_sm_active a) (pm_sm_active_pct s),
      at_sum_occ = fadd F64 (at_sum_occ a) (pm_occupancy_pct s),
      at_sum_dram = fadd F64 (at_sum_dram a) (pm_dram_bw_pct s),
      at_sum_inst = fadd F64 (at_sum_inst a) (pm_inst_tp_pct s)\<rparr>"

definition classify_bound :: "f32 \<Rightarrow> f32 \<Rightarrow> f32 \<Rightarrow> Bound" where
  "classify_bound sm_active_pct dram_bw_pct inst_tp_pct =
     (let H = lit F32 10; low = lit F32 30 in
      if flt sm_active_pct low \<and> flt dram_bw_pct low \<and> flt inst_tp_pct low then Bound_Latency
      else let compute_score = fmax sm_active_pct inst_tp_pct in
        if flt (fadd F32 compute_score H) dram_bw_pct then Bound_Memory
        else if flt (fadd F32 dram_bw_pct H) compute_score then Bound_Compute
        else Bound_Balanced)"

definition finalize :: "Attribution \<Rightarrow> u64 \<Rightarrow> KernelSol option" where
  "finalize a correlation_id =
     (if at_count a < MIN_SAMPLES_FOR_CARD then None
      else let n = of_int_fp F64 (uint (at_count a));
               sm_active = as_f32 (fdiv F64 (at_sum_sm_active a) n);
               occ = as_f32 (fdiv F64 (at_sum_occ a) n);
               dram = as_f32 (fdiv F64 (at_sum_dram a) n);
               inst = as_f32 (fdiv F64 (at_sum_inst a) n);
               z = FZero False
           in Some \<lparr>ks_correlation_id = correlation_id, ks_sm_active_pct = sm_active,
                    ks_achieved_occupancy_pct = occ, ks_dram_bw_pct = dram, ks_l1_bw_pct = z,
                    ks_l2_bw_pct = z, ks_inst_throughput_pct = inst, ks_theoretical_occupancy_pct = z,
                    ks_arithmetic_intensity = z, ks_achieved_gflops = z,
                    ks_bound = bound_i32 (classify_bound sm_active dram inst),
                    ks_confidence = confidence_i32 Conf_Low, ks_source = source_i32 Src_HostSampling,
                    ks_stalls = []\<rparr>)"

type_synonym HostSampler = "u32 \<times> u64 \<rightharpoonup> Attribution"

definition host_sampler_new :: HostSampler where
  "host_sampler_new = Map.empty"

definition host_sample :: "HostSampler \<Rightarrow> u32 \<Rightarrow> u64 \<Rightarrow> PmSample \<Rightarrow> HostSampler" where
  "host_sample hs gpu_id correlation_id s =
     hs((gpu_id, correlation_id) \<mapsto>
        attribution_add (case hs (gpu_id, correlation_id) of Some a \<Rightarrow> a | None \<Rightarrow> attribution_default) s)"

definition drain_cards :: "(u32 \<times> u64) list \<Rightarrow> HostSampler \<Rightarrow> KernelSol list \<times> HostSampler" where
  "drain_cards order hs =
     (List.map_filter (\<lambda>k. Option.bind (hs k) (\<lambda>a. finalize a (snd k))) order, Map.empty)"

definition reserved_stall_ids :: "(string \<Rightarrow> u64) \<Rightarrow> StallCount list" where
  "reserved_stall_ids h =
     map (\<lambda>r. \<lparr>sc_reason_id = ucast (intern_hash h r), sc_count = 0\<rparr>)
       [''MemoryThrottle'', ''Barrier'', ''ExecutionDependency'', ''Selected'', ''NotSelected'']"

section \<open>Buckets\<close>

type_synonym tagged_sample = "(u32 \<times> u64) \<times> PmSample"

definition samples_of :: "u32 \<times> u64 \<Rightarrow> tagged_sample list \<Rightarrow> PmSample list" where
  "samples_of k ss = map snd (filter (\<lambda>(k', s). k' = k) ss)"

definition sample_all :: "tagged_sample list \<Rightarrow> HostSampler" where
  "sample_all ss = foldl (\<lambda>hs (k, s). host_sample hs (fst k) (snd k) s) host_sampler_new ss"

lemma sample_all_snoc: "sample_all (ss @ [(k, s)]) = host_sample (sample_all ss) (fst k) (snd k) s"
  by (simp add: sample_all_def)

lemma samples_of_snoc: "samples_of k (ss @ [(k', s)]) = samples_of k ss @ (if k' = k then [s] else [])"
  by (simp add: samples_of_def)

text \<open>The bucket of a kernel is the fold of its own samples.\<close>

lemma sample_all_bucket:
  "sample_all ss k =
     (if samples_of k ss = [] then None
      else Some (foldl attribution_add attribution_default (samples_of k ss)))"
proof (induction ss rule: rev_induct)
  case Nil
  show ?case by (simp add: sample_all_def host_sampler_new_def samples_of_def)
next
  case (snoc x ss)
  then show ?case
    by (cases x) (auto simp: sample_all_snoc samples_of_snoc host_sample_def)
qed

lemma bucket_count: "at_count (foldl attribution_add a ss) = at_count a + of_nat (length ss)"
  by (induction ss arbitrary: a) (simp_all add: attribution_add_def)

lemma finalize_None: "length ss < 2 ^ 32 \<Longrightarrow>
    finalize (foldl attribution_add attribution_default ss) c = None \<longleftrightarrow> length ss < 5"
proof -
  assume "length ss < 2 ^ 32"
  then have "unat (of_nat (length ss) :: u32) = length ss" by (simp add: unat_of_nat)
  then have "(of_nat (length ss) :: u32) < 5 \<longleftrightarrow> length ss < 5" by (simp add: word_less_nat_alt)
  then show ?thesis
    by (simp add: finalize_def bucket_count MIN_SAMPLES_FOR_CARD_def attribution_default_def Let_def)
qed

lemma finalize_card:
  "finalize a c = Some s \<Longrightarrow> ks_correlation_id s = c \<and> ks_confidence s = confidence_i32 Conf_Low
     \<and> ks_source s = source_i32 Src_HostSampling"
  by (auto simp: finalize_def Let_def split: if_splits)

section \<open>Properties\<close>

lemma drain_cards_order:
  assumes "length ss < 2 ^ 32"
  shows "map ks_correlation_id (fst (drain_cards order (sample_all ss))) =
      map snd (filter (\<lambda>k. 5 \<le> length (samples_of k ss)) order)
    \<and> list_all (\<lambda>c. ks_confidence c = confidence_i32 Conf_Low \<and> ks_source c = source_i32 Src_HostSampling)
        (fst (drain_cards order (sample_all ss)))
    \<and> snd (drain_cards order (sample_all ss)) = host_sampler_new"
proof -
  have len: "length (samples_of k ss) < 2 ^ 32" for k
    using assms le_less_trans [OF length_filter_le] by (simp add: samples_of_def)
  have card: "Option.bind (sample_all ss k) (\<lambda>a. finalize a (snd k)) =
      (if 5 \<le> length (samples_of k ss)
       then finalize (foldl attribution_add attribution_default (samples_of k ss)) (snd k) else None)" for k
    using finalize_None [OF len [of k]] by (auto simp: sample_all_bucket not_le)
  have some: "\<exists>c. finalize (foldl attribution_add attribution_default (samples_of k ss)) (snd k) = Some c
      \<and> ks_correlation_id c = snd k" if "5 \<le> length (samples_of k ss)" for k
    using finalize_None [OF len [of k]] that finalize_card by fastforce
  show ?thesis
    by (induction order)
      (use some finalize_card in \<open>fastforce simp: drain_cards_def List.map_filter_def card host_sampler_new_def\<close>)+
qed

lemma bucket_dom: "5 \<le> length (samples_of k ss) \<Longrightarrow> k \<in> dom (sample_all ss)"
  by (auto simp: sample_all_bucket dom_def)

text \<open>
  C35: Draining emits exactly one card for every kernel with at least five samples since the
  last drain and none for the others, in whatever order the hash map yields its buckets;
  every card is marked as a low-confidence host-sampling estimate, and no bucket is left.
\<close>

theorem drain_emits_sampled_kernels:
  assumes "length ss < 2 ^ 32" "distinct order" "set order = dom (sample_all ss)"
  shows "mset (map ks_correlation_id (fst (drain_cards order (sample_all ss)))) =
      image_mset snd (mset_set {k. 5 \<le> length (samples_of k ss)})
    \<and> list_all (\<lambda>c. ks_confidence c = confidence_i32 Conf_Low \<and> ks_source c = source_i32 Src_HostSampling)
        (fst (drain_cards order (sample_all ss)))
    \<and> snd (drain_cards order (sample_all ss)) = host_sampler_new"
proof -
  let ?P = "\<lambda>k. 5 \<le> length (samples_of k ss)"
  have "{k. ?P k} = set (filter ?P order)" using assms(3) bucket_dom [of _ ss] by (simp add: set_eq_iff) blast
  then have "mset_set {k. ?P k} = mset (filter ?P order)"
    using assms(2) by (simp only: mset_set_set distinct_filter)
  then show ?thesis using drain_cards_order [OF assms(1), of order] by simp
qed

definition sample_const :: "rat \<Rightarrow> PmSample" where
  "sample_const r = \<lparr>pm_sm_active_pct = FFin r, pm_occupancy_pct = FFin r, pm_dram_bw_pct = FFin r,
                     pm_inst_tp_pct = FFin r\<rparr>"

definition two_kernels :: "tagged_sample list" where
  "two_kernels = replicate 4 ((0, 100), sample_const 50) @ replicate 5 ((0, 200), sample_const 50)"

lemma samples_of_two_kernels:
  "length (samples_of k two_kernels) = (if k = (0, 100) then 4 else if k = (0, 200) then 5 else 0)"
  by (auto simp: samples_of_def two_kernels_def)

theorem drain_emits_sampled_kernels_witness:
  "mset (map ks_correlation_id (fst (drain_cards [(0, 100), (0, 200)] (sample_all two_kernels)))) = {#200#}"
proof -
  have "k \<in> dom (sample_all two_kernels) \<longleftrightarrow> 0 < length (samples_of k two_kernels)" for k
    by (simp add: sample_all_bucket domIff)
  then have d: "dom (sample_all two_kernels) = {(0, 100), (0, 200)}"
    by (intro set_eqI) (simp add: samples_of_two_kernels)
  have l: "length two_kernels = 9" by (simp add: two_kernels_def)
  have "{k. 5 \<le> length (samples_of k two_kernels)} = {(0, 200)}"
    by (auto simp: samples_of_two_kernels)
  then show ?thesis
    using drain_emits_sampled_kernels [of two_kernels "[(0, 100), (0, 200)]"]
    by (simp add: d l)
qed

end
