(* ===== verification/Timeline.thy ===== *)
theory Timeline
  imports Arrow_Tile Text
begin

text \<open>
  The timeline endpoint, \<^verbatim>\<open>crates/perfweave-server/src/api/timeline.rs\<close> and
  \<^verbatim>\<open>lod.rs\<close>: choosing the level of detail, turning the request's filters into SQL, and
  transposing rows into columns. The database and the arrow crate are parameters. The
  lemmas give the choice of the tile, show that a filter can only contribute numbers and
  known names to the SQL text, and that a client decodes exactly the rows of the database.
\<close>

section \<open>Level of detail\<close>

definition TILE_WIDTHS_NS :: "u64 list" where
  "TILE_WIDTHS_NS = [1000, 8000, 64000, 512000, 4096000, 32768000, 262144000, 2097152000]"

text \<open>The loop that stops at the first width that is wide enough.\<close>

fun first_at_least :: "u64 \<Rightarrow> u64 list \<Rightarrow> u64 option" where
  "first_at_least target [] = None"
| "first_at_least target (w # ws) = (if target \<le> w then Some w else first_at_least target ws)"

definition choose_tile :: "u64 \<Rightarrow> u32 \<Rightarrow> u64 option" where
  "choose_tile range_ns pixels =
     (if pixels = 0 then (case TILE_WIDTHS_NS of [] \<Rightarrow> None | w # _ \<Rightarrow> Some w)
      else let target = range_ns div ucast pixels in
        case first_at_least target TILE_WIDTHS_NS of
          Some w \<Rightarrow> Some w
        | None \<Rightarrow> last_opt TILE_WIDTHS_NS)"

definition should_serve_raw :: "u64 \<Rightarrow> u32 \<Rightarrow> bool" where
  "should_serve_raw range_ns pixels \<longleftrightarrow> 0 < pixels \<and> range_ns div ucast pixels < TILE_WIDTHS_NS ! 0"

definition tile_table_name :: "u64 \<Rightarrow> bool \<Rightarrow> string" where
  "tile_table_name bucket_width_ns metric = (if metric then ''tiles_metric'' else ''tiles_activity'')"

section \<open>Filters\<close>

definition sanitize_list :: "nat \<Rightarrow> string \<Rightarrow> string" where
  "sanitize_list limit s =
     join '','' (map show_nat (List.map_filter (\<lambda>p. parse_uint limit (trim p)) (split_on CHR '','' s)))"

definition sanitize_u32_list :: "string \<Rightarrow> string" where
  "sanitize_u32_list = sanitize_list (2 ^ 32)"

definition sanitize_u64_list :: "string \<Rightarrow> string" where
  "sanitize_u64_list = sanitize_list (2 ^ 64)"

definition gpu_filter_sql :: "string option \<Rightarrow> string" where
  "gpu_filter_sql gpus =
     (case gpus of
        Some v \<Rightarrow> if v = '''' then '''' else '' AND gpu_id IN ('' @ sanitize_u32_list v @ '')''
      | None \<Rightarrow> '''')"

definition metric_filter_sql :: "string option \<Rightarrow> string" where
  "metric_filter_sql ids =
     (case ids of
        Some v \<Rightarrow> if v = '''' then '''' else '' AND metric_id IN ('' @ sanitize_u64_list v @ '')''
      | None \<Rightarrow> '''')"

definition category_names :: "string list" where
  "category_names = [''METRIC'', ''API_CALL'', ''KERNEL'', ''MEMCPY'', ''MEMSET'', ''SYNC'', ''OVERHEAD'', ''MARKER'']"

definition category_filter_sql :: "string option \<Rightarrow> string \<Rightarrow> string" where
  "category_filter_sql cats col =
     (case cats of
        Some v \<Rightarrow>
          if v = '''' then ''''
          else let allowed = join '',''
                 (map (\<lambda>s. [CHR 0x27] @ s @ [CHR 0x27])
                   (filter (\<lambda>s. s \<in> set category_names)
                     (map (\<lambda>s. to_ascii_uppercase (trim s)) (split_on CHR '','' v))))
               in if allowed = '''' then '''' else '' AND '' @ col @ '' IN ('' @ allowed @ '')''
      | None \<Rightarrow> '''')"

section \<open>Queries\<close>

record TimelineQuery =
  tq_start_ns :: u64
  tq_end_ns :: u64
  tq_gpus :: "string option"
  tq_categories :: "string option"
  tq_pixels :: u32
  tq_kind :: "string option"
  tq_metric_ids :: "string option"

definition default_pixels :: u32 where "default_pixels = 2048"

text \<open>
  The SQL text of the three queries, up to the layout of white space: one list entry per
  line of the source's raw string.
\<close>

definition activity_sql :: "TimelineQuery \<Rightarrow> u64 \<Rightarrow> string list" where
  "activity_sql q width =
     [''SELECT'',
      ''bucket_start_ns,'', ''bucket_width_ns,'', ''gpu_id,'', ''toUInt8(category) AS category,'',
      ''countMerge(count) AS count,'', ''sumMerge(sum_duration_ns) AS sum_duration_ns,'',
      ''maxMerge(max_duration_ns) AS max_duration_ns,'',
      ''arrayElement(topKMerge(16)(top_names), 1) AS top_name_id'',
      ''FROM tiles_activity'',
      ''WHERE bucket_width_ns = '' @ show_nat (unat width),
      ''AND bucket_start_ns >= '' @ show_nat (unat (tq_start_ns q)),
      ''AND bucket_start_ns <  '' @ show_nat (unat (tq_end_ns q)),
      gpu_filter_sql (tq_gpus q),
      category_filter_sql (tq_categories q) ''category'',
      ''GROUP BY bucket_start_ns, bucket_width_ns, gpu_id, category'',
      ''ORDER BY bucket_start_ns, gpu_id, category'']"

definition metric_sql :: "TimelineQuery \<Rightarrow> u64 \<Rightarrow> string list" where
  "metric_sql q width =
     [''SELECT'',
      ''bucket_start_ns,'', ''bucket_width_ns,'', ''gpu_id,'', ''metric_id,'',
      ''quantileTDigestMerge(0.5)(p50_value) AS p50,'', ''quantileTDigestMerge(0.99)(p99_value) AS p99,'',
      ''minMerge(min_value) AS min,'', ''maxMerge(max_value) AS max'',
      ''FROM tiles_metric'',
      ''WHERE bucket_width_ns = '' @ show_nat (unat width),
      ''AND bucket_start_ns >= '' @ show_nat (unat (tq_start_ns q)),
      ''AND bucket_start_ns <  '' @ show_nat (unat (tq_end_ns q)),
      gpu_filter_sql (tq_gpus q),
      metric_filter_sql (tq_metric_ids q),
      ''GROUP BY bucket_start_ns, bucket_width_ns, gpu_id, metric_id'',
      ''ORDER BY bucket_start_ns, gpu_id, metric_id'']"

definition raw_sql :: "TimelineQuery \<Rightarrow> string list" where
  "raw_sql q =
     [''SELECT ts_ns, duration_ns, gpu_id, toUInt8(category) AS category,'',
      ''name_id, correlation_id, pid, stream_id'',
      ''FROM events'',
      ''WHERE ts_ns >= '' @ show_nat (unat (tq_start_ns q)),
      ''AND ts_ns <  '' @ show_nat (unat (tq_end_ns q)),
      gpu_filter_sql (tq_gpus q),
      category_filter_sql (tq_categories q) ''category'',
      ''AND category != '' @ [CHR 0x27] @ ''METRIC'' @ [CHR 0x27],
      ''ORDER BY ts_ns'',
      ''LIMIT 200000'']"

record ActivityTileRow =
  ar_bucket_start_ns :: u64
  ar_bucket_width_ns :: u64
  ar_gpu_id :: u8
  ar_category :: u8
  ar_count :: u64
  ar_sum_duration_ns :: u64
  ar_max_duration_ns :: u64
  ar_top_name_id :: u64

definition activity_push :: "ActivityTileRows \<Rightarrow> ActivityTileRow \<Rightarrow> ActivityTileRows" where
  "activity_push out r =
     \<lparr>ac_bucket_start_ns = ac_bucket_start_ns out @ [ar_bucket_start_ns r],
      ac_bucket_width_ns = ac_bucket_width_ns out @ [ar_bucket_width_ns r],
      ac_gpu_id = ac_gpu_id out @ [ar_gpu_id r], ac_category = ac_category out @ [ar_category r],
      ac_count = ac_count out @ [ar_count r],
      ac_sum_duration_ns = ac_sum_duration_ns out @ [ar_sum_duration_ns r],
      ac_max_duration_ns = ac_max_duration_ns out @ [ar_max_duration_ns r],
      ac_top_name_id = ac_top_name_id out @ [ar_top_name_id r]\<rparr>"

record MetricTileRow =
  mr_bucket_start_ns :: u64
  mr_bucket_width_ns :: u64
  mr_gpu_id :: u8
  mr_metric_id :: u64
  mr_p50 :: f64
  mr_p99 :: f64
  mr_min :: f64
  mr_max :: f64

definition metric_push :: "MetricTileRows \<Rightarrow> MetricTileRow \<Rightarrow> MetricTileRows" where
  "metric_push out r =
     \<lparr>mc_bucket_start_ns = mc_bucket_start_ns out @ [mr_bucket_start_ns r],
      mc_bucket_width_ns = mc_bucket_width_ns out @ [mr_bucket_width_ns r],
      mc_gpu_id = mc_gpu_id out @ [mr_gpu_id r], mc_metric_id = mc_metric_id out @ [mr_metric_id r],
      mc_p50 = mc_p50 out @ [mr_p50 r], mc_p99 = mc_p99 out @ [mr_p99 r],
      mc_min = mc_min out @ [mr_min r], mc_max = mc_max out @ [mr_max r]\<rparr>"

record RawEventDbRow =
  rr_ts_ns :: u64
  rr_duration_ns :: u64
  rr_gpu_id :: u8
  rr_category :: u8
  rr_name_id :: u64
  rr_correlation_id :: u64
  rr_pid :: u32
  rr_stream_id :: u32

definition raw_push :: "RawEventRows \<Rightarrow> RawEventDbRow \<Rightarrow> RawEventRows" where
  "raw_push out r =
     \<lparr>rc_ts_ns = rc_ts_ns out @ [rr_ts_ns r], rc_duration_ns = rc_duration_ns out @ [rr_duration_ns r],
      rc_gpu_id = rc_gpu_id out @ [rr_gpu_id r], rc_category = rc_category out @ [rr_category r],
      rc_name_id = rc_name_id out @ [rr_name_id r],
      rc_correlation_id = rc_correlation_id out @ [rr_correlation_id r],
      rc_pid = rc_pid out @ [rr_pid r], rc_stream_id = rc_stream_id out @ [rr_stream_id r]\<rparr>"

text \<open>
  The database answers a query with rows or an error.
\<close>

record 'e Backend =
  bk_activity :: "string list \<Rightarrow> 'e + ActivityTileRow list"
  bk_metric :: "string list \<Rightarrow> 'e + MetricTileRow list"
  bk_raw :: "string list \<Rightarrow> 'e + RawEventDbRow list"

definition tile_width :: "TimelineQuery \<Rightarrow> u64" where
  "tile_width q =
     (case choose_tile (tq_end_ns q - tq_start_ns q) (tq_pixels q) of Some w \<Rightarrow> w | None \<Rightarrow> 4096000)"

definition serve_activity :: "('e, 'b, 'w) Arrow \<Rightarrow> 'e Backend \<Rightarrow> TimelineQuery \<Rightarrow> 'e + u8 list" where
  "serve_activity aw bk q =
     (case bk_activity bk (activity_sql q (tile_width q)) of
        Inl e \<Rightarrow> Inl e
      | Inr rows \<Rightarrow> activity_to_arrow aw (foldl activity_push activity_columns_new rows))"

definition serve_metric :: "('e, 'b, 'w) Arrow \<Rightarrow> 'e Backend \<Rightarrow> TimelineQuery \<Rightarrow> 'e + u8 list" where
  "serve_metric aw bk q =
     (case bk_metric bk (metric_sql q (tile_width q)) of
        Inl e \<Rightarrow> Inl e
      | Inr rows \<Rightarrow> metric_to_arrow aw (foldl metric_push metric_columns_new rows))"

definition serve_raw :: "('e, 'b, 'w) Arrow \<Rightarrow> 'e Backend \<Rightarrow> TimelineQuery \<Rightarrow> 'e + u8 list" where
  "serve_raw aw bk q =
     (case bk_raw bk (raw_sql q) of
        Inl e \<Rightarrow> Inl e
      | Inr rows \<Rightarrow> raw_to_arrow aw (foldl raw_push raw_columns_new rows))"

datatype 'e http_error = Bad_Request string | Internal_Server_Error 'e

text \<open>
  The handler; \<open>header_ok\<close> says whether a text is a valid header value. The kind of the
  answer is put into a header and an invalid one makes the handler panic (\<open>None\<close>).
\<close>

definition timeline_kind :: "TimelineQuery \<Rightarrow> string" where
  "timeline_kind q =
     (case tq_kind q of
        Some k \<Rightarrow> k
      | None \<Rightarrow> if should_serve_raw (sat_sub (tq_end_ns q) (tq_start_ns q)) (tq_pixels q)
                then ''raw'' else ''activity'')"

definition timeline_handler ::
  "(string \<Rightarrow> bool) \<Rightarrow> ('e, 'b, 'w) Arrow \<Rightarrow> 'e Backend \<Rightarrow> TimelineQuery \<Rightarrow> ('e http_error + string \<times> u8 list) option" where
  "timeline_handler header_ok aw bk q =
     (let range = sat_sub (tq_end_ns q) (tq_start_ns q) in
      if range = 0 then Some (Inl (Bad_Request ''end_ns must be > start_ns''))
      else let kind = timeline_kind q;
               bytes = (if kind = ''raw'' then serve_raw aw bk q
                        else if kind = ''metric'' then serve_metric aw bk q
                        else serve_activity aw bk q)
           in case bytes of
                Inl e \<Rightarrow> Some (Inl (Internal_Server_Error e))
              | Inr bs \<Rightarrow> if header_ok kind then Some (Inr (kind, bs)) else None)"

section \<open>Properties\<close>

lemma first_at_least_spec:
  "first_at_least t ws = (case filter (\<lambda>w. t \<le> w) ws of [] \<Rightarrow> None | w # _ \<Rightarrow> Some w)"
  by (induction ws) auto

lemma unat_ucast_u64: "unat (ucast (p :: u32) :: u64) = unat p"
proof -
  have "unat p < 2 ^ 32" using unsigned_less [of p] by simp
  then have "unat p < 2 ^ 64" by simp
  then show ?thesis by (simp add: unsigned_ucast_eq take_bit_nat_eq_self)
qed

lemma unat_div_ucast: "unat ((r :: u64) div ucast (p :: u32)) = unat r div unat p"
  by (simp add: unat_div unat_ucast_u64)

text \<open>
  The tile that a request gets: with at least one pixel, the width is one of the
  pyramid's, and it is the narrowest one that is at least the time per pixel, or the widest
  one if none is; raw events are served exactly when the range is shorter than 1000 ns per
  pixel.
\<close>

theorem choose_tile_narrowest:
  assumes "0 < pixels"
  shows "(\<exists>w. choose_tile range_ns pixels = Some w \<and> w \<in> set TILE_WIDTHS_NS
      \<and> list_all (\<lambda>v. v < w \<longrightarrow> v < range_ns div ucast pixels) TILE_WIDTHS_NS
      \<and> (range_ns div ucast pixels \<le> w \<or> w = last TILE_WIDTHS_NS))
    \<and> (should_serve_raw range_ns pixels \<longleftrightarrow> unat range_ns < 1000 * unat pixels)"
proof
  let ?t = "range_ns div ucast pixels"
  have "choose_tile range_ns pixels = (case filter (\<lambda>w. ?t \<le> w) TILE_WIDTHS_NS of
      [] \<Rightarrow> Some (last TILE_WIDTHS_NS) | w # _ \<Rightarrow> Some w)"
    using assms by (auto simp: choose_tile_def Let_def first_at_least_spec last_opt_def TILE_WIDTHS_NS_def
        split: list.split)
  then show "\<exists>w. choose_tile range_ns pixels = Some w \<and> w \<in> set TILE_WIDTHS_NS
      \<and> list_all (\<lambda>v. v < w \<longrightarrow> v < ?t) TILE_WIDTHS_NS \<and> (?t \<le> w \<or> w = last TILE_WIDTHS_NS)"
    by (auto simp: TILE_WIDTHS_NS_def not_le split: if_splits)
  have "0 < unat pixels" using assms by (simp add: word_less_nat_alt)
  then have "unat range_ns div unat pixels < 1000 \<longleftrightarrow> unat range_ns < 1000 * unat pixels"
    by (simp add: div_less_iff_less_mult)
  then show "should_serve_raw range_ns pixels \<longleftrightarrow> unat range_ns < 1000 * unat pixels"
    using assms by (simp add: should_serve_raw_def TILE_WIDTHS_NS_def word_less_nat_alt unat_div_ucast)
qed

theorem choose_tile_narrowest_witness:
  "(\<exists>w. choose_tile 1000000000 1024 = Some w \<and> w \<in> set TILE_WIDTHS_NS)
   \<and> (should_serve_raw 100000 1024 \<longleftrightarrow> (100000 :: nat) < 1000 * 1024)"
  using choose_tile_narrowest [of 1024 1000000000] choose_tile_narrowest [of 1024 100000] by auto

text \<open>A filter's text is built from numbers in range, or from known names, and nothing else.\<close>

lemma sanitize_list_numbers:
  obtains ns where "list_all (\<lambda>n. n < limit) ns" "sanitize_list limit s = join '','' (map show_nat ns)"
proof
  let ?ns = "List.map_filter (\<lambda>p. parse_uint limit (trim p)) (split_on CHR '','' s)"
  show "sanitize_list limit s = join '','' (map show_nat ?ns)" by (simp add: sanitize_list_def)
  show "list_all (\<lambda>n. n < limit) ?ns"
    by (auto simp: list_all_iff List.map_filter_def dest: parse_uint_less split: if_splits)
qed

text \<open>
  C19: No request can inject SQL: whatever text a client sends, the GPU and metric filters
  are empty or a list of decimal numbers of the right width in parentheses, and the category
  filter is empty or a non-empty list of quoted names from the fixed set of categories.
\<close>

theorem filters_cannot_inject:
  "(gpu_filter_sql g = '''' \<or> (\<exists>ns. list_all (\<lambda>n. n < 2 ^ 32) ns
      \<and> gpu_filter_sql g = '' AND gpu_id IN ('' @ join '','' (map show_nat ns) @ '')''))
   \<and> (metric_filter_sql m = '''' \<or> (\<exists>ns. list_all (\<lambda>n. n < 2 ^ 64) ns
      \<and> metric_filter_sql m = '' AND metric_id IN ('' @ join '','' (map show_nat ns) @ '')''))
   \<and> (category_filter_sql c col = '''' \<or> (\<exists>ns. ns \<noteq> [] \<and> set ns \<subseteq> set category_names
      \<and> category_filter_sql c col =
        '' AND '' @ col @ '' IN ('' @ join '','' (map (\<lambda>s. [CHR 0x27] @ s @ [CHR 0x27]) ns) @ '')''))"
proof (intro conjI)
  show "gpu_filter_sql g = '''' \<or> (\<exists>ns. list_all (\<lambda>n. n < 2 ^ 32) ns
      \<and> gpu_filter_sql g = '' AND gpu_id IN ('' @ join '','' (map show_nat ns) @ '')'')"
    by (cases g) (auto simp: gpu_filter_sql_def sanitize_u32_list_def
        intro: sanitize_list_numbers [of "2 ^ 32" "the g"])
  show "metric_filter_sql m = '''' \<or> (\<exists>ns. list_all (\<lambda>n. n < 2 ^ 64) ns
      \<and> metric_filter_sql m = '' AND metric_id IN ('' @ join '','' (map show_nat ns) @ '')'')"
    by (cases m) (auto simp: metric_filter_sql_def sanitize_u64_list_def
        intro: sanitize_list_numbers [of "2 ^ 64" "the m"])
  show "category_filter_sql c col = '''' \<or> (\<exists>ns. ns \<noteq> [] \<and> set ns \<subseteq> set category_names
      \<and> category_filter_sql c col =
        '' AND '' @ col @ '' IN ('' @ join '','' (map (\<lambda>s. [CHR 0x27] @ s @ [CHR 0x27]) ns) @ '')'')"
  proof (cases c)
    case (Some v)
    let ?ns = "filter (\<lambda>s. s \<in> set category_names) (map (\<lambda>s. to_ascii_uppercase (trim s)) (split_on CHR '','' v))"
    have "set ?ns \<subseteq> set category_names" by auto
    moreover have "category_filter_sql c col = (if v = [] \<or> ?ns = [] then []
        else '' AND '' @ col @ '' IN ('' @ join '','' (map (\<lambda>s. [CHR 0x27] @ s @ [CHR 0x27]) ?ns) @ '')'')"
      unfolding Some category_filter_sql_def Let_def
      by (cases ?ns; cases "tl ?ns") (simp_all only: option.case list.map join.simps append_Cons append_Nil
          list.distinct if_True if_False simp_thms list.sel split: if_split)
    ultimately show ?thesis by metis
  qed (simp add: category_filter_sql_def)
qed

lemma map_filter_parse_show:
  "list_all (\<lambda>n. n < limit) ns \<Longrightarrow>
     List.map_filter (\<lambda>p. parse_uint limit (trim p)) (map show_nat ns) = ns"
  by (induction ns) (simp_all add: List.map_filter_def trim_show parse_uint_show)

text \<open>
  The sanitizer is a projection: sanitizing a sanitized list changes nothing, so every
  number that survives is printed exactly as it will be read.
\<close>

theorem sanitize_idempotent:
  "sanitize_u32_list (sanitize_u32_list s) = sanitize_u32_list s
   \<and> sanitize_u64_list (sanitize_u64_list s) = sanitize_u64_list s"
proof -
  have "sanitize_list limit (sanitize_list limit s) = sanitize_list limit s" for limit
  proof (rule sanitize_list_numbers [of limit s])
    fix ns assume ns: "list_all (\<lambda>n. n < limit) ns" "sanitize_list limit s = join '','' (map show_nat ns)"
    show ?thesis
    proof (cases "ns = []")
      case True
      have "parse_uint limit (trim []) = None"
        by (simp add: trim_def trim_start_def trim_end_def parse_uint_def parse_digits_def)
      with True ns(2) show ?thesis by (simp add: sanitize_list_def List.map_filter_def)
    next
      case False
      have "CHR '','' \<notin> set (show_nat n)" for n
        using show_nat_digits [of n] digit_not(2) by (auto simp: list_all_iff)
      then have "split_on CHR '','' (join '','' (map show_nat ns)) = map show_nat ns"
        using False by (intro split_on_join) auto
      then show ?thesis
        using map_filter_parse_show [OF ns(1)] unfolding ns(2) by (simp add: sanitize_list_def)
    qed
  qed
  then show ?thesis by (simp add: sanitize_u32_list_def sanitize_u64_list_def)
qed

text \<open>
  A filter whose entries are all invalid selects nothing instead of being ignored and is
  not even valid SQL: the GPU list "x" gives an empty pair of parentheses, while a category
  list without a known name gives no filter.
\<close>

theorem empty_gpu_filter:
  "gpu_filter_sql (Some ''x'') = '' AND gpu_id IN ()'' \<and> category_filter_sql (Some ''x'') ''category'' = ''''"
  by (simp add: gpu_filter_sql_def sanitize_u32_list_def sanitize_list_def List.map_filter_def trim_def
      trim_start_def trim_end_def is_white_def parse_uint_def parse_digits_def is_digit_def
      category_filter_sql_def to_ascii_uppercase_def upper_char_def category_names_def Let_def)

text \<open>
  Rows become columns without misalignment: every column holds the values of its field in
  the order of the rows.
\<close>

lemma activity_columns:
  "foldl activity_push out rows =
     \<lparr>ac_bucket_start_ns = ac_bucket_start_ns out @ map ar_bucket_start_ns rows,
      ac_bucket_width_ns = ac_bucket_width_ns out @ map ar_bucket_width_ns rows,
      ac_gpu_id = ac_gpu_id out @ map ar_gpu_id rows, ac_category = ac_category out @ map ar_category rows,
      ac_count = ac_count out @ map ar_count rows,
      ac_sum_duration_ns = ac_sum_duration_ns out @ map ar_sum_duration_ns rows,
      ac_max_duration_ns = ac_max_duration_ns out @ map ar_max_duration_ns rows,
      ac_top_name_id = ac_top_name_id out @ map ar_top_name_id rows\<rparr>"
  by (induction rows arbitrary: out) (simp_all add: activity_push_def)

lemma metric_columns:
  "foldl metric_push out rows =
     \<lparr>mc_bucket_start_ns = mc_bucket_start_ns out @ map mr_bucket_start_ns rows,
      mc_bucket_width_ns = mc_bucket_width_ns out @ map mr_bucket_width_ns rows,
      mc_gpu_id = mc_gpu_id out @ map mr_gpu_id rows, mc_metric_id = mc_metric_id out @ map mr_metric_id rows,
      mc_p50 = mc_p50 out @ map mr_p50 rows, mc_p99 = mc_p99 out @ map mr_p99 rows,
      mc_min = mc_min out @ map mr_min rows, mc_max = mc_max out @ map mr_max rows\<rparr>"
  by (induction rows arbitrary: out) (simp_all add: metric_push_def)

lemma raw_columns:
  "foldl raw_push out rows =
     \<lparr>rc_ts_ns = rc_ts_ns out @ map rr_ts_ns rows, rc_duration_ns = rc_duration_ns out @ map rr_duration_ns rows,
      rc_gpu_id = rc_gpu_id out @ map rr_gpu_id rows, rc_category = rc_category out @ map rr_category rows,
      rc_name_id = rc_name_id out @ map rr_name_id rows,
      rc_correlation_id = rc_correlation_id out @ map rr_correlation_id rows,
      rc_pid = rc_pid out @ map rr_pid rows, rc_stream_id = rc_stream_id out @ map rr_stream_id rows\<rparr>"
  by (induction rows arbitrary: out) (simp_all add: raw_push_def)

section \<open>The answer\<close>

text \<open>What a client is to decode: a schema and the fields of the rows, one array per field.\<close>

definition activity_answer :: "ActivityTileRow list \<Rightarrow> Field list \<times> Array list" where
  "activity_answer rows = (activity_schema,
     [UInt64Array (map ar_bucket_start_ns rows), UInt64Array (map ar_bucket_width_ns rows),
      UInt8Array (map ar_gpu_id rows), UInt8Array (map ar_category rows), UInt64Array (map ar_count rows),
      UInt64Array (map ar_sum_duration_ns rows), UInt64Array (map ar_max_duration_ns rows),
      UInt64Array (map ar_top_name_id rows)])"

definition metric_answer :: "MetricTileRow list \<Rightarrow> Field list \<times> Array list" where
  "metric_answer rows = (metric_schema,
     [UInt64Array (map mr_bucket_start_ns rows), UInt64Array (map mr_bucket_width_ns rows),
      UInt8Array (map mr_gpu_id rows), UInt64Array (map mr_metric_id rows), Float64Array (map mr_p50 rows),
      Float64Array (map mr_p99 rows), Float64Array (map mr_min rows), Float64Array (map mr_max rows)])"

definition raw_answer :: "RawEventDbRow list \<Rightarrow> Field list \<times> Array list" where
  "raw_answer rows = (raw_schema,
     [UInt64Array (map rr_ts_ns rows), UInt64Array (map rr_duration_ns rows), UInt8Array (map rr_gpu_id rows),
      UInt8Array (map rr_category rows), UInt64Array (map rr_name_id rows),
      UInt64Array (map rr_correlation_id rows), UInt32Array (map rr_pid rows), UInt32Array (map rr_stream_id rows)])"

definition wanted :: "'e Backend \<Rightarrow> TimelineQuery \<Rightarrow> 'e + Field list \<times> Array list" where
  "wanted bk q =
     (if timeline_kind q = ''raw'' then map_sum id raw_answer (bk_raw bk (raw_sql q))
      else if timeline_kind q = ''metric'' then map_sum id metric_answer (bk_metric bk (metric_sql q (tile_width q)))
      else map_sum id activity_answer (bk_activity bk (activity_sql q (tile_width q))))"

lemma activity_batch:
  "(activity_schema, activity_arrays (foldl activity_push activity_columns_new rows)) = activity_answer rows"
  by (simp add: activity_columns activity_columns_new_def activity_arrays_def activity_answer_def)

lemma metric_batch:
  "(metric_schema, metric_arrays (foldl metric_push metric_columns_new rows)) = metric_answer rows"
  by (simp add: metric_columns metric_columns_new_def metric_arrays_def metric_answer_def)

lemma raw_batch:
  "(raw_schema, raw_arrays (foldl raw_push raw_columns_new rows)) = raw_answer rows"
  by (simp add: raw_columns raw_columns_new_def raw_arrays_def raw_answer_def)

lemma answers_fit:
  "batch_fits (fst (activity_answer ar)) (snd (activity_answer ar))"
  "batch_fits (fst (metric_answer mr)) (snd (metric_answer mr))"
  "batch_fits (fst (raw_answer rr)) (snd (raw_answer rr))"
  by (simp_all add: batch_fits_def activity_answer_def metric_answer_def raw_answer_def
      activity_schema_def metric_schema_def raw_schema_def)

text \<open>Sending columns that fit: the batch is built, and what is sent reads back.\<close>

definition send_answer :: "('e, 'b, 'w) Arrow \<Rightarrow> Field list \<times> Array list \<Rightarrow> 'e + u8 list" where
  "send_answer aw a =
     (case aw_try_new aw (fst a) (snd a) of Inl e \<Rightarrow> Inl e | Inr b \<Rightarrow> arrow_encode aw b (fst a))"

lemma serve_send:
  "serve_activity aw bk q = (case bk_activity bk (activity_sql q (tile_width q)) of
     Inl e \<Rightarrow> Inl e | Inr rows \<Rightarrow> send_answer aw (activity_answer rows))"
  "serve_metric aw bk q = (case bk_metric bk (metric_sql q (tile_width q)) of
     Inl e \<Rightarrow> Inl e | Inr rows \<Rightarrow> send_answer aw (metric_answer rows))"
  "serve_raw aw bk q = (case bk_raw bk (raw_sql q) of
     Inl e \<Rightarrow> Inl e | Inr rows \<Rightarrow> send_answer aw (raw_answer rows))"
  by (simp_all add: serve_activity_def serve_metric_def serve_raw_def send_answer_def activity_to_arrow_def
      metric_to_arrow_def raw_to_arrow_def flip: activity_batch metric_batch raw_batch split: sum.splits)

lemma send_answer_ok:
  assumes "arrow_ok aw rd" "batch_fits (fst a) (snd a)"
  shows "(\<exists>e b. send_answer aw a = Inl e \<and> arrow_encode aw b (fst a) = Inl e)
    \<or> (\<exists>bytes. send_answer aw a = Inr bytes \<and> rd bytes = Some a)"
proof -
  obtain b where b: "aw_try_new aw (fst a) (snd a) = Inr b"
    "\<And>bytes. arrow_encode aw b (fst a) = Inr bytes \<Longrightarrow> rd bytes = Some (fst a, snd a)"
    using arrow_okD [OF assms] by metis
  show ?thesis by (cases "arrow_encode aw b (fst a)") (use b in \<open>auto simp: send_answer_def\<close>)
qed

lemma serve_wanted:
  "(if timeline_kind q = ''raw'' then serve_raw aw bk q
    else if timeline_kind q = ''metric'' then serve_metric aw bk q else serve_activity aw bk q) =
   (case wanted bk q of Inl e \<Rightarrow> Inl e | Inr a \<Rightarrow> send_answer aw a)"
  by (simp add: wanted_def serve_send split: sum.splits)

lemma map_sum_Inr_iff: "map_sum f g x = Inr y \<longleftrightarrow> (\<exists>z. x = Inr z \<and> y = g z)"
  by (cases x) auto

lemma wanted_fits: "wanted bk q = Inr a \<Longrightarrow> batch_fits (fst a) (snd a)"
  by (auto simp: wanted_def answers_fit map_sum_Inr_iff split: if_splits)

lemma handler_wanted:
  "timeline_handler header_ok aw bk q =
     (if tq_end_ns q \<le> tq_start_ns q then Some (Inl (Bad_Request ''end_ns must be > start_ns''))
      else case wanted bk q of
          Inl e \<Rightarrow> Some (Inl (Internal_Server_Error e))
        | Inr a \<Rightarrow> (case send_answer aw a of
              Inl e \<Rightarrow> Some (Inl (Internal_Server_Error e))
            | Inr bytes \<Rightarrow> if header_ok (timeline_kind q) then Some (Inr (timeline_kind q, bytes)) else None))"
proof -
  have "sat_sub (tq_end_ns q) (tq_start_ns q) = 0 \<longleftrightarrow> tq_end_ns q \<le> tq_start_ns q"
    by (auto simp: sat_sub_def not_less)
  then show ?thesis by (simp add: timeline_handler_def Let_def serve_wanted split: sum.splits)
qed

text \<open>
  C21: The answer of the timeline endpoint. A request whose end is not after its start is
  refused. Otherwise, with an arrow crate that builds every batch whose columns fit the
  schema and reads back what it wrote, a client that gets an answer decodes exactly the rows
  the database returned for the requested kind (by default raw events or activity tiles,
  depending on the zoom), every column under its name and aligned with the others. An
  internal error is an error of the database or of the writer, never columns that do not fit,
  and the handler panics only for a kind that cannot be a header value.
\<close>

theorem timeline_answer_decodes:
  assumes "arrow_ok aw rd"
  shows "if tq_end_ns q \<le> tq_start_ns q
    then timeline_handler header_ok aw bk q = Some (Inl (Bad_Request ''end_ns must be > start_ns''))
    else case timeline_handler header_ok aw bk q of
        None \<Rightarrow> \<not> header_ok (timeline_kind q)
      | Some (Inl err) \<Rightarrow> (\<exists>e. err = Internal_Server_Error e
          \<and> (wanted bk q = Inl e \<or> (\<exists>schema b. arrow_encode aw b schema = Inl e)))
      | Some (Inr (kind, bytes)) \<Rightarrow> kind = timeline_kind q \<and> (\<exists>a. wanted bk q = Inr a \<and> rd bytes = Some a)"
proof (cases "wanted bk q")
  case (Inl e)
  then show ?thesis by (simp add: handler_wanted)
next
  case (Inr a)
  from send_answer_ok [OF assms wanted_fits [OF this]] show ?thesis
  proof (elim disjE exE conjE)
    fix e b
    assume "send_answer aw a = Inl e" "arrow_encode aw b (fst a) = Inl e"
    then show ?thesis using Inr by (auto simp: handler_wanted)
  qed (simp add: handler_wanted Inr)
qed

text \<open>An arrow crate whose writer manages one batch only, and a database with one tile.\<close>

definition one_tile :: ActivityTileRow where
  "one_tile = \<lparr>ar_bucket_start_ns = 64000, ar_bucket_width_ns = 64000, ar_gpu_id = 1, ar_category = 3,
     ar_count = 2, ar_sum_duration_ns = 700, ar_max_duration_ns = 500, ar_top_name_id = 9\<rparr>"

definition tile_arrow :: "(unit, Field list \<times> Array list, (Field list \<times> Array list) option) Arrow" where
  "tile_arrow = \<lparr>aw_try_new = (\<lambda>schema as. Inr (schema, as)), aw_writer = (\<lambda>schema. Inr None),
     aw_write = (\<lambda>b w. Inr (Some b)),
     aw_finish = (\<lambda>w. if w = Some (activity_answer [one_tile]) then Inr [1] else Inl ())\<rparr>"

definition tile_reader :: "u8 list \<Rightarrow> (Field list \<times> Array list) option" where
  "tile_reader bytes = (if bytes = [1] then Some (activity_answer [one_tile]) else None)"

definition tile_db :: "unit Backend" where
  "tile_db = \<lparr>bk_activity = (\<lambda>sql. Inr [one_tile]), bk_metric = (\<lambda>sql. Inl ()), bk_raw = (\<lambda>sql. Inl ())\<rparr>"

definition tile_query :: TimelineQuery where
  "tile_query = \<lparr>tq_start_ns = 0, tq_end_ns = 64000000, tq_gpus = None, tq_categories = None,
     tq_pixels = 1000, tq_kind = None, tq_metric_ids = None\<rparr>"

lemma tile_arrow_ok: "arrow_ok tile_arrow tile_reader"
  by (auto simp: arrow_ok_def tile_arrow_def tile_reader_def arrow_encode_def split: if_splits)

theorem timeline_answer_decodes_witness:
  "case timeline_handler (\<lambda>k. True) tile_arrow tile_db tile_query of
     Some (Inr (kind, bytes)) \<Rightarrow> kind = ''activity'' \<and> tile_reader bytes = Some (activity_answer [one_tile])
   | _ \<Rightarrow> False"
proof -
  have k: "timeline_kind tile_query = ''activity''" by code_simp
  have w: "wanted tile_db tile_query = Inr (activity_answer [one_tile])"
    by (simp add: wanted_def k tile_db_def)
  have "send_answer tile_arrow (activity_answer [one_tile]) = Inr [1]"
    by (simp add: send_answer_def tile_arrow_def arrow_encode_def)
  then have "timeline_handler (\<lambda>k. True) tile_arrow tile_db tile_query = Some (Inr (''activity'', [1]))"
    by (simp add: handler_wanted w k) (simp add: tile_query_def)
  then show ?thesis
    using timeline_answer_decodes [OF tile_arrow_ok, of tile_query "\<lambda>k. True" tile_db] k w
    by (auto simp: tile_query_def)
qed

end
