(* ===== verification/Migrations.thy ===== *)
theory Migrations
  imports Text
begin

text \<open>
  Applying the embedded SQL migrations, \<^verbatim>\<open>crates/perfweave-server/src/store/migrations.rs\<close>:
  splitting a file into statements and executing them in order. The migrations' texts and
  the database are parameters. The lemmas show where a file is cut, that every statement is
  executed once and in order, up to the first failure, and that comments never reach the database.
\<close>

section \<open>Model\<close>

text \<open>The loop over the lines, with the buffer and the statements so far.\<close>

fun split_loop :: "string list \<Rightarrow> string \<Rightarrow> string list \<Rightarrow> string list \<times> string" where
  "split_loop [] buf out = (out, buf)"
| "split_loop (line # ls) buf out =
     (if starts_with ''--'' (trim_start line) then split_loop ls buf out
      else let buf' = buf @ line @ [CHR 0x0A] in
        if ends_with '';'' (trim_end line) then split_loop ls [] (out @ [buf'])
        else split_loop ls buf' out)"

definition split_statements :: "string \<Rightarrow> string list" where
  "split_statements sql =
     (let (out, buf) = split_loop (str_lines sql) [] []
      in if trim buf = [] then out else out @ [buf])"

definition preview :: "string \<Rightarrow> string" where
  "preview s = take 80 s"

text \<open>\<open>exec\<close> runs one statement on the database; the first failure ends the run.\<close>

fun apply_statements :: "(string \<Rightarrow> 'd \<Rightarrow> 'd \<times> bool) \<Rightarrow> string list \<Rightarrow> 'd \<Rightarrow> (string + unit) \<times> 'd" where
  "apply_statements exec [] d = (Inr (), d)"
| "apply_statements exec (stmt # stmts) d =
     (let trimmed = trim stmt in
      if trimmed = [] \<or> starts_with ''--'' trimmed then apply_statements exec stmts d
      else let (d', ok) = exec trimmed d
           in if ok then apply_statements exec stmts d' else (Inl (preview trimmed), d'))"

fun apply_migrations ::
  "(string \<Rightarrow> 'd \<Rightarrow> 'd \<times> bool) \<Rightarrow> (string \<times> string) list \<Rightarrow> 'd \<Rightarrow> (string \<times> string + unit) \<times> 'd" where
  "apply_migrations exec [] d = (Inr (), d)"
| "apply_migrations exec ((name, sql) # ms) d =
     (case apply_statements exec (split_statements sql) d of
        (Inl p, d') \<Rightarrow> (Inl (name, p), d')
      | (Inr _, d') \<Rightarrow> apply_migrations exec ms d')"

text \<open>The embedded files in their order; \<open>file n\<close> is the text of the file \<open>n\<close>.\<close>

definition MIGRATIONS :: "(string \<Rightarrow> string) \<Rightarrow> (string \<times> string) list" where
  "MIGRATIONS file =
     [(''0001_events'', file ''0001_events.sql''), (''0002_strings'', file ''0002_strings.sql''),
      (''0003_tiles'', file ''0003_tiles.sql''), (''0004_spikes'', file ''0004_spikes.sql''),
      (''0005_nsys_imports'', file ''0005_nsys_imports.sql''),
      (''0006_shed_metric_tiles'', file ''0006_shed_metric_tiles.sql''),
      (''0007_markers'', file ''0007_markers.sql''), (''0008_kernel_sol'', file ''0008_kernel_sol.sql'')]"

section \<open>Where a file is cut\<close>

text \<open>
  What the lines of a file mean, said without the scanner: a comment has only white space before its
  dashes, a line closes a statement when only white space follows its last semicolon, and a
  statement is a run of lines of which the last one closes it and no other does.
\<close>

definition comment_line :: "string \<Rightarrow> bool" where
  "comment_line l \<longleftrightarrow> (\<exists>ws rest. l = ws @ ''--'' @ rest \<and> list_all is_white ws)"

definition closes :: "string \<Rightarrow> bool" where
  "closes l \<longleftrightarrow> (\<exists>stmt ws. l = stmt @ '';'' @ ws \<and> list_all is_white ws)"

definition one_statement :: "string list \<Rightarrow> bool" where
  "one_statement ls \<longleftrightarrow> (\<exists>body l. ls = body @ [l] \<and> closes l \<and> list_all (\<lambda>x. \<not> closes x) body)"

definition text_of :: "string list \<Rightarrow> string" where
  "text_of ls = concat (map (\<lambda>l. l @ [CHR 0x0A]) ls)"

lemma text_of_simps [simp]:
  "text_of [] = []" "text_of (l # ls) = l @ CHR 0x0A # text_of ls" "text_of (ls @ ms) = text_of ls @ text_of ms"
  by (simp_all add: text_of_def)

lemma starts_with_iff: "starts_with p s \<longleftrightarrow> (\<exists>t. s = p @ t)"
  by (induction p s rule: starts_with.induct) auto

lemma white_marks [simp]: "\<not> is_white CHR ''-''" "\<not> is_white CHR '';''" "is_white CHR 0x0A"
  by (simp_all add: is_white_def)

lemma drop_white_append: "list_all P ws \<Longrightarrow> dropWhile P (ws @ xs) = dropWhile P xs"
  by (induction ws) auto

lemma comment_line_iff: "comment_line l \<longleftrightarrow> starts_with ''--'' (trim_start l)"
proof
  assume "starts_with ''--'' (trim_start l)"
  then obtain rest where "dropWhile is_white l = ''--'' @ rest" by (auto simp: starts_with_iff trim_start_def)
  then have "l = takeWhile is_white l @ ''--'' @ rest" by (metis takeWhile_dropWhile_id)
  moreover have "list_all is_white (takeWhile is_white l)" by (auto simp: list_all_iff dest: set_takeWhileD)
  ultimately show "comment_line l" unfolding comment_line_def by blast
qed (auto simp: comment_line_def trim_start_def drop_white_append)

lemma closes_iff: "closes l \<longleftrightarrow> ends_with '';'' (trim_end l)"
proof
  assume "ends_with '';'' (trim_end l)"
  then obtain t where "dropWhile is_white (rev l) = '';'' @ t" by (auto simp: ends_with_def starts_with_iff trim_end_def)
  then have "rev l = takeWhile is_white (rev l) @ '';'' @ t" by (metis takeWhile_dropWhile_id)
  then have "l = rev t @ '';'' @ rev (takeWhile is_white (rev l))" by (metis append_assoc rev_append rev_rev_ident rev_singleton_conv)
  moreover have "list_all is_white (rev (takeWhile is_white (rev l)))" by (auto simp: list_all_iff dest: set_takeWhileD)
  ultimately show "closes l" unfolding closes_def by blast
qed (auto simp: closes_def trim_end_def ends_with_def drop_white_append list_all_rev)

lemma trim_empty: "trim s = [] \<longleftrightarrow> list_all is_white s"
proof -
  have "(\<forall>c \<in> set (dropWhile is_white s). is_white c) \<longleftrightarrow> (\<forall>c \<in> set s. is_white c)"
    by (metis Un_iff set_append set_takeWhileD takeWhile_dropWhile_id)
  then show ?thesis by (simp add: trim_def trim_start_def trim_end_def list_all_iff)
qed

lemma split_loop_groups:
  assumes "list_all (\<lambda>l. \<not> closes l) part"
  shows "\<exists>groups rest. part @ filter (\<lambda>l. \<not> comment_line l) ls = concat groups @ rest
    \<and> list_all one_statement groups \<and> list_all (\<lambda>l. \<not> closes l) rest
    \<and> split_loop ls (text_of part) out = (out @ map text_of groups, text_of rest)"
  using assms
proof (induction ls arbitrary: part out)
  case Nil
  then show ?case by (intro exI [of _ "[]"] exI [of _ part]) simp
next
  case (Cons l ls)
  consider "comment_line l" | "\<not> comment_line l" "closes l" | "\<not> comment_line l" "\<not> closes l" by blast
  then show ?case
  proof cases
    case 1
    then show ?thesis using Cons by (simp add: comment_line_iff)
  next
    case 2
    obtain groups rest where g: "filter (\<lambda>l. \<not> comment_line l) ls = concat groups @ rest"
        "list_all one_statement groups" "list_all (\<lambda>l. \<not> closes l) rest"
        "split_loop ls [] (out @ [text_of (part @ [l])]) = (out @ [text_of (part @ [l])] @ map text_of groups, text_of rest)"
      using Cons.IH [of "[]" "out @ [text_of (part @ [l])]"] by auto
    have "one_statement (part @ [l])" using 2 Cons.prems by (auto simp: one_statement_def)
    then show ?thesis
      using 2 g by (intro exI [of _ "(part @ [l]) # groups"] exI [of _ rest]) (simp add: comment_line_iff closes_iff Let_def)
  next
    case 3
    have "list_all (\<lambda>l. \<not> closes l) (part @ [l])" using 3 Cons.prems by simp
    from Cons.IH [OF this, of out] show ?thesis
      using 3 by (simp add: comment_line_iff closes_iff Let_def)
  qed
qed

lemma split_statements_groups:
  "\<exists>groups rest. filter (\<lambda>l. \<not> comment_line l) (str_lines sql) = concat groups @ rest
    \<and> list_all one_statement groups \<and> list_all (\<lambda>l. \<not> closes l) rest
    \<and> split_statements sql = map text_of groups @ (if list_all is_white (text_of rest) then [] else [text_of rest])"
proof -
  obtain groups rest where "filter (\<lambda>l. \<not> comment_line l) (str_lines sql) = concat groups @ rest"
      "list_all one_statement groups" "list_all (\<lambda>l. \<not> closes l) rest"
      "split_loop (str_lines sql) [] [] = (map text_of groups, text_of rest)"
    using split_loop_groups [of "[]" "str_lines sql" "[]"] by auto
  then show ?thesis
    by (intro exI [of _ groups] exI [of _ rest]) (simp add: split_statements_def trim_empty)
qed

section \<open>What is executed\<close>

text \<open>The guard of the loop skips nothing: a piece is never blank and never starts with a comment.\<close>

lemma text_no_comment:
  "list_all (\<lambda>l. \<not> comment_line l) ls \<Longrightarrow> \<not> starts_with ''--'' (trim_start (text_of ls))"
proof (induction ls)
  case (Cons l ls)
  show ?case
  proof (cases "list_all is_white l")
    case True
    then show ?thesis using Cons by (simp add: trim_start_def drop_white_append)
  next
    case False
    then have t: "trim_start (text_of (l # ls)) = trim_start l @ CHR 0x0A # text_of ls"
      by (auto simp: trim_start_def list_all_iff dropWhile_append1)
    have "trim_start l \<noteq> []" using False by (auto simp: trim_start_def list_all_iff)
    then show ?thesis
      using Cons.prems unfolding t
      by (cases "trim_start l" rule: remdups_adj.cases) (auto simp: comment_line_iff)
  qed
qed (simp add: trim_start_def)

lemma trim_no_comment: "\<not> starts_with ''--'' (trim_start s) \<Longrightarrow> \<not> starts_with ''--'' (trim s)"
proof -
  have "\<exists>ws. s = trim_end s @ ws" for s
    by (metis rev_append rev_rev_ident takeWhile_dropWhile_id trim_end_def)
  then show "\<not> starts_with ''--'' (trim_start s) \<Longrightarrow> \<not> starts_with ''--'' (trim s)"
    unfolding trim_def starts_with_iff by (metis append_assoc)
qed

lemma closes_not_blank: "closes l \<Longrightarrow> \<not> list_all is_white (text_of (ls @ [l]))"
  by (auto simp: closes_def)

lemma pieces_executed:
  "list_all (\<lambda>s. trim s \<noteq> [] \<and> \<not> starts_with ''--'' (trim s)) (split_statements sql)"
proof -
  obtain groups rest where g: "filter (\<lambda>l. \<not> comment_line l) (str_lines sql) = concat groups @ rest"
      "list_all one_statement groups"
      "split_statements sql = map text_of groups @ (if list_all is_white (text_of rest) then [] else [text_of rest])"
    using split_statements_groups by blast
  have "list_all (\<lambda>l. \<not> comment_line l) (concat groups @ rest)" unfolding g(1) [symmetric] by (simp add: list_all_iff)
  then have "\<not> starts_with ''--'' (trim (text_of ls))" if "ls \<in> set groups \<or> ls = rest" for ls
    using that text_no_comment [of ls] by (intro trim_no_comment) (auto simp: list_all_iff)
  moreover have "\<not> list_all is_white (text_of ls)" if "ls \<in> set groups" for ls
    using that g(2) closes_not_blank by (auto simp: list_all_iff one_statement_def)
  ultimately show ?thesis by (auto simp: g(3) list_all_iff trim_empty)
qed

text \<open>A database that keeps the requests it is sent, and fails the one at position \<open>k\<close>.\<close>

definition logged :: "string \<Rightarrow> string list \<times> nat \<Rightarrow> (string list \<times> nat) \<times> bool" where
  "logged s d = ((fst d @ [s], snd d - 1), snd d \<noteq> 0)"

lemma apply_statements_log:
  "list_all (\<lambda>s. trim s \<noteq> [] \<and> \<not> starts_with ''--'' (trim s)) ss \<Longrightarrow>
   apply_statements logged ss (l, k) =
     (if length ss \<le> k then (Inr (), (l @ map trim ss, k - length ss))
      else (Inl (preview (trim (ss ! k))), (l @ map trim (take (Suc k) ss), 0)))"
  by (induction ss arbitrary: l k) (auto simp: Let_def logged_def nth_Cons' take_Cons')

definition requests :: "(string \<times> string) list \<Rightarrow> string list" where
  "requests ms = concat (map (\<lambda>(name, sql). map trim (split_statements sql)) ms)"

lemma requests_simps [simp]:
  "requests [] = []" "requests ((name, sql) # ms) = map trim (split_statements sql) @ requests ms"
  by (simp_all add: requests_def)

lemma apply_migrations_log:
  "apply_migrations logged ms (l, k) = (r, (lg, k')) \<Longrightarrow>
     lg = l @ take (Suc k) (requests ms) \<and>
     (if length (requests ms) \<le> k then r = Inr () \<and> k' = k - length (requests ms)
      else \<exists>before name sql after. ms = before @ (name, sql) # after
        \<and> r = Inl (name, preview (requests ms ! k))
        \<and> length (requests before) \<le> k \<and> k < length (requests before) + length (split_statements sql))"
proof (induction ms arbitrary: l k)
  case (Cons m ms)
  obtain name sql where m: "m = (name, sql)" by (cases m)
  let ?ss = "split_statements sql"
  note a = apply_statements_log [OF pieces_executed, of sql l k]
  show ?case
  proof (cases "length ?ss \<le> k")
    case True
    then have "apply_migrations logged ms (l @ map trim ?ss, k - length ?ss) = (r, (lg, k'))"
      using Cons.prems a by (simp add: m)
    note IH = Cons.IH [OF this]
    have "take (Suc k) (requests (m # ms)) = map trim ?ss @ take (Suc (k - length ?ss)) (requests ms)"
      using True by (simp add: m Suc_diff_le)
    moreover have "requests (m # ms) ! k = requests ms ! (k - length ?ss)" using True by (simp add: m nth_append)
    moreover have "\<exists>before' name' sql' after'. m # ms = before' @ (name', sql') # after'
        \<and> r = Inl (name', p) \<and> length (requests before') \<le> k
        \<and> k < length (requests before') + length (split_statements sql')"
      if "ms = before @ (name', sql') # after" "r = Inl (name', p)" "length (requests before) \<le> k - length ?ss"
        "k - length ?ss < length (requests before) + length (split_statements sql')" for before name' sql' after p
    proof -
      have "m # ms = (m # before) @ (name', sql') # after" "length (requests (m # before)) \<le> k"
          "k < length (requests (m # before)) + length (split_statements sql')"
        using that True by (simp_all add: m)
      then show ?thesis using that(2) by blast
    qed
    ultimately show ?thesis using IH True by (auto simp: m split: if_splits)
  next
    case False
    then have "lg = l @ map trim (take (Suc k) ?ss)" "r = Inl (name, preview (trim (?ss ! k)))"
      using Cons.prems a by (auto simp: m)
    moreover have "m # ms = [] @ (name, sql) # ms" "length (requests []) \<le> k" "k < length (requests []) + length ?ss"
      "requests (m # ms) ! k = trim (?ss ! k)" "take (Suc k) (requests (m # ms)) = map trim (take (Suc k) ?ss)"
      using False by (simp_all add: m nth_append take_map)
    moreover have "\<not> length (requests (m # ms)) \<le> k" using False by (simp add: m)
    ultimately show ?thesis by (metis (no_types))
  qed
qed simp

section \<open>Property\<close>

text \<open>
  C36: Each statement of the migrations is sent in a request of its own, in order, and nothing else is
  sent. The lines of a file that are not comments are cut into statements exactly after the
  lines that close one, and what is left behind the last of them is a statement too unless it is blank.
  Applying the files sends the statements of all of them, trimmed, in the order of
  the files, up to and including the first one that fails (here the one at position \<open>k\<close>), whose
  beginning is reported with the name of its file; without a failure it sends all of them.
\<close>

theorem migration_statements_in_order:
  "(\<exists>groups rest. filter (\<lambda>l. \<not> comment_line l) (str_lines sql) = concat groups @ rest
      \<and> list_all one_statement groups \<and> list_all (\<lambda>l. \<not> closes l) rest
      \<and> split_statements sql = map text_of groups @ (if list_all is_white (text_of rest) then [] else [text_of rest]))
   \<and> (case apply_migrations logged ms ([], k) of (r, (lg, _)) \<Rightarrow>
        lg = take (Suc k) (requests ms) \<and>
        (if length (requests ms) \<le> k then r = Inr ()
         else \<exists>before name file after. ms = before @ (name, file) # after
           \<and> r = Inl (name, preview (requests ms ! k))
           \<and> length (requests before) \<le> k \<and> k < length (requests before) + length (split_statements file)))"
proof -
  obtain r lg k' where "apply_migrations logged ms ([], k) = (r, (lg, k'))" by (metis prod.exhaust)
  with split_statements_groups [of sql] apply_migrations_log [OF this] show ?thesis
    by (auto split: if_splits)
qed

end
