(* ===== verification/Rpc_Server.thy ===== *)
theory Rpc_Server
  imports Proto Intern
begin

text \<open>
  The RPC server of the agent, \<^verbatim>\<open>crates/perfweave-agent/src/rpc_server.rs\<close>: what an agent streams
  back when it is asked to replay kernels. The hash of a name is an argument. The lemmas show
  that the synthetic replay answers every id of a request once and in order, with percentages
  that are percentages.
\<close>

section \<open>Model\<close>

record AgentRpcServer =
  rpc_synthetic :: bool

datatype rpc_status = Unimplemented string | Rpc_Failed string

text \<open>The card of the \<open>i\<close>-th kernel of a request.\<close>

definition synthetic_bound :: "nat \<Rightarrow> Bound" where
  "synthetic_bound i =
     (if i mod 4 = 0 then Bound_Memory else if i mod 4 = 1 then Bound_Compute
      else if i mod 4 = 2 then Bound_Latency else Bound_Balanced)"

definition synthetic_sm :: "nat \<Rightarrow> f32" where
  "synthetic_sm i =
     fadd F32 (lit F32 35) (frem F32 (fmul F32 (of_int_fp F32 (int i)) (lit F32 5)) (lit F32 60))"

definition synthetic_dram :: "nat \<Rightarrow> f32" where
  "synthetic_dram i =
     fsub F32 (lit F32 70) (frem F32 (fmul F32 (of_int_fp F32 (int i)) (lit F32 3)) (lit F32 40))"

definition synthetic_sol :: "(string \<Rightarrow> u64) \<Rightarrow> nat \<Rightarrow> u64 \<Rightarrow> KernelSol" where
  "synthetic_sol h i corr =
     \<lparr>ks_correlation_id = corr, ks_sm_active_pct = synthetic_sm i,
      ks_achieved_occupancy_pct = lit F32 40, ks_dram_bw_pct = synthetic_dram i,
      ks_l1_bw_pct = lit F32 25, ks_l2_bw_pct = lit F32 50, ks_inst_throughput_pct = lit F32 60,
      ks_theoretical_occupancy_pct = lit F32 60, ks_arithmetic_intensity = lit F32 (17 / 4),
      ks_achieved_gflops = lit F32 1200, ks_bound = bound_i32 (synthetic_bound i),
      ks_confidence = confidence_i32 Conf_High, ks_source = source_i32 Src_Replay,
      ks_stalls =
        [\<lparr>sc_reason_id = ucast (intern_hash h ''MemoryThrottle''), sc_count = 1000\<rparr>,
         \<lparr>sc_reason_id = ucast (intern_hash h ''Barrier''), sc_count = 250\<rparr>]\<rparr>"

text \<open>What is sent into the stream; an error of a send is ignored.\<close>

definition replay_ids :: "ProfileRequest \<Rightarrow> u64 list" where
  "replay_ids req = (if pr_correlation_ids req \<noteq> [] then pr_correlation_ids req else pr_name_ids req)"

definition synthetic_replay :: "(string \<Rightarrow> u64) \<Rightarrow> ProfileRequest \<Rightarrow> (rpc_status + KernelSol) list" where
  "synthetic_replay h req = map (\<lambda>(i, corr). Inr (synthetic_sol h i corr)) (enumerate 0 (replay_ids req))"

definition rpc_profile_kernels ::
  "(string \<Rightarrow> u64) \<Rightarrow> AgentRpcServer \<Rightarrow> ProfileRequest \<Rightarrow> (rpc_status + KernelSol) list" where
  "rpc_profile_kernels h srv req =
     (if rpc_synthetic srv then synthetic_replay h req
      else [Inl (Unimplemented (''CUPTI_PROFILER_REPLAY_KERNEL not compiled in; '' @
                 ''rebuild agent with --features cupti-replay''))])"

section \<open>The values of a card\<close>

lemma rnd_F32_int:
  assumes "n \<noteq> 0" "\<bar>n\<bar> < 2 ^ 24"
  shows "rnd F32 (of_int n) = FFin (of_int n)"
proof -
  have "rat_of_int \<bar>n\<bar> < of_int (2 ^ 24)" using assms(2) by (simp only: of_int_less_iff)
  also have "\<dots> = p2 24" by (simp add: p2_nat)
  also have "\<dots> < p2 128" by simp
  finally have "rnd F32 (of_int n * p2 0) = FFin (of_int n * p2 0)"
    using assms by (intro rnd_exact) (simp_all add: p2_def)
  then show ?thesis by (simp add: p2_def)
qed

lemma lit_F32_numeral:
  "(numeral k :: int) < 2 ^ 24 \<Longrightarrow> lit F32 (numeral k) = FFin (numeral k)"
  using rnd_F32_int [of "numeral k"] by (simp add: lit_def)

lemma representable_F32_int: "n \<noteq> 0 \<Longrightarrow> \<bar>n\<bar> < 2 ^ 24 \<Longrightarrow> representable F32 (of_int n)"
  by (simp add: representable_def rnd_F32_int)

text \<open>Rounding a number between zero and a number of the format keeps it there.\<close>

lemma rnd_below:
  assumes "0 \<le> r" "r \<le> hi" "representable f hi"
  shows "is_fin (rnd f r) \<and> \<not> sign_neg (rnd f r) \<and> 0 \<le> fval (rnd f r) \<and> fval (rnd f r) \<le> hi"
proof (cases "r = 0")
  case True
  then show ?thesis using assms by simp
next
  case False
  with assms have r: "0 < r" "0 < hi" by simp_all
  have "rval f hi = hi" "hi < p2 (eovf f)"
    using assms(3) rnd_rval [OF r(2), of f] by (auto simp: representable_def not_le split: if_splits)
  moreover have "0 \<le> rval f r" using rne_mono [of 0 "r / p2 (ulp_exp f r)"] rne_of_int [of 0] r by (simp add: rval_def)
  ultimately show ?thesis using rval_mono [OF r(1) assms(2), of f] rnd_rval [OF r(1), of f] r by auto
qed

lemma frem_range:
  assumes "is_fin a" "\<not> sign_neg a" "0 < m" "representable F32 m"
  shows "is_fin (frem F32 a (FFin m)) \<and> \<not> sign_neg (frem F32 a (FFin m))
    \<and> 0 \<le> fval (frem F32 a (FFin m)) \<and> fval (frem F32 a (FFin m)) \<le> m"
proof -
  let ?r = "fval a - of_int \<lfloor>fval a / m\<rfloor> * m"
  have "of_int \<lfloor>fval a / m\<rfloor> * m \<le> fval a" "fval a < (of_int \<lfloor>fval a / m\<rfloor> + 1) * m"
    using assms(3) floor_divide_lower [of m "fval a"] floor_divide_upper [of m "fval a"] by simp_all
  then have "0 \<le> ?r" "?r \<le> m" by (simp_all add: algebra_simps)
  moreover have "frem F32 a (FFin m) = rnd_sign F32 False ?r"
    using assms by (cases a) (simp_all add: frem_def Let_def divide_less_0_iff)
  ultimately show ?thesis
    using rnd_below [of ?r m F32] assms(3,4) by (simp add: rnd_sign_def)
qed

lemma index_times_F32:
  assumes "i < 2 ^ 64" "0 < c" "c < 2 ^ 24"
  shows "is_fin (fmul F32 (of_int_fp F32 (int i)) (FFin (of_int c)))
    \<and> \<not> sign_neg (fmul F32 (of_int_fp F32 (int i)) (FFin (of_int c)))"
proof -
  have rep: "representable F32 (p2 k)" if "0 \<le> k" "k < 128" for k
    using that rnd_exact [of 1 F32 k] by (simp add: representable_def)
  let ?x = "of_int_fp F32 (int i)"
  have "int i \<le> 2 ^ 64" using assms(1) of_nat_less_iff [of i "2 ^ 64", where 'a = int] by simp
  then have "rat_of_int (int i) \<le> of_int (2 ^ 64)" by (simp only: of_int_le_iff)
  then have "rat_of_int (int i) \<le> p2 64" by (simp add: p2_nat)
  then have x: "is_fin ?x" "\<not> sign_neg ?x" "0 \<le> fval ?x" "fval ?x \<le> p2 64"
    using rnd_below [of "of_int (int i)" "p2 64" F32] rep [of 64] by (simp_all add: of_int_fp_def)
  have c: "0 < rat_of_int c" "rat_of_int c \<le> p2 24"
    using assms(2,3) by (simp_all add: p2_nat)
  have "fval ?x * of_int c \<le> p2 64 * p2 24" using x(3,4) c by (intro mult_mono) simp_all
  then have "fval ?x * of_int c \<le> p2 88" by (simp flip: p2_add)
  then have "is_fin (rnd F32 (fval ?x * of_int c)) \<and> \<not> sign_neg (rnd F32 (fval ?x * of_int c))"
    using rnd_below [of "fval ?x * of_int c" "p2 88" F32] rep [of 88] x(3) c(1) by simp
  then show ?thesis using x(1,2) c(1) by (cases ?x) (simp_all add: fmul_def rnd_sign_def)
qed

definition is_pct :: "f32 \<Rightarrow> bool" where
  "is_pct x \<longleftrightarrow> is_fin x \<and> 0 \<le> fval x \<and> fval x \<le> 100"

lemma fadd_between:
  assumes "0 < b" "is_fin x" "lo \<le> b + fval x" "b + fval x \<le> hi" "0 < lo" "hi \<le> 100"
    "representable F32 b" "representable F32 lo" "representable F32 hi"
  shows "is_pct (fadd F32 (FFin b) x)"
proof -
  have "fadd F32 (FFin b) x = rnd F32 (b + fval x)"
    using assms(2,7) by (cases x) (simp_all add: representable_def)
  then show ?thesis
    using rnd_between [of lo F32 hi "b + fval x"] assms by (auto simp: is_pct_def)
qed

lemma synthetic_sm_pct: "i < 2 ^ 64 \<Longrightarrow> is_pct (synthetic_sm i)"
  using index_times_F32 [of i 5] frem_range [of "fmul F32 (of_int_fp F32 (int i)) (FFin 5)" 60]
    representable_F32_int [of 60] representable_F32_int [of 35] representable_F32_int [of 95]
  by (simp add: synthetic_sm_def lit_F32_numeral) (rule fadd_between [of _ _ 35 95]; simp)

lemma synthetic_dram_pct: "i < 2 ^ 64 \<Longrightarrow> is_pct (synthetic_dram i)"
proof -
  assume i: "i < 2 ^ 64"
  let ?x = "frem F32 (fmul F32 (of_int_fp F32 (int i)) (FFin 3)) (FFin 40)"
  have x: "is_fin ?x" "0 \<le> fval ?x" "fval ?x \<le> 40"
    using index_times_F32 [of i 3] frem_range [of "fmul F32 (of_int_fp F32 (int i)) (FFin 3)" 40]
      representable_F32_int [of 40] i by simp_all
  have "is_fin (fneg ?x)" "fval (fneg ?x) = - fval ?x" using x(1) by (cases ?x; simp)+
  then show ?thesis
    using x representable_F32_int [of 70] representable_F32_int [of 30]
    by (simp add: synthetic_dram_def lit_F32_numeral fsub_def) (rule fadd_between [of _ _ 30 70]; simp)
qed

lemma synthetic_answers:
  assumes "rpc_synthetic srv" "length (replay_ids req) \<le> 2 ^ 64"
  shows "\<exists>sols. rpc_profile_kernels h srv req = map Inr sols \<and> map ks_correlation_id sols = replay_ids req
    \<and> list_all (\<lambda>s. confidence_of_i32 (ks_confidence s) = Conf_High \<and> source_of_i32 (ks_source s) = Src_Replay
        \<and> is_pct (ks_sm_active_pct s) \<and> is_pct (ks_dram_bw_pct s) \<and> is_pct (ks_achieved_occupancy_pct s)
        \<and> is_pct (ks_l1_bw_pct s) \<and> is_pct (ks_l2_bw_pct s) \<and> is_pct (ks_inst_throughput_pct s)) sols"
proof (intro exI conjI)
  let ?sols = "map (\<lambda>(i, corr). synthetic_sol h i corr) (enumerate 0 (replay_ids req))"
  show "rpc_profile_kernels h srv req = map Inr ?sols"
    using assms(1) by (simp add: rpc_profile_kernels_def synthetic_replay_def case_prod_unfold)
  have "map ks_correlation_id ?sols = map snd (enumerate 0 (replay_ids req))"
    by (simp add: synthetic_sol_def case_prod_unfold o_def)
  then show "map ks_correlation_id ?sols = replay_ids req" by simp
  have "is_pct (synthetic_sm i) \<and> is_pct (synthetic_dram i)" if "i < length (replay_ids req)" for i
    using that assms(2) by (intro conjI synthetic_sm_pct synthetic_dram_pct) linarith+
  then show "list_all (\<lambda>s. confidence_of_i32 (ks_confidence s) = Conf_High \<and> source_of_i32 (ks_source s) = Src_Replay
        \<and> is_pct (ks_sm_active_pct s) \<and> is_pct (ks_dram_bw_pct s) \<and> is_pct (ks_achieved_occupancy_pct s)
        \<and> is_pct (ks_l1_bw_pct s) \<and> is_pct (ks_l2_bw_pct s) \<and> is_pct (ks_inst_throughput_pct s)) ?sols"
    by (auto simp: list_all_iff in_set_enumerate_eq synthetic_sol_def lit_F32_numeral is_pct_def
        simp del: confidence_i32.simps source_i32.simps)
qed

section \<open>Properties\<close>

text \<open>
  A synthetic agent answers a replay request completely: exactly one card per requested
  kernel, in the order of the request (the name ids when no correlation ids are given), none of
  them an error, every card marked as an exact replay measurement, and every percentage on it
  between 0 and 100 although it is computed with rounding.
\<close>

theorem synthetic_replay_answers:
  assumes "rpc_synthetic srv" "length (replay_ids req) \<le> 2 ^ 64"
  shows "\<exists>sols. rpc_profile_kernels h srv req = map Inr sols \<and> map ks_correlation_id sols = replay_ids req
    \<and> list_all (\<lambda>s. confidence_of_i32 (ks_confidence s) = Conf_High \<and> source_of_i32 (ks_source s) = Src_Replay
        \<and> is_pct (ks_sm_active_pct s) \<and> is_pct (ks_dram_bw_pct s) \<and> is_pct (ks_achieved_occupancy_pct s)
        \<and> is_pct (ks_l1_bw_pct s) \<and> is_pct (ks_l2_bw_pct s) \<and> is_pct (ks_inst_throughput_pct s)) sols"
  by (rule synthetic_answers [OF assms])

definition replay_request :: ProfileRequest where
  "replay_request = \<lparr>pr_gpu_id = 0, pr_window_start_ns = 0, pr_window_end_ns = 1000,
     pr_correlation_ids = [7, 9], pr_name_ids = [], pr_timeout_ms = 5000\<rparr>"

theorem synthetic_replay_answers_witness:
  "\<exists>sols. rpc_profile_kernels (\<lambda>s. 0) \<lparr>rpc_synthetic = True\<rparr> replay_request = map Inr sols
     \<and> map ks_correlation_id sols = [7, 9]"
  using synthetic_replay_answers [of "\<lparr>rpc_synthetic = True\<rparr>" replay_request "\<lambda>s. 0"]
  by (auto simp: replay_ids_def replay_request_def)

end
