(* ===== verification/Graphql.thy ===== *)
theory Graphql
  imports Text Sink Replay Rpc_Server
begin

text \<open>
  The control plane, \<^verbatim>\<open>crates/perfweave-server/src/api/graphql.rs\<close>: the queries on nodes, names,
  spikes and kernels, the drill-down of a spike, and the mutation that asks an agent to replay
  kernels. The database, the RPC client and the sink's channel are arguments; an SQL text is
  the list of its lines without their indentation. The lemmas give the window of a drill-down,
  show that the two bottleneck verdicts exclude each other in spite of rounding, and follow a
  replay request from the registry to the sink.
\<close>

section \<open>Data\<close>

record Node =
  nd_node_id :: u32
  nd_hostname :: string
  nd_agent_version :: string
  nd_num_gpus :: u8
  nd_last_seen_ns :: u64

record StringEntry =
  se_id :: u64
  se_text :: string

record Spike =
  sk_bucket_start_ns :: u64
  sk_bucket_width_ns :: u64
  sk_node_id :: u32
  sk_gpu_id :: u8
  sk_metric_id :: u64
  sk_value :: f64
  sk_median :: f64
  sk_mad :: f64
  sk_z_mad :: f64

record CorrelatedEvent =
  ce_ts_ns :: u64
  ce_duration_ns :: u64
  ce_gpu_id :: u8
  ce_category :: u8
  ce_name_id :: u64
  ce_pid :: u32
  ce_stream_id :: u32

record TopKernelsInWindow =
  tk_name_id :: u64
  tk_name :: string
  tk_total_duration_ns :: u64
  tk_launches :: u64
  tk_mean_duration_ns :: u64

datatype Bottleneck = ComputeBound | MemoryBound | Unclassified

record SolCard =
  sc_sm_active_pct :: f64
  sc_achieved_occupancy_pct :: f64
  sc_dram_bw_pct :: f64
  sc_l1_bw_pct :: f64
  sc_l2_bw_pct :: f64
  sc_inst_throughput_pct :: f64
  sc_arithmetic_intensity :: f64
  sc_achieved_gflops :: f64
  sc_bound :: string
  sc_confidence :: string
  sc_source :: string

record KernelInWindow =
  kw_correlation_id :: u64
  kw_name_id :: u64
  kw_name :: string
  kw_ts_ns :: u64
  kw_duration_ns :: u64
  kw_gpu_id :: u8
  kw_sol :: "SolCard option"

record SpikeContext =
  sx_bucket_start_ns :: u64
  sx_bucket_width_ns :: u64
  sx_gpu_id :: u8
  sx_metric_id :: u64
  sx_metric_name :: string
  sx_bottleneck :: Bottleneck
  sx_avg_mem_util :: f64
  sx_avg_gpu_util :: f64
  sx_top_kernels :: "TopKernelsInWindow list"
  sx_kernels_in_window :: "KernelInWindow list"

record ProfileKernelsAck =
  pk_node_id :: u32
  pk_requested :: u32
  pk_completed :: u32
  pk_results :: "SolCard list"

text \<open>The rows of the queries that are converted: \<^verbatim>\<open>R\<close> and \<^verbatim>\<open>K\<close>, \<^verbatim>\<open>UtilRow\<close>, \<^verbatim>\<open>Kiw\<close>.\<close>

record KernelAgg =
  ka_name_id :: u64
  ka_name :: string
  ka_total_duration_ns :: u64
  ka_launches :: u64
  ka_mean_duration_ns :: u64

record UtilRow =
  ut_avg_gpu_util :: f64
  ut_avg_mem_util :: f64

record Kiw =
  ki_correlation_id :: u64
  ki_name_id :: u64
  ki_name :: string
  ki_ts_ns :: u64
  ki_duration_ns :: u64
  ki_gpu_id :: u8
  ki_sm :: f32
  ki_occ :: f32
  ki_dram :: f32
  ki_l1 :: f32
  ki_l2 :: f32
  ki_inst :: f32
  ki_ai :: f32
  ki_gflops :: f32
  ki_bound :: string
  ki_confidence :: string
  ki_source :: string
  ki_sol_rows :: u64

text \<open>What the database answers, for each type of row.\<close>

record 'e GqlDb =
  gd_nodes :: "string list \<Rightarrow> 'e + Node list"
  gd_strings :: "string list \<Rightarrow> 'e + StringEntry list"
  gd_spikes :: "string list \<Rightarrow> 'e + Spike list"
  gd_correlated :: "string list \<Rightarrow> 'e + CorrelatedEvent list"
  gd_kernels :: "string list \<Rightarrow> 'e + KernelAgg list"
  gd_text :: "string list \<Rightarrow> 'e + string option"
  gd_util :: "string list \<Rightarrow> 'e + UtilRow option"
  gd_kiw :: "string list \<Rightarrow> 'e + Kiw list"

section \<open>Queries\<close>

definition gql_nodes :: "'e GqlDb \<Rightarrow> 'e + Node list" where
  "gql_nodes db = gd_nodes db
     [''SELECT node_id, hostname, agent_version, num_gpus, last_seen_ns FROM nodes FINAL ORDER BY node_id'']"

definition gql_strings :: "'e GqlDb \<Rightarrow> u64 list \<Rightarrow> 'e + StringEntry list" where
  "gql_strings db ids =
     (if ids = [] then Inr []
      else gd_strings db
        [''SELECT id, text FROM strings FINAL WHERE id IN ('' @
         join '','' (map (\<lambda>i. show_nat (unat i)) ids) @ '')''])"

definition gql_spikes :: "'e GqlDb \<Rightarrow> u64 \<Rightarrow> u64 \<Rightarrow> 'e + Spike list" where
  "gql_spikes db start_ns end_ns = gd_spikes db
     [''SELECT bucket_start_ns, bucket_width_ns, node_id, gpu_id,'',
      ''metric_id, value, median, mad, z_mad'',
      ''FROM spikes'',
      ''WHERE bucket_start_ns >= '' @ show_nat (unat start_ns),
      ''AND bucket_start_ns <  '' @ show_nat (unat end_ns),
      ''AND z_mad >= 3.5'',
      ''ORDER BY bucket_start_ns'',
      ''LIMIT 1000'']"

definition gql_correlated :: "'e GqlDb \<Rightarrow> u64 \<Rightarrow> 'e + CorrelatedEvent list" where
  "gql_correlated db correlation_id = gd_correlated db
     [''SELECT ts_ns, duration_ns, gpu_id, toUInt8(category) AS category,'',
      ''name_id, pid, stream_id'',
      ''FROM events'',
      ''WHERE correlation_id = '' @ show_nat (unat correlation_id),
      ''ORDER BY ts_ns'',
      ''LIMIT 64'']"

definition top_kernel_of :: "KernelAgg \<Rightarrow> TopKernelsInWindow" where
  "top_kernel_of r =
     \<lparr>tk_name_id = ka_name_id r, tk_name = ka_name r, tk_total_duration_ns = ka_total_duration_ns r,
      tk_launches = ka_launches r, tk_mean_duration_ns = ka_mean_duration_ns r\<rparr>"

text \<open>The common head of the two queries that aggregate kernels by name.\<close>

definition kernels_by_name :: "string list" where
  "kernels_by_name =
     [''SELECT'', ''name_id,'', ''any(s.text) AS name,'', ''sum(duration_ns) AS total_duration_ns,'',
      ''count()          AS launches,'', ''toUInt64(avg(duration_ns)) AS mean_duration_ns'',
      ''FROM events AS e'', ''LEFT JOIN strings AS s FINAL ON s.id = e.name_id'',
      ''WHERE category = '' @ quoted ''KERNEL'']"

definition top_limit :: "u32 option \<Rightarrow> u32" where
  "top_limit limit = min (case limit of Some l \<Rightarrow> l | None \<Rightarrow> 3) 32"

definition top_kernels_sql :: "u64 \<Rightarrow> u64 \<Rightarrow> u8 option \<Rightarrow> u32 option \<Rightarrow> string list" where
  "top_kernels_sql start_ns end_ns gpu_id limit =
     kernels_by_name @
     [''AND ts_ns >= '' @ show_nat (unat start_ns),
      ''AND ts_ns <  '' @ show_nat (unat end_ns),
      (case gpu_id of Some g \<Rightarrow> '' AND gpu_id = '' @ show_nat (unat g) | None \<Rightarrow> ''''),
      ''GROUP BY name_id'',
      ''ORDER BY total_duration_ns DESC'',
      ''LIMIT '' @ show_nat (unat (top_limit limit))]"

definition top_kernels_in_window ::
  "'e GqlDb \<Rightarrow> u64 \<Rightarrow> u64 \<Rightarrow> u8 option \<Rightarrow> u32 option \<Rightarrow> 'e + TopKernelsInWindow list" where
  "top_kernels_in_window db start_ns end_ns gpu_id limit =
     and_then (gd_kernels db (top_kernels_sql start_ns end_ns gpu_id limit))
       (\<lambda>rows. Inr (map top_kernel_of rows))"

section \<open>The drill-down of a spike\<close>

definition PAD :: u64 where "PAD = 500000000"

definition spike_window :: "u64 \<Rightarrow> u64 \<Rightarrow> u64 \<times> u64" where
  "spike_window bucket_start_ns bucket_width_ns =
     (sat_sub bucket_start_ns PAD, sat_add (sat_add bucket_start_ns bucket_width_ns) PAD)"

definition metric_name_sql :: "u64 \<Rightarrow> string list" where
  "metric_name_sql metric_id =
     [''SELECT text FROM strings FINAL WHERE id = '' @ show_nat (unat metric_id) @ '' LIMIT 1'']"

definition window_lines :: "string \<Rightarrow> u8 \<Rightarrow> u64 \<times> u64 \<Rightarrow> string list" where
  "window_lines col gpu_id w =
     [''AND '' @ col @ ''gpu_id = '' @ show_nat (unat gpu_id),
      ''AND '' @ col @ ''ts_ns >= '' @ show_nat (unat (fst w)),
      ''AND '' @ col @ ''ts_ns <  '' @ show_nat (unat (snd w))]"

definition avg_if :: "string list \<Rightarrow> string \<Rightarrow> string" where
  "avg_if names alias =
     ''avgIf(value, name_id IN (SELECT id FROM strings FINAL WHERE text IN ('' @
     join '','' (map quoted names) @ ''))) AS '' @ alias"

definition util_sql :: "u8 \<Rightarrow> u64 \<times> u64 \<Rightarrow> string list" where
  "util_sql gpu_id w =
     [''SELECT'',
      avg_if [''gpu.util.percent'', ''gpu_util''] ''avg_gpu_util'' @ '','',
      avg_if [''gpu.mem.util.percent'', ''mem_util''] ''avg_mem_util'',
      ''FROM events'',
      ''WHERE category = '' @ quoted ''METRIC''] @ window_lines [] gpu_id w"

definition classify_bottleneck :: "f64 \<Rightarrow> f64 \<Rightarrow> Bottleneck" where
  "classify_bottleneck avg_gpu_util avg_mem_util =
     (if flt (fmul F64 avg_gpu_util (lit F64 (12 / 10))) avg_mem_util \<and> flt (lit F64 5) avg_mem_util
      then MemoryBound
      else if flt (fmul F64 avg_mem_util (lit F64 (12 / 10))) avg_gpu_util \<and> flt (lit F64 20) avg_gpu_util
      then ComputeBound
      else Unclassified)"

definition spike_kernels_sql :: "u8 \<Rightarrow> u64 \<times> u64 \<Rightarrow> string list" where
  "spike_kernels_sql gpu_id w =
     kernels_by_name @ window_lines [] gpu_id w @
     [''GROUP BY name_id'', ''ORDER BY total_duration_ns DESC'', ''LIMIT 3'']"

definition kiw_sql :: "u8 \<Rightarrow> u64 \<times> u64 \<Rightarrow> string list" where
  "kiw_sql gpu_id w =
     [''SELECT'',
      ''e.correlation_id    AS correlation_id,'',
      ''e.name_id           AS name_id,'',
      ''coalesce(s.text,'' @ quoted [] @ '') AS name,'',
      ''e.ts_ns             AS ts_ns,'',
      ''e.duration_ns       AS duration_ns,'',
      ''e.gpu_id            AS gpu_id,'',
      ''argMax(k.sm_active_pct,          k.confidence) AS sm,'',
      ''argMax(k.achieved_occupancy_pct, k.confidence) AS occ,'',
      ''argMax(k.dram_bw_pct,            k.confidence) AS dram,'',
      ''argMax(k.l1_bw_pct,              k.confidence) AS l1,'',
      ''argMax(k.l2_bw_pct,              k.confidence) AS l2,'',
      ''argMax(k.inst_throughput_pct,    k.confidence) AS inst,'',
      ''argMax(k.arithmetic_intensity,   k.confidence) AS ai,'',
      ''argMax(k.achieved_gflops,        k.confidence) AS gflops,'',
      ''argMax(toString(k.bound),        k.confidence) AS bound,'',
      ''argMax(toString(k.confidence),   k.confidence) AS confidence,'',
      ''argMax(toString(k.source),       k.confidence) AS source,'',
      ''count(k.correlation_id)                        AS sol_rows'',
      ''FROM events AS e'',
      ''LEFT JOIN strings    AS s FINAL ON s.id = e.name_id'',
      ''LEFT JOIN kernel_sol AS k        ON k.correlation_id = e.correlation_id'',
      ''WHERE e.category = '' @ quoted ''KERNEL''] @
     window_lines ''e.'' gpu_id w @
     [''GROUP BY e.correlation_id, e.name_id, s.text, e.ts_ns, e.duration_ns, e.gpu_id'',
      ''ORDER BY e.duration_ns DESC'',
      ''LIMIT 32'']"

text \<open>Widening an \<^verbatim>\<open>f32\<close> to \<^verbatim>\<open>f64\<close> is exact.\<close>

definition kernel_in_window_of :: "Kiw \<Rightarrow> KernelInWindow" where
  "kernel_in_window_of r =
     \<lparr>kw_correlation_id = ki_correlation_id r, kw_name_id = ki_name_id r, kw_name = ki_name r,
      kw_ts_ns = ki_ts_ns r, kw_duration_ns = ki_duration_ns r, kw_gpu_id = ki_gpu_id r,
      kw_sol =
        (if 0 < ki_sol_rows r
         then Some \<lparr>sc_sm_active_pct = ki_sm r, sc_achieved_occupancy_pct = ki_occ r,
                    sc_dram_bw_pct = ki_dram r, sc_l1_bw_pct = ki_l1 r, sc_l2_bw_pct = ki_l2 r,
                    sc_inst_throughput_pct = ki_inst r, sc_arithmetic_intensity = ki_ai r,
                    sc_achieved_gflops = ki_gflops r, sc_bound = ki_bound r,
                    sc_confidence = ki_confidence r, sc_source = ki_source r\<rparr>
         else None)\<rparr>"

definition util_default :: UtilRow where
  "util_default = \<lparr>ut_avg_gpu_util = FZero False, ut_avg_mem_util = FZero False\<rparr>"

definition spike_context :: "'e GqlDb \<Rightarrow> u64 \<Rightarrow> u64 \<Rightarrow> u8 \<Rightarrow> u64 \<Rightarrow> 'e + SpikeContext" where
  "spike_context db bucket_start_ns bucket_width_ns gpu_id metric_id =
     (let w = spike_window bucket_start_ns bucket_width_ns in
      and_then (gd_text db (metric_name_sql metric_id)) (\<lambda>name.
      let metric_name = (case name of Some t \<Rightarrow> t | None \<Rightarrow> ''metric#'' @ show_nat (unat metric_id)) in
      and_then (gd_util db (util_sql gpu_id w)) (\<lambda>u.
      let util = (case u of Some r \<Rightarrow> r | None \<Rightarrow> util_default);
          bottleneck = classify_bottleneck (ut_avg_gpu_util util) (ut_avg_mem_util util) in
      and_then (gd_kernels db (spike_kernels_sql gpu_id w)) (\<lambda>krows.
      and_then (gd_kiw db (kiw_sql gpu_id w)) (\<lambda>kiw.
      Inr \<lparr>sx_bucket_start_ns = bucket_start_ns, sx_bucket_width_ns = bucket_width_ns,
           sx_gpu_id = gpu_id, sx_metric_id = metric_id, sx_metric_name = metric_name,
           sx_bottleneck = bottleneck, sx_avg_mem_util = ut_avg_mem_util util,
           sx_avg_gpu_util = ut_avg_gpu_util util, sx_top_kernels = map top_kernel_of krows,
           sx_kernels_in_window = map kernel_in_window_of kiw\<rparr>)))))"

section \<open>The replay mutation\<close>

text \<open>The names of the enumerations' values as the generated code prints them.\<close>

fun bound_debug :: "Bound \<Rightarrow> string" where
  "bound_debug Bound_Unknown = ''Unknown''"
| "bound_debug Bound_Memory = ''Memory''"
| "bound_debug Bound_Compute = ''Compute''"
| "bound_debug Bound_Latency = ''Latency''"
| "bound_debug Bound_Balanced = ''Balanced''"

fun confidence_debug :: "Confidence \<Rightarrow> string" where
  "confidence_debug Conf_Unknown = ''ConfUnknown''"
| "confidence_debug Conf_Low = ''Low''"
| "confidence_debug Conf_High = ''High''"

fun source_debug :: "Source \<Rightarrow> string" where
  "source_debug Src_Unknown = ''SrcUnknown''"
| "source_debug Src_HostSampling = ''HostSampling''"
| "source_debug Src_Replay = ''Replay''"

definition kernel_sol_to_row :: "KernelSol \<Rightarrow> SolCard" where
  "kernel_sol_to_row s =
     \<lparr>sc_sm_active_pct = ks_sm_active_pct s, sc_achieved_occupancy_pct = ks_achieved_occupancy_pct s,
      sc_dram_bw_pct = ks_dram_bw_pct s, sc_l1_bw_pct = ks_l1_bw_pct s, sc_l2_bw_pct = ks_l2_bw_pct s,
      sc_inst_throughput_pct = ks_inst_throughput_pct s,
      sc_arithmetic_intensity = ks_arithmetic_intensity s, sc_achieved_gflops = ks_achieved_gflops s,
      sc_bound = bound_debug (bound_of_i32 (ks_bound s)),
      sc_confidence = confidence_debug (confidence_of_i32 (ks_confidence s)),
      sc_source = source_debug (source_of_i32 (ks_source s))\<rparr>"

text \<open>The loop over the stream; a failed push into the sink is only logged.\<close>

fun collect_sols ::
  "(SinkMsg \<Rightarrow> 'ch \<Rightarrow> 'ch \<times> bool) \<Rightarrow> u32 \<Rightarrow> ('s + KernelSol) list \<Rightarrow> u32 \<Rightarrow> SolCard list \<Rightarrow> 'ch
     \<Rightarrow> u32 \<times> SolCard list \<times> 'ch" where
  "collect_sols send node_id [] completed results ch = (completed, results, ch)"
| "collect_sols send node_id (Inr sol # msgs) completed results ch =
     (let (ch', ok) = push_kernel_sol send node_id sol ch
      in collect_sols send node_id msgs (completed + 1) (results @ [kernel_sol_to_row sol]) ch')"
| "collect_sols send node_id (Inl e # msgs) completed results ch = (completed, results, ch)"

definition profile_request :: "u32 \<Rightarrow> u64 \<Rightarrow> u64 \<Rightarrow> u64 list \<Rightarrow> u32 option \<Rightarrow> ProfileRequest" where
  "profile_request gpu_id window_start_ns window_end_ns correlation_ids timeout_ms =
     \<lparr>pr_gpu_id = gpu_id, pr_window_start_ns = window_start_ns, pr_window_end_ns = window_end_ns,
      pr_correlation_ids = correlation_ids, pr_name_ids = [],
      pr_timeout_ms = (case timeout_ms of Some t \<Rightarrow> t | None \<Rightarrow> 5000)\<rparr>"

definition gql_profile_kernels ::
  "(string \<Rightarrow> 'e + 'c) \<Rightarrow> ('c \<Rightarrow> ProfileRequest \<Rightarrow> 'e + ('s + KernelSol) list) \<Rightarrow> (SinkMsg \<Rightarrow> 'ch \<Rightarrow> 'ch \<times> bool)
     \<Rightarrow> AgentRegistry \<Rightarrow> u32 \<Rightarrow> u32 \<Rightarrow> u64 \<Rightarrow> u64 \<Rightarrow> u64 list \<Rightarrow> u32 option \<Rightarrow> 'ch
     \<Rightarrow> ('e profile_error + ProfileKernelsAck) \<times> 'ch" where
  "gql_profile_kernels connect call send agents node_id gpu_id window_start_ns window_end_ns
      correlation_ids timeout_ms ch =
     (case profile_kernels_rpc connect call agents node_id
             (profile_request gpu_id window_start_ns window_end_ns correlation_ids timeout_ms) of
        Inl e \<Rightarrow> (Inl e, ch)
      | Inr stream \<Rightarrow>
          let (completed, results, ch') = collect_sols send node_id stream 0 [] ch
          in (Inr \<lparr>pk_node_id = node_id, pk_requested = of_nat (length correlation_ids),
                   pk_completed = completed, pk_results = results\<rparr>, ch'))"

section \<open>The window and the verdict\<close>

text \<open>
  The window of a drill-down always contains the bucket of the spike: it reaches from
  500 ms before the start of the bucket, or the epoch, to 500 ms after its end, or the largest
  time stamp, and never wraps around.
\<close>

theorem spike_window_bounds:
  "unat (fst (spike_window b w)) = unat b - 500000000
   \<and> unat (snd (spike_window b w)) = min (unat b + unat w + 500000000) (2 ^ 64 - 1)"
proof -
  have "int (unat (sat_sub b PAD)) = max 0 (int (unat b) - 500000000)"
    using uint_sat_sub [of b PAD] by (simp add: PAD_def)
  then have "unat (sat_sub b PAD) = unat b - 500000000" by linarith
  moreover have "unat (sat_add (sat_add b w) PAD) = min (unat b + unat w + 500000000) (2 ^ 64 - 1)"
    by (simp add: unat_sat_add PAD_def)
  ultimately show ?thesis by (simp add: spike_window_def)
qed

lemma lit_six_fifths: "\<exists>t. lit F64 (12 / 10) = FFin t \<and> 1 \<le> t"
proof -
  have "representable F64 1" "representable F64 2"
    using rnd_F64_int [of 1] rnd_F64_int [of 2] by (simp_all add: representable_def)
  then show ?thesis using rnd_between [of 1 F64 2 "12 / 10"] by (auto simp: lit_def)
qed

text \<open>A product with a factor above one is not rounded below the other factor.\<close>

lemma fmul_six_fifths_less:
  assumes "fp_ok F64 (FFin a)" "0 < a" "flt (fmul F64 (FFin a) (lit F64 (12 / 10))) (FFin c)"
  shows "a < c"
proof -
  obtain t where t: "lit F64 (12 / 10) = FFin t" "1 \<le> t" using lit_six_fifths by blast
  have at: "0 < a * t" "a \<le> a * t" using assms(2) t(2) by (simp_all add: mult_le_cancel_left1)
  have "rval F64 a = a"
    using assms(1,2) rnd_rval [of a F64] by (auto simp: representable_def split: if_splits)
  then have "a \<le> rval F64 (a * t)" using rval_mono [OF assms(2) at(2), of F64] by simp
  moreover have "flt (rnd F64 (a * t)) (FFin c)"
    using assms(2,3) at(1) t by (simp add: fmul_def rnd_sign_def)
  ultimately show ?thesis using rnd_rval [OF at(1), of F64] assms(2) by (auto split: if_splits)
qed

lemma above_literal:
  assumes "flt (lit F64 (of_int n)) x" "0 < n" "n < 2 ^ 53"
  shows "x = FInf False \<or> (\<exists>r. x = FFin r \<and> 0 < r)"
proof -
  have "lit F64 (of_int n) = FFin (of_int n)" using rnd_F64_int [of n] assms(2,3) by (simp add: lit_def)
  moreover have "0 < rat_of_int n" using assms(2) by simp
  ultimately show ?thesis using assms(1) by (cases x) (auto intro: less_trans)
qed

lemma verdicts_exclude:
  assumes ok: "fp_ok F64 g" "fp_ok F64 m"
    and mem: "flt (fmul F64 g (lit F64 (12 / 10))) m" "flt (lit F64 5) m"
    and gpu: "flt (fmul F64 m (lit F64 (12 / 10))) g" "flt (lit F64 20) g"
  shows False
proof -
  obtain t where t: "lit F64 (12 / 10) = FFin t" "1 \<le> t" using lit_six_fifths by blast
  have inf: "fmul F64 (FInf False) (lit F64 (12 / 10)) = FInf False"
    using t by (simp add: fmul_def)
  have "m \<noteq> FInf False" using gpu(1) inf by (cases g) auto
  then obtain c where c: "m = FFin c" "0 < c" using above_literal [of 5 m] mem(2) by auto
  have "g \<noteq> FInf False" using mem(1) inf by (cases m) auto
  then obtain a where a: "g = FFin a" "0 < a" using above_literal [of 20 g] gpu(2) by auto
  show False
    using fmul_six_fifths_less [of a c] fmul_six_fifths_less [of c a] assms a c by simp
qed

text \<open>
  The verdict on a spike does not depend on the order of the tests: for averages that are
  numbers of the format, memory-bound is reported exactly when the memory utilisation exceeds
  1.2 times the GPU utilisation and 5, compute-bound exactly when the GPU utilisation exceeds
  1.2 times the memory utilisation and 20, although the products are rounded; and without
  metric rows, when the averages are NaN, the spike stays unclassified.
\<close>

theorem bottleneck_verdicts:
  assumes "fp_ok F64 g" "fp_ok F64 m"
  shows "(classify_bottleneck g m = MemoryBound \<longleftrightarrow>
      flt (fmul F64 g (lit F64 (12 / 10))) m \<and> flt (lit F64 5) m)
    \<and> (classify_bottleneck g m = ComputeBound \<longleftrightarrow>
      flt (fmul F64 m (lit F64 (12 / 10))) g \<and> flt (lit F64 20) g)
    \<and> classify_bottleneck FNaN FNaN = Unclassified"
  using verdicts_exclude [OF assms] by (auto simp: classify_bottleneck_def)

theorem bottleneck_verdicts_witness:
  "classify_bottleneck (FFin 40) (FFin 80) = MemoryBound \<and> classify_bottleneck (FFin 80) (FFin 40) = ComputeBound"
proof -
  have ok: "fp_ok F64 (FFin 40)" "fp_ok F64 (FFin 80)" by code_simp+
  have "flt (fmul F64 (FFin 40) (lit F64 (12 / 10))) (FFin 80) \<and> flt (lit F64 5) (FFin 80)
      \<and> flt (lit F64 20) (FFin 80)" by code_simp
  then show ?thesis using bottleneck_verdicts [OF ok] bottleneck_verdicts [OF ok(2) ok(1)] by simp
qed

section \<open>A replay request from end to end\<close>

definition ok_prefix :: "('s + 'a) list \<Rightarrow> 'a list" where
  "ok_prefix msgs = map projr (takeWhile (\<lambda>m. \<not> isl m) msgs)"

lemma ok_prefix_simps [simp]:
  "ok_prefix [] = []" "ok_prefix (Inr x # msgs) = x # ok_prefix msgs" "ok_prefix (Inl e # msgs) = []"
  by (simp_all add: ok_prefix_def)

lemma ok_prefix_all [simp]: "ok_prefix (map Inr xs) = xs"
  by (induction xs) simp_all

lemma collect_sols_prefix:
  "collect_sols send node_id msgs n rs ch =
     (n + of_nat (length (ok_prefix msgs)), rs @ map kernel_sol_to_row (ok_prefix msgs),
      foldl (\<lambda>ch s. fst (push_kernel_sol send node_id s ch)) ch (ok_prefix msgs))"
proof (induction send node_id msgs n rs ch rule: collect_sols.induct)
  case (2 send node_id sol msgs n rs ch)
  then show ?case by (cases "push_kernel_sol send node_id sol ch") (simp add: Let_def)
qed simp_all

text \<open>
  C16: A replay request reaches the right agent and its result the database's queue. If the
  latest registration of a node gives an address at which a synthetic agent listens, and the
  sink takes messages, then the mutation for up to \<open>2 ^ 32 - 1\<close> kernels completes all of them:
  it returns one high-confidence card per requested kernel, in the order of the request, and
  queues exactly the corresponding rows for the sink. This holds for every \<open>timeout\<close> and for more than eight
  kernels: the comments of \<^verbatim>\<open>ProfileRequest\<close> in the protocol file promise a limit of 8 correlation ids and that the
  agent gives up after the timeout, and no part of the path, neither the mutation nor the call nor the agent,
  enforces either.
\<close>

theorem replay_request_completes:
  assumes "map_of (rev regs) node = Some hello" "ah_agent_rpc_addr hello \<noteq> ''''"
    and "connect (ah_agent_rpc_addr hello) = Inr c"
    and "\<And>req. call c req = Inr (rpc_profile_kernels h srv req)" "rpc_synthetic srv"
    and "\<And>m ch. send m ch = (enq m ch, True)" "ids \<noteq> []" "length ids < 2 ^ 32"
  shows "\<exists>sols ack. gql_profile_kernels connect call send
      (foldl (\<lambda>r (n, h). registry_register n h r) registry_new regs) node gpu t0 t1 ids timeout ch =
      (Inr ack, foldl (\<lambda>ch s. enq (Msg_KernelSol node s) ch) ch sols)
    \<and> map ks_correlation_id sols = ids \<and> pk_results ack = map kernel_sol_to_row sols
    \<and> unat (pk_completed ack) = length ids \<and> pk_requested ack = pk_completed ack
    \<and> list_all (\<lambda>r. sc_confidence r = ''High'' \<and> sc_source r = ''Replay'') (pk_results ack)"
proof -
  let ?reg = "foldl (\<lambda>r (n, h). registry_register n h r) registry_new regs"
  let ?req = "profile_request gpu t0 t1 ids timeout"
  have ids: "replay_ids ?req = ids" using assms(7) by (simp add: replay_ids_def profile_request_def)
  obtain sols where sols: "rpc_profile_kernels h srv ?req = map Inr sols" "map ks_correlation_id sols = ids"
    and cards: "list_all (\<lambda>s. confidence_of_i32 (ks_confidence s) = Conf_High
      \<and> source_of_i32 (ks_source s) = Src_Replay) sols"
    using synthetic_answers [OF assms(5), of ?req h] assms(8) ids by (auto simp: list_all_iff)
  have "registry_get ?reg node = Some (entry_of node hello)"
    using registry.look_fold [of registry_new regs node] assms(1) by simp
  then have "profile_kernels_rpc connect call ?reg node ?req = Inr (map Inr sols)"
    using assms(2,3,4) sols(1) by (simp add: profile_kernels_rpc_def entry_of_def)
  moreover have "length sols = length ids" using sols(2) by (metis length_map)
  ultimately show ?thesis
    using assms(6,8) sols(2) cards
    by (intro exI [of _ sols] exI) (auto simp: gql_profile_kernels_def collect_sols_prefix push_kernel_sol_def
        o_def unat_of_nat list_all_iff kernel_sol_to_row_def)
qed

definition replay_hello :: AgentHello where
  "replay_hello = \<lparr>ah_node_id = 1, ah_hostname = ''gpu0'', ah_agent_version = ''0.1'', ah_num_gpus = 1,
     ah_device_peaks = [], ah_agent_rpc_addr = ''http://127.0.0.1:7780''\<rparr>"

theorem replay_request_completes_witness:
  "\<exists>sols ack. gql_profile_kernels (\<lambda>a. Inr () :: unit + unit)
      (\<lambda>c req. Inr (rpc_profile_kernels (\<lambda>s. 0) \<lparr>rpc_synthetic = True\<rparr> req)) (\<lambda>m ch. (ch @ [m], True))
      (foldl (\<lambda>r (n, h). registry_register n h r) registry_new [(1, replay_hello)]) 1 0 0 1000 [7, 9] None [] =
      (Inr ack, foldl (\<lambda>ch s. ch @ [Msg_KernelSol 1 s]) [] sols)
    \<and> map ks_correlation_id sols = [7, 9] \<and> unat (pk_completed ack) = 2"
proof -
  have "ah_agent_rpc_addr replay_hello \<noteq> ''''" by (simp add: replay_hello_def)
  from replay_request_completes [of "[(1, replay_hello)]" 1 replay_hello "\<lambda>a. Inr () :: unit + unit" "()"
      "\<lambda>c req. Inr (rpc_profile_kernels (\<lambda>s. 0) \<lparr>rpc_synthetic = True\<rparr> req)" "\<lambda>s. 0" "\<lparr>rpc_synthetic = True\<rparr>"
      "\<lambda>m ch. (ch @ [m], True)" "\<lambda>m ch. ch @ [m]" "[7, 9]" 0 0 1000 None "[]", OF _ this]
  obtain sols ack where "gql_profile_kernels (\<lambda>a. Inr () :: unit + unit)
      (\<lambda>c req. Inr (rpc_profile_kernels (\<lambda>s. 0) \<lparr>rpc_synthetic = True\<rparr> req)) (\<lambda>m ch. (ch @ [m], True))
      (foldl (\<lambda>r (n, h). registry_register n h r) registry_new [(1, replay_hello)]) 1 0 0 1000 [7, 9] None [] =
      (Inr ack, foldl (\<lambda>ch s. ch @ [Msg_KernelSol 1 s]) [] sols)"
    "map ks_correlation_id sols = [7, 9]" "unat (pk_completed ack) = length [7 :: u64, 9]"
    by force
  then show ?thesis by (intro exI [of _ sols] exI [of _ ack] conjI) simp_all
qed

end
