(* ===== verification/Server_App.thy ===== *)
theory Server_App
  imports Migrations Store_Rows "HOL-Library.Sublist"
begin

text \<open>
  How the server is put together: the HTTP routes, the upload and import of reports, and the
  start-up (\<^verbatim>\<open>crates/perfweave-server/src/api/app.rs\<close>, \<^verbatim>\<open>api/imports.rs\<close>, \<^verbatim>\<open>store/ch.rs\<close>, \<^verbatim>\<open>main.rs\<close>). The router
  library, the \<^verbatim>\<open>nsys\<close> program, the file system and the database are arguments. The lemmas
  show which routes there are, in which order the parts start and what an import does.
\<close>

section \<open>Configuration\<close>

record ChConfig =
  ch_url :: string
  ch_user :: string
  ch_password :: string
  ch_database :: string

definition var_or :: "(string \<Rightarrow> string option) \<Rightarrow> string \<Rightarrow> string \<Rightarrow> string" where
  "var_or var name d = (case var name of Some v \<Rightarrow> v | None \<Rightarrow> d)"

definition ch_config_default :: "(string \<Rightarrow> string option) \<Rightarrow> ChConfig" where
  "ch_config_default var =
     \<lparr>ch_url = var_or var ''PERFWEAVE_CH_URL'' ''http://127.0.0.1:8123'',
      ch_user = var_or var ''PERFWEAVE_CH_USER'' ''default'',
      ch_password = var_or var ''PERFWEAVE_CH_PASSWORD'' [],
      ch_database = var_or var ''PERFWEAVE_CH_DATABASE'' ''default''\<rparr>"

text \<open>What identifies the database that a client talks to, and the clients of the two configurations.\<close>

record ClientConfig =
  cc_url :: string
  cc_user :: string
  cc_password :: string
  cc_database :: string

definition ch_new :: "ChConfig \<Rightarrow> ClientConfig" where
  "ch_new cfg = \<lparr>cc_url = ch_url cfg, cc_user = ch_user cfg, cc_password = ch_password cfg, cc_database = ch_database cfg\<rparr>"

definition build_client :: "SinkConfig \<Rightarrow> ClientConfig" where
  "build_client cfg =
     \<lparr>cc_url = cfg_url cfg, cc_user = cfg_user cfg, cc_password = cfg_password cfg, cc_database = cfg_database cfg\<rparr>"

record AppConfig =
  app_http_listen :: string
  app_grpc_listen :: string
  app_web_dir :: "string option"
  app_ch :: "ChConfig option"

definition app_config_default :: AppConfig where
  "app_config_default =
     \<lparr>app_http_listen = ''0.0.0.0:'' @ show_nat API_HTTP, app_grpc_listen = ''0.0.0.0:'' @ show_nat COLLECTOR_GRPC,
      app_web_dir = None, app_ch = None\<rparr>"

text \<open>The server's own command line: two addresses with these defaults and the directory.\<close>

definition server_main_config :: "string option \<Rightarrow> string option \<Rightarrow> string option \<Rightarrow> AppConfig" where
  "server_main_config http grpc web_dir =
     \<lparr>app_http_listen = (case http of Some a \<Rightarrow> a | None \<Rightarrow> ''0.0.0.0:'' @ show_nat API_HTTP),
      app_grpc_listen = (case grpc of Some a \<Rightarrow> a | None \<Rightarrow> ''0.0.0.0:'' @ show_nat COLLECTOR_GRPC),
      app_web_dir = web_dir, app_ch = None\<rparr>"

section \<open>Routes\<close>

datatype http_method = Http_GET | Http_POST

datatype http_handler =
  H_healthz | H_graphql | H_graphql_playground | H_timeline | H_nsys_import | H_sse_live | H_sse_live_kernels

record Route =
  rt_path :: string
  rt_method :: http_method
  rt_handler :: http_handler
  rt_body_limit :: "nat option"

record Router =
  ro_routes :: "Route list"
  ro_fallback :: "string option"

definition router_new :: Router where
  "router_new = \<lparr>ro_routes = [], ro_fallback = None\<rparr>"

text \<open>
  The library merges the methods of one path and panics (\<open>None\<close>) when a method of a path gets
  a second handler.
\<close>

definition route :: "Route \<Rightarrow> Router \<Rightarrow> Router option" where
  "route x r =
     (if list_ex (\<lambda>y. rt_path y = rt_path x \<and> rt_method y = rt_method x) (ro_routes r) then None
      else Some (r\<lparr>ro_routes := ro_routes r @ [x]\<rparr>))"

definition router_merge :: "Router \<Rightarrow> Router \<Rightarrow> Router option" where
  "router_merge r r' = foldl (\<lambda>acc x. Option.bind acc (route x)) (Some r) (ro_routes r')"

definition route_at :: "string \<Rightarrow> http_method \<Rightarrow> http_handler \<Rightarrow> Route" where
  "route_at p m h = \<lparr>rt_path = p, rt_method = m, rt_handler = h, rt_body_limit = None\<rparr>"

definition routes :: "Route list \<Rightarrow> Router option" where
  "routes xs = foldl (\<lambda>acc x. Option.bind acc (route x)) (Some router_new) xs"

definition make_router :: "string option \<Rightarrow> Router option" where
  "make_router web_dir =
     Option.bind (routes
       [route_at ''/healthz'' Http_GET H_healthz,
        route_at ''/graphql'' Http_POST H_graphql,
        route_at ''/graphql'' Http_GET H_graphql_playground,
        route_at ''/api/timeline'' Http_GET H_timeline,
        (route_at ''/api/import/nsys'' Http_POST H_nsys_import)\<lparr>rt_body_limit := Some (8 * 1024 * 1024 * 1024)\<rparr>])
     (\<lambda>router. Option.bind (routes
       [route_at ''/api/live'' Http_GET H_sse_live,
        route_at ''/api/live/kernels'' Http_GET H_sse_live_kernels])
     (\<lambda>live_router. map_option (\<lambda>r. case web_dir of None \<Rightarrow> r | Some dir \<Rightarrow> r\<lparr>ro_fallback := Some dir\<rparr>)
       (router_merge router live_router)))"

record HealthResp =
  hr_status :: string
  hr_version :: string

definition healthz :: "string \<Rightarrow> HealthResp" where
  "healthz product_version = \<lparr>hr_status = ''ok'', hr_version = product_version\<rparr>"

section \<open>Import\<close>

record ImportResult =
  ir_event_count :: u64
  ir_ts_min_ns :: u64
  ir_ts_max_ns :: u64

datatype import_error =
  Imp_Tempdir | Imp_Spawn | Imp_Exit | Imp_Ingest | Imp_Stats

text \<open>
  The world an upload meets, with a state of its own that every call may change: writing a file (the
  error if it fails), making a directory, running \<^verbatim>\<open>nsys\<close> on its arguments (\<open>None\<close> if it cannot be
  started, else whether it exits well), executing a statement, the row of a query, and removing a
  file. The temporary directory and the process id are fixed.
\<close>

record ('d, 'b) World =
  wo_temp_dir :: string
  wo_pid :: nat
  wo_write :: "string \<Rightarrow> 'b \<Rightarrow> 'd \<Rightarrow> 'd \<times> string option"
  wo_mkdir :: "string \<Rightarrow> 'd \<Rightarrow> 'd \<times> bool"
  wo_nsys :: "string list \<Rightarrow> 'd \<Rightarrow> 'd \<times> bool option"
  wo_execute :: "string list \<Rightarrow> 'd \<Rightarrow> 'd \<times> bool"
  wo_fetch_one :: "string \<Rightarrow> 'd \<Rightarrow> 'd \<times> (u64 \<times> u64 \<times> u64) option"
  wo_remove :: "string \<Rightarrow> 'd \<Rightarrow> 'd"

definition tempdir_in_current :: "('d, 'b) World \<Rightarrow> 'd \<Rightarrow> 'd \<times> string option" where
  "tempdir_in_current w d =
     (let p = wo_temp_dir w @ ''/perfweave-import-'' @ show_nat (wo_pid w);
          (d', ok) = wo_mkdir w p d
      in (d', if ok then Some p else None))"

definition nsys_args :: "string \<Rightarrow> string \<Rightarrow> string list" where
  "nsys_args sqlite_path path =
     [''export'', ''--type'', ''sqlite'', ''--force-overwrite=true'', ''-o'', sqlite_path, path]"

definition nsys_sql :: "string \<Rightarrow> u32 \<Rightarrow> string list" where
  "nsys_sql sqlite node_id =
     [''INSERT INTO events (ts_ns, duration_ns, node_id, gpu_id, pid, tid, ctx_id,'',
      ''stream_id, category, name_id, correlation_id, parent_id,'',
      ''grid_x, grid_y, grid_z, block_x, block_y, block_z,'',
      ''shared_static, shared_dynamic, registers, local_mem, launch_cbid)'',
      ''SELECT'',
      ''toUInt64(k.start)  AS ts_ns,'',
      ''toUInt64(k.end - k.start) AS duration_ns,'',
      ''toUInt32('' @ show_nat (unat node_id) @ '')       AS node_id,'',
      ''toUInt8(k.deviceId)       AS gpu_id,'',
      ''toUInt32(0)               AS pid,'',
      ''toUInt32(0)               AS tid,'',
      ''toUInt32(k.contextId)     AS ctx_id,'',
      ''toUInt32(k.streamId)      AS stream_id,'',
      ''CAST('' @ quoted ''KERNEL'' @ '' AS Enum8('',
      quoted ''METRIC'' @ ''=1,'' @ quoted ''API_CALL'' @ ''=2,'' @ quoted ''KERNEL'' @ ''=3,''
        @ quoted ''MEMCPY'' @ ''=4,'' @ quoted ''MEMSET'' @ ''=5,'',
      quoted ''SYNC'' @ ''=6,'' @ quoted ''OVERHEAD'' @ ''=7,'' @ quoted ''MARKER'' @ ''=8)) AS category,'',
      ''xxHash64(coalesce(names.value, '' @ quoted [] @ ''))   AS name_id,'',
      ''toUInt64(k.correlationId) AS correlation_id,'',
      ''0                         AS parent_id,'',
      ''toUInt32(k.gridX), toUInt32(k.gridY), toUInt32(k.gridZ),'',
      ''toUInt32(k.blockX), toUInt32(k.blockY), toUInt32(k.blockZ),'',
      ''toUInt32(k.staticSharedMemory), toUInt32(k.dynamicSharedMemory),'',
      ''0, toUInt32(k.localMemoryPerThread), 0'',
      ''FROM sqlite('' @ quoted sqlite @ '', '' @ quoted ''CUPTI_ACTIVITY_KIND_KERNEL'' @ '') AS k'',
      ''LEFT JOIN sqlite('' @ quoted sqlite @ '', '' @ quoted ''StringIds'' @ '') AS names'',
      ''ON names.id = k.shortName'']"

definition window_stats :: "('d, 'b) World \<Rightarrow> u32 \<Rightarrow> 'd \<Rightarrow> 'd \<times> (u64 \<times> u64 \<times> u64) option" where
  "window_stats w node_id d =
     wo_fetch_one w (''SELECT count() AS c, min(ts_ns) AS mn, max(ts_ns) AS mx FROM events WHERE node_id = ''
       @ show_nat (unat node_id)) d"

definition import_nsys :: "('d, 'b) World \<Rightarrow> string \<Rightarrow> u32 \<Rightarrow> 'd \<Rightarrow> (import_error + ImportResult) \<times> 'd" where
  "import_nsys w path node_id d =
     (case tempdir_in_current w d of
        (d1, None) \<Rightarrow> (Inl Imp_Tempdir, d1)
      | (d1, Some tmpdir) \<Rightarrow>
          let sqlite_path = tmpdir @ ''/trace.sqlite'' in
          (case wo_nsys w (nsys_args sqlite_path path) d1 of
             (d2, None) \<Rightarrow> (Inl Imp_Spawn, d2)
           | (d2, Some False) \<Rightarrow> (Inl Imp_Exit, d2)
           | (d2, Some True) \<Rightarrow>
               let (d3, ok) = wo_execute w (nsys_sql sqlite_path node_id) d2 in
               if \<not> ok then (Inl Imp_Ingest, d3)
               else (case window_stats w node_id d3 of
                       (d4, None) \<Rightarrow> (Inl Imp_Stats, d4)
                     | (d4, Some (c, mn, mx)) \<Rightarrow>
                         (Inr \<lparr>ir_event_count = c, ir_ts_min_ns = mn, ir_ts_max_ns = mx\<rparr>, d4))))"

text \<open>
  The upload. Each element of the multipart body is an error of the stream, or a field with
  its file name and its bytes, which may fail to arrive. The job that is spawned is its file
  and its node.
\<close>

datatype 'b mp_item = Mp_Error string | Mp_Field "string option" "string + 'b"

definition BAD_REQUEST :: nat where "BAD_REQUEST = 400"
definition INTERNAL_SERVER_ERROR :: nat where "INTERNAL_SERVER_ERROR = 500"

definition uuid_like :: "u64 \<Rightarrow> string" where
  "uuid_like ns = show_hex (unat ns)"

fun nsys_import_handler ::
  "('d, 'b) World \<Rightarrow> u64 \<Rightarrow> 'b mp_item list \<Rightarrow> 'd \<Rightarrow> (nat \<times> string + bool) \<times> (string \<times> u32) option \<times> 'd" where
  "nsys_import_handler w now [] d =
     (Inl (BAD_REQUEST, ''expected a multipart file upload''), None, d)"
| "nsys_import_handler w now (Mp_Error e # _) d = (Inl (BAD_REQUEST, e), None, d)"
| "nsys_import_handler w now (Mp_Field file_name bytes # _) d =
     (let filename = (case file_name of Some s \<Rightarrow> s | None \<Rightarrow> ''upload.nsys-rep'') in
      case bytes of
        Inl e \<Rightarrow> (Inl (BAD_REQUEST, e), None, d)
      | Inr data \<Rightarrow>
          let tmp = wo_temp_dir w @ ''/'' @ uuid_like now @ ''-'' @ filename in
          (case wo_write w tmp data d of
             (d', Some e) \<Rightarrow> (Inl (INTERNAL_SERVER_ERROR, e), None, d')
           | (d', None) \<Rightarrow> (Inr True, Some (tmp, 0), d')))"

text \<open>The job: the import, whose error is only logged, then the removal of the file.\<close>

definition import_job :: "('d, 'b) World \<Rightarrow> string \<times> u32 \<Rightarrow> 'd \<Rightarrow> 'd" where
  "import_job w job d = wo_remove w (fst job) (snd (import_nsys w (fst job) (snd job) d))"

section \<open>Start-up\<close>

text \<open>The sink and the HTTP services each have a client for the database.\<close>

datatype 'a server_task =
  Task_Sink ClientConfig | Task_Publisher | Task_Ticker | Task_Spike | Task_Grpc 'a | Task_Http 'a ClientConfig

datatype 'e server_end = Serve_Failed 'e | Serve_Done | Signal_Ctrl_C

datatype 'e server_error = Migration_Failed string string | Addr_Failed 'e | Bind_Failed 'e | Http_Failed 'e

text \<open>
  What the start-up calls: statements through a client, the embedded SQL files, the parser of
  socket addresses, the listener (its error), and how serving ends. \<open>Signal_Ctrl_C\<close> stands for the
  end of the future that waits for the signal, which also ends when its handler cannot be installed. Starting the sink only
  spawns its task and cannot fail.
\<close>

record ('d, 'a, 'e) Platform =
  pf_execute :: "ClientConfig \<Rightarrow> string \<Rightarrow> 'd \<Rightarrow> 'd \<times> bool"
  pf_file :: "string \<Rightarrow> string"
  pf_parse_addr :: "string \<Rightarrow> 'e + 'a"
  pf_bind :: "'a \<Rightarrow> 'e option"
  pf_serve :: "'e server_end"

definition server_ch :: "(string \<Rightarrow> string option) \<Rightarrow> AppConfig \<Rightarrow> ClientConfig" where
  "server_ch var cfg = ch_new (case app_ch cfg of Some c \<Rightarrow> c | None \<Rightarrow> ch_config_default var)"

text \<open>The result, the tasks in the order they start, the database, and whether the shutdown flag was sent.\<close>

definition server_run ::
  "('d, 'a, 'e) Platform \<Rightarrow> (string \<Rightarrow> string option) \<Rightarrow> AppConfig \<Rightarrow> 'd
     \<Rightarrow> ('e server_error + unit) \<times> 'a server_task list \<times> 'd \<times> bool" where
  "server_run pf var cfg d =
     (let ch = server_ch var cfg in
      case apply_migrations (pf_execute pf ch) (MIGRATIONS (pf_file pf)) d of
        (Inl (name, p), d') \<Rightarrow> (Inl (Migration_Failed name p), [], d', False)
      | (Inr _, d') \<Rightarrow>
          let tasks = [Task_Sink (build_client sink_config_default), Task_Publisher, Task_Ticker, Task_Spike] in
          (case pf_parse_addr pf (app_grpc_listen cfg) of
             Inl e \<Rightarrow> (Inl (Addr_Failed e), tasks, d', False)
           | Inr grpc_addr \<Rightarrow>
               let tasks = tasks @ [Task_Grpc grpc_addr] in
               (case pf_parse_addr pf (app_http_listen cfg) of
                  Inl e \<Rightarrow> (Inl (Addr_Failed e), tasks, d', False)
                | Inr http_addr \<Rightarrow>
                    (case pf_bind pf http_addr of
                       Some e \<Rightarrow> (Inl (Bind_Failed e), tasks, d', False)
                     | None \<Rightarrow>
                         let tasks = tasks @ [Task_Http http_addr ch] in
                         (case pf_serve pf of
                            Serve_Failed e \<Rightarrow> (Inl (Http_Failed e), tasks, d', False)
                          | Serve_Done \<Rightarrow> (Inr (), tasks, d', False)
                          | Signal_Ctrl_C \<Rightarrow> (Inr (), tasks, d', True))))))"

section \<open>Properties\<close>

text \<open>
  Building the router never panics, with or without a web directory: every endpoint has
  exactly one handler, and only the upload has a limit of its own for the body.
\<close>

definition endpoints :: "(string \<times> http_method \<times> http_handler) list" where
  "endpoints =
     [(''/healthz'', Http_GET, H_healthz), (''/graphql'', Http_POST, H_graphql),
      (''/graphql'', Http_GET, H_graphql_playground), (''/api/timeline'', Http_GET, H_timeline),
      (''/api/import/nsys'', Http_POST, H_nsys_import), (''/api/live'', Http_GET, H_sse_live),
      (''/api/live/kernels'', Http_GET, H_sse_live_kernels)]"

lemma make_router_routes:
  "\<exists>r. make_router web_dir = Some r \<and> ro_fallback r = web_dir
     \<and> map (\<lambda>x. (rt_path x, rt_method x, rt_handler x)) (ro_routes r) = endpoints
     \<and> distinct (map (\<lambda>x. (rt_path x, rt_method x)) (ro_routes r))
     \<and> map rt_handler (filter (\<lambda>x. rt_body_limit x \<noteq> None) (ro_routes r)) = [H_nsys_import]"
  by (cases web_dir) (simp_all add: make_router_def routes_def route_def router_new_def route_at_def
      router_merge_def endpoints_def)

text \<open>
  C28: The start-up order: the parts start in the documented order, sink, publisher, ticker, spike detector,
  gRPC, HTTP, each only after all the ones before it; a migration that fails starts nothing
  and is reported with its name. The run ends well only when everything was started, and the
  background tasks are told to stop when the wait for the signal ends and at no other end.
\<close>

theorem server_start_order:
  assumes "server_run pf var cfg d = (r, tasks, d', sent)"
  shows "(\<exists>sink api grpc http. prefix tasks
        [Task_Sink sink, Task_Publisher, Task_Ticker, Task_Spike, Task_Grpc grpc, Task_Http http api]
      \<and> (r = Inr () \<longrightarrow> length tasks = 6))
    \<and> (\<forall>name p. fst (apply_migrations (pf_execute pf (server_ch var cfg)) (MIGRATIONS (pf_file pf)) d) = Inl (name, p) \<longrightarrow>
         tasks = [] \<and> r = Inl (Migration_Failed name p))
    \<and> (sent \<longleftrightarrow> r = Inr () \<and> pf_serve pf = Signal_Ctrl_C)"
  using assms by (auto simp: server_run_def Let_def split: prod.splits sum.splits option.splits server_end.splits)

definition broken_db :: "(nat, string, unit) Platform" where
  "broken_db = \<lparr>pf_execute = (\<lambda>c s n. (n + 1, n = 0)),
     pf_file = (\<lambda>f. if f = ''0001_events.sql'' then ''CREATE;'' else ''ALTER;''),
     pf_parse_addr = Inr, pf_bind = (\<lambda>a. None), pf_serve = Signal_Ctrl_C\<rparr>"

lemma broken_db_migrations:
  "apply_migrations (pf_execute broken_db ch) (MIGRATIONS (pf_file broken_db)) 0 = (Inl (''0002_strings'', ''ALTER;''), 2)"
  by code_simp

theorem server_start_order_witness:
  "\<exists>d'. server_run broken_db (\<lambda>v. None) app_config_default 0 =
     (Inl (Migration_Failed ''0002_strings'' ''ALTER;''), [], d', False)"
proof -
  obtain r tasks d' sent where s: "server_run broken_db (\<lambda>v. None) app_config_default 0 = (r, tasks, d', sent)"
    by (metis prod_cases4)
  from server_start_order [OF s] broken_db_migrations
  have "tasks = []" "r = Inl (Migration_Failed ''0002_strings'' ''ALTER;'')" "\<not> sent" by simp_all
  then show ?thesis using s by simp
qed

text \<open>
  C29: The sink and the rest of the server agree on the database only at the defaults. In every run
  that starts completely, the migrations and the HTTP services use the client of the given
  configuration, or of the environment if none is given, but the sink uses fixed values: the
  events are written to the database that the timeline reads exactly when url, user, password
  and database all have their default values.
\<close>

theorem sink_database_iff_default:
  assumes "server_run pf var cfg d = (Inr (), tasks, d', sent)"
  shows "\<exists>sink api http. Task_Sink sink \<in> set tasks \<and> Task_Http http api \<in> set tasks \<and> api = server_ch var cfg
    \<and> (sink = api \<longleftrightarrow> server_ch var cfg = \<lparr>cc_url = ''http://127.0.0.1:8123'', cc_user = ''default'', cc_password = [],
         cc_database = ''default''\<rparr>)"
proof -
  have "build_client sink_config_default = \<lparr>cc_url = ''http://127.0.0.1:8123'', cc_user = ''default'', cc_password = [],
      cc_database = ''default''\<rparr>"
    by (simp add: build_client_def sink_config_default_def)
  moreover obtain http where "Task_Sink (build_client sink_config_default) \<in> set tasks"
      "Task_Http http (server_ch var cfg) \<in> set tasks"
    using assms that by (auto simp: server_run_def Let_def split: prod.splits sum.splits option.splits server_end.splits)
  ultimately show ?thesis by metis
qed

definition remote_config :: AppConfig where
  "remote_config = app_config_default
     \<lparr>app_ch := Some \<lparr>ch_url = ''http://db:8123'', ch_user = ''default'', ch_password = [], ch_database = ''default''\<rparr>\<rparr>"

theorem sink_database_iff_default_witness:
  "\<exists>r tasks. server_run (broken_db\<lparr>pf_file := (\<lambda>f. [])\<rparr>) (\<lambda>v. None) remote_config 0 = (Inr (), tasks, r)
    \<and> (\<exists>sink api http. Task_Sink sink \<in> set tasks \<and> Task_Http http api \<in> set tasks
         \<and> cc_url api = ''http://db:8123'' \<and> sink \<noteq> api)"
proof -
  have a: "apply_migrations (pf_execute broken_db ch) (MIGRATIONS (\<lambda>f. [])) 0 = (Inr (), 0)" for ch by code_simp
  have "\<exists>tasks. server_run (broken_db\<lparr>pf_file := (\<lambda>f. [])\<rparr>) (\<lambda>v. None) remote_config 0 = (Inr (), tasks, 0, True)"
    using a [of "server_ch (\<lambda>v. None) remote_config"] by (simp add: server_run_def Let_def) (simp add: broken_db_def)
  then obtain tasks where t: "server_run (broken_db\<lparr>pf_file := (\<lambda>f. [])\<rparr>) (\<lambda>v. None) remote_config 0 = (Inr (), tasks, 0, True)" ..
  have "server_ch (\<lambda>v. None) remote_config = \<lparr>cc_url = ''http://db:8123'', cc_user = ''default'', cc_password = [],
      cc_database = ''default''\<rparr>"
    by (simp add: server_ch_def remote_config_def ch_new_def)
  with sink_database_iff_default [OF t] t show ?thesis by fastforce
qed

section \<open>Uploads\<close>

text \<open>A world that records what it is asked for and answers as it is told.\<close>

datatype 'b call =
  Call_Write string 'b | Call_Mkdir string | Call_Nsys "string list" | Call_Execute "string list" | Call_Fetch string
  | Call_Remove string

record Answers =
  an_write :: "string option"
  an_mkdir :: bool
  an_nsys :: "bool option"
  an_execute :: bool
  an_stats :: "(u64 \<times> u64 \<times> u64) option"

definition recording :: "string \<Rightarrow> nat \<Rightarrow> Answers \<Rightarrow> ('b call list, 'b) World" where
  "recording temp_dir pid an =
     \<lparr>wo_temp_dir = temp_dir, wo_pid = pid,
      wo_write = (\<lambda>p b l. (l @ [Call_Write p b], an_write an)), wo_mkdir = (\<lambda>p l. (l @ [Call_Mkdir p], an_mkdir an)),
      wo_nsys = (\<lambda>args l. (l @ [Call_Nsys args], an_nsys an)), wo_execute = (\<lambda>q l. (l @ [Call_Execute q], an_execute an)),
      wo_fetch_one = (\<lambda>q l. (l @ [Call_Fetch q], an_stats an)), wo_remove = (\<lambda>p l. l @ [Call_Remove p])\<rparr>"

text \<open>The calls of an import in which nothing fails, for its directory, file and node, and how many of them are made.\<close>

definition import_calls :: "string \<Rightarrow> string \<Rightarrow> u32 \<Rightarrow> 'b call list" where
  "import_calls dir path node =
     [Call_Mkdir dir,
      Call_Nsys [''export'', ''--type'', ''sqlite'', ''--force-overwrite=true'', ''-o'', dir @ ''/trace.sqlite'', path],
      Call_Execute (nsys_sql (dir @ ''/trace.sqlite'') node),
      Call_Fetch (''SELECT count() AS c, min(ts_ns) AS mn, max(ts_ns) AS mx FROM events WHERE node_id = '' @ show_nat (unat node))]"

definition calls_made :: "Answers \<Rightarrow> nat" where
  "calls_made an = (if \<not> an_mkdir an then 1 else if an_nsys an \<noteq> Some True then 2 else if \<not> an_execute an then 3 else 4)"

lemma import_trace:
  "snd (import_nsys (recording tmp pid an) path node l) =
     l @ take (calls_made an) (import_calls (tmp @ ''/perfweave-import-'' @ show_nat pid) path node)"
  by (simp add: import_nsys_def tempdir_in_current_def window_stats_def recording_def import_calls_def calls_made_def
      nsys_args_def Let_def split: option.split bool.split)

text \<open>
  C30: An upload from the request to its end, for every way in which the file system, \<^verbatim>\<open>nsys\<close> and the database may
  answer. Only the first part of the request counts: one that arrives is written to a file, named by the
  clock and the client's file name, and then either queued or, when it cannot be written, answered with 500; anything else is
  answered with 400 and nothing is written. The queued job makes its directory, exports the very file, inserts from the
  export and asks for the statistics of the node, each step only after the one before it succeeded, and removes the
  uploaded file in the end in every case. So the database gets an \<^verbatim>\<open>INSERT\<close> and a \<^verbatim>\<open>SELECT\<close> at most
  and never a row in the table \<^verbatim>\<open>imports\<close>, where the comment of migration 0005 has one; and the export has the
  same path for all uploads of a process and is never removed.
\<close>

theorem import_upload_outcomes:
  fixes items :: "'b mp_item list"
  shows "case nsys_import_handler (recording tmp pid an) now items [] of (answer, job, calls) \<Rightarrow>
     (case items of
        Mp_Field name (Inr data) # _ \<Rightarrow>
          (let path = tmp @ ''/'' @ uuid_like now @ ''-'' @ (case name of Some s \<Rightarrow> s | None \<Rightarrow> ''upload.nsys-rep'') in
           calls = [Call_Write path data] \<and>
           (case an_write an of
              Some e \<Rightarrow> answer = Inl (500, e) \<and> job = None
            | None \<Rightarrow> answer = Inr True \<and> job = Some (path, 0)
                \<and> import_job (recording tmp pid an) (path, 0) calls = Call_Write path data
                    # take (calls_made an) (import_calls (tmp @ ''/perfweave-import-'' @ show_nat pid) path 0)
                    @ [Call_Remove path]))
      | _ \<Rightarrow> (\<exists>e. answer = Inl (400, e)) \<and> job = None \<and> calls = [])"
proof (cases items)
  case (Cons item rest)
  show ?thesis
  proof (cases item)
    case (Mp_Field name bytes)
    have w: "wo_write (recording tmp pid an) p b l = (l @ [Call_Write p b], an_write an)"
      "wo_temp_dir (recording tmp pid an) = tmp" "wo_remove (recording tmp pid an) p l = l @ [Call_Remove p]" for p b l
      by (simp_all add: recording_def)
    show ?thesis
      using Mp_Field Cons
      by (cases bytes) (simp_all add: Let_def w import_job_def import_trace BAD_REQUEST_def INTERNAL_SERVER_ERROR_def
          split: option.split)
  qed (simp add: Cons BAD_REQUEST_def)
qed (simp add: BAD_REQUEST_def)

end
