(* ===== verification/Samplers.thy ===== *)
theory Samplers
  imports Event_Ring Intern
begin

text \<open>
  What the samplers of the agent share, and the NVML sampler:
  \<^verbatim>\<open>crates/perfweave-agent/src/sampler/mod.rs\<close>, \<^verbatim>\<open>sampler/nvml.rs\<close> and \<^verbatim>\<open>sampler/dcgm.rs\<close>. Every sampler is a
  loop that is woken by a timer or by the shutdown flag. The NVML library is an argument: what
  each reading returns, or that it failed. The lemmas show which frames a tick produces.
\<close>

section \<open>The loop of a sampler\<close>

text \<open>
  The period of the timer in milliseconds. The timer of the runtime panics on a period of
  zero (\<open>None\<close>), which a rate above 1000 Hz gives.
\<close>

definition period_ms :: "u32 \<Rightarrow> u64" where
  "period_ms metric_hz = ucast (1000 div max metric_hz 1)"

definition tick_interval :: "u32 \<Rightarrow> u64 option" where
  "tick_interval metric_hz = (if period_ms metric_hz = 0 then None else Some (period_ms metric_hz))"

datatype 'i sampler_wakeup = Samp_Shutdown bool | Samp_Tick 'i

fun sampler_loop :: "('i \<Rightarrow> 's \<Rightarrow> 's) \<Rightarrow> 'i sampler_wakeup list \<Rightarrow> 's \<Rightarrow> 's" where
  "sampler_loop tick [] s = s"
| "sampler_loop tick (Samp_Shutdown b # ws) s = (if b then s else sampler_loop tick ws s)"
| "sampler_loop tick (Samp_Tick i # ws) s = sampler_loop tick ws (tick i s)"

text \<open>The inputs of the ticks that happen: those before the first shutdown.\<close>

fun ticks_of :: "'i sampler_wakeup list \<Rightarrow> 'i list" where
  "ticks_of [] = []"
| "ticks_of (Samp_Shutdown b # ws) = (if b then [] else ticks_of ws)"
| "ticks_of (Samp_Tick i # ws) = i # ticks_of ws"

lemma sampler_loop_ticks: "sampler_loop tick ws s = foldl (\<lambda>s i. tick i s) s (ticks_of ws)"
  by (induction tick ws s rule: sampler_loop.induct) simp_all

lemma foldl_concat_ticks: "foldl (\<lambda>s i. foldl g s (f i)) s is = foldl g s (concat (map f is))"
  by (induction "is" arbitrary: s) simp_all

lemma ticks_of_append: "ticks_of (ws @ Samp_Shutdown True # ws') = ticks_of ws"
  by (induction ws rule: ticks_of.induct) simp_all

text \<open>
  The contract of a sampler of metrics with its ring: a tick pushes the frames of its input,
  in order, and does nothing else. Then a run pushes the frames of the ticks before the
  shutdown, and nothing that comes after the shutdown matters.
\<close>

locale frame_sampler =
  fixes push :: "MetricFrame \<Rightarrow> 'g \<Rightarrow> 'g" and tick :: "'i \<Rightarrow> 'g \<Rightarrow> 'g" and frames :: "'i \<Rightarrow> MetricFrame list"
  assumes tick_pushes: "tick i g = foldl (\<lambda>g f. push f g) g (frames i)"
begin

lemma run_pushes:
  "sampler_loop tick ws g = foldl (\<lambda>g f. push f g) g (concat (map frames (ticks_of ws)))"
  by (simp add: sampler_loop_ticks tick_pushes foldl_concat_ticks)

lemma run_stops: "sampler_loop tick (ws @ Samp_Shutdown True # ws') g = sampler_loop tick ws g"
  by (simp add: run_pushes ticks_of_append)

end

text \<open>The DCGM sampler is built without its library: it waits for the shutdown and pushes nothing.\<close>

definition dcgm_run :: "unit sampler_wakeup list \<Rightarrow> 's \<Rightarrow> 's" where
  "dcgm_run ws ring = ring"

section \<open>NVML\<close>

record NvmlSampler =
  nv_node_id :: u32
  nv_metric_hz :: u32

text \<open>What the library returns for one device; \<open>None\<close> is an error.\<close>

record NvmlDevice =
  dv_utilization_rates :: "(u32 \<times> u32) option"
  dv_memory_info :: "(u64 \<times> u64) option"
  dv_power_usage :: "u32 option"
  dv_enforced_power_limit :: "u32 option"
  dv_sm_clock :: "u32 option"
  dv_mem_clock :: "u32 option"
  dv_temperature :: "u32 option"
  dv_fan_speed :: "u32 option"
  dv_throttle_reasons :: "u64 option"

record NvmlMetricIds =
  ni_util :: u64
  ni_mem_util :: u64
  ni_mem_used :: u64
  ni_mem_free :: u64
  ni_power :: u64
  ni_power_limit :: u64
  ni_sm_clock :: u64
  ni_mem_clock :: u64
  ni_temp :: u64
  ni_fan :: u64
  ni_throttle :: u64

definition nvml_metric_ids :: "(string \<Rightarrow> u64) \<Rightarrow> NvmlMetricIds" where
  "nvml_metric_ids h =
     \<lparr>ni_util = intern_hash h ''gpu.util.percent'', ni_mem_util = intern_hash h ''gpu.mem.util.percent'',
      ni_mem_used = intern_hash h ''gpu.mem.used.bytes'', ni_mem_free = intern_hash h ''gpu.mem.free.bytes'',
      ni_power = intern_hash h ''gpu.power.watts'', ni_power_limit = intern_hash h ''gpu.power.limit.watts'',
      ni_sm_clock = intern_hash h ''gpu.sm.clock.hz'', ni_mem_clock = intern_hash h ''gpu.mem.clock.hz'',
      ni_temp = intern_hash h ''gpu.temp.celsius'', ni_fan = intern_hash h ''gpu.fan.percent'',
      ni_throttle = intern_hash h ''gpu.throttle.reasons.bitmask''\<rparr>"

definition point :: "u64 \<Rightarrow> f64 \<Rightarrow> MetricPoint" where
  "point metric_id v = \<lparr>mp_metric_id = metric_id, mp_value = v\<rparr>"

definition of_word :: "'a::len word \<Rightarrow> f64" where
  "of_word w = of_int_fp F64 (uint w)"

definition nvml_points :: "NvmlDevice \<Rightarrow> NvmlMetricIds \<Rightarrow> MetricPoint list" where
  "nvml_points dev ids =
     (case dv_utilization_rates dev of
        Some (gpu, memory) \<Rightarrow> [point (ni_util ids) (of_word gpu), point (ni_mem_util ids) (of_word memory)]
      | None \<Rightarrow> [])
   @ (case dv_memory_info dev of
        Some (used, free) \<Rightarrow> [point (ni_mem_used ids) (of_word used), point (ni_mem_free ids) (of_word free)]
      | None \<Rightarrow> [])
   @ (case dv_power_usage dev of
        Some p \<Rightarrow> [point (ni_power ids) (fdiv F64 (of_word p) (lit F64 1000))] | None \<Rightarrow> [])
   @ (case dv_enforced_power_limit dev of
        Some p \<Rightarrow> [point (ni_power_limit ids) (fdiv F64 (of_word p) (lit F64 1000))] | None \<Rightarrow> [])
   @ (case dv_sm_clock dev of
        Some c \<Rightarrow> [point (ni_sm_clock ids) (fmul F64 (of_word c) (lit F64 1000000))] | None \<Rightarrow> [])
   @ (case dv_mem_clock dev of
        Some c \<Rightarrow> [point (ni_mem_clock ids) (fmul F64 (of_word c) (lit F64 1000000))] | None \<Rightarrow> [])
   @ (case dv_temperature dev of Some t \<Rightarrow> [point (ni_temp ids) (of_word t)] | None \<Rightarrow> [])
   @ (case dv_fan_speed dev of Some f \<Rightarrow> [point (ni_fan ids) (of_word f)] | None \<Rightarrow> [])
   @ (case dv_throttle_reasons dev of Some r \<Rightarrow> [point (ni_throttle ids) (of_word r)] | None \<Rightarrow> [])"

definition nvml_build_frame :: "NvmlDevice \<Rightarrow> u64 \<Rightarrow> u32 \<Rightarrow> u32 \<Rightarrow> NvmlMetricIds \<Rightarrow> MetricFrame" where
  "nvml_build_frame dev now_ns gpu_id node_id ids =
     \<lparr>mf_node_id = node_id, mf_gpu_id = gpu_id, mf_ts_ns = now_ns, mf_points = nvml_points dev ids\<rparr>"

text \<open>One tick: the time, and the device behind each index if the library finds it.\<close>

fun nvml_tick ::
  "(MetricFrame, 'fch) Channel \<Rightarrow> NvmlSampler \<Rightarrow> NvmlMetricIds \<Rightarrow> u32 \<Rightarrow> u64 \<times> (u32 \<Rightarrow> NvmlDevice option)
     \<Rightarrow> ('ch, 'fch) EventRing \<Rightarrow> ('ch, 'fch) EventRing" where
  "nvml_tick fc self ids device_count (now_ns, device_by_index) ring =
     foldl (\<lambda>ring idx. case device_by_index idx of
              None \<Rightarrow> ring
            | Some dev \<Rightarrow> ring_push_frame fc (nvml_build_frame dev now_ns idx (nv_node_id self) ids) ring)
       ring (map of_nat [0..<unat device_count])"

text \<open>
  \<open>init\<close> is \<open>None\<close> when the library cannot be initialised, and its device count is \<open>None\<close>
  when it cannot be read. The result \<open>None\<close> is the panic of the timer.
\<close>

definition nvml_run ::
  "(MetricFrame, 'fch) Channel \<Rightarrow> (string \<Rightarrow> u64) \<Rightarrow> u32 option option \<Rightarrow> NvmlSampler
     \<Rightarrow> (u64 \<times> (u32 \<Rightarrow> NvmlDevice option)) sampler_wakeup list \<Rightarrow> ('ch, 'fch) EventRing
     \<Rightarrow> ('ch, 'fch) EventRing option" where
  "nvml_run fc h init self ws ring =
     (case init of
        None \<Rightarrow> Some ring
      | Some None \<Rightarrow> Some ring
      | Some (Some device_count) \<Rightarrow>
          (case tick_interval (nv_metric_hz self) of
             None \<Rightarrow> None
           | Some period \<Rightarrow>
               Some (sampler_loop (nvml_tick fc self (nvml_metric_ids h) device_count) ws ring)))"

section \<open>Properties\<close>

lemma unat_period_ms: "unat (period_ms hz) = 1000 div max (unat hz) 1"
proof -
  have m: "unat (max hz 1) = max (unat hz) 1" by (simp add: max_def word_le_nat_alt)
  have "unat (1000 div max hz 1 :: u32) < 2 ^ 32" using unsigned_less [of "1000 div max hz 1"] by simp
  then have "unat (period_ms hz) = unat (1000 div max hz 1 :: u32)"
    by (simp add: period_ms_def unsigned_ucast_eq take_bit_nat_eq_self)
  then show ?thesis by (simp add: unat_div m)
qed

lemma tick_interval_None: "tick_interval hz = None \<longleftrightarrow> 1000 < unat hz"
proof -
  have "period_ms hz = 0 \<longleftrightarrow> 1000 div max (unat hz) 1 = 0"
    using unat_period_ms [of hz] unat_eq_zero [of "period_ms hz"] by simp
  also have "\<dots> \<longleftrightarrow> 1000 < unat hz" by (auto simp: div_eq_0_iff max_def)
  finally show ?thesis by (simp add: tick_interval_def)
qed

text \<open>The frames of one tick: one for every index that has a device, in the order of the indices.\<close>

definition nvml_frames :: "NvmlSampler \<Rightarrow> NvmlMetricIds \<Rightarrow> u32 \<Rightarrow> u64 \<times> (u32 \<Rightarrow> NvmlDevice option) \<Rightarrow> MetricFrame list" where
  "nvml_frames self ids n i =
     List.map_filter (\<lambda>idx. map_option (\<lambda>d. nvml_build_frame d (fst i) idx (nv_node_id self) ids) (snd i idx))
       (map of_nat [0..<unat n])"

lemma nvml_tick_frames:
  "nvml_tick fc self ids n i ring = foldl (\<lambda>r f. ring_push_frame fc f r) ring (nvml_frames self ids n i)"
proof -
  obtain now devs where i: "i = (now, devs)" by (cases i)
  have "foldl (\<lambda>ring idx. case devs idx of None \<Rightarrow> ring
          | Some dev \<Rightarrow> ring_push_frame fc (nvml_build_frame dev now idx (nv_node_id self) ids) ring) r xs =
        foldl (\<lambda>r f. ring_push_frame fc f r) r (List.map_filter (\<lambda>idx.
          map_option (\<lambda>d. nvml_build_frame d now idx (nv_node_id self) ids) (devs idx)) xs)" for r xs
    by (induction xs arbitrary: r) (auto simp: List.map_filter_simps split: option.splits)
  then show ?thesis by (simp add: i nvml_frames_def)
qed

interpretation nvml: frame_sampler "ring_push_frame fc" "nvml_tick fc self ids n" "nvml_frames self ids n"
  by unfold_locales (rule nvml_tick_frames)

lemma distinct_subseq: "subseq xs ys \<Longrightarrow> distinct ys \<Longrightarrow> distinct xs"
  by (auto simp: subseq_conv_nths)

definition nvml_names :: "string list" where
  "nvml_names =
     [''gpu.util.percent'', ''gpu.mem.util.percent'', ''gpu.mem.used.bytes'', ''gpu.mem.free.bytes'',
      ''gpu.power.watts'', ''gpu.power.limit.watts'', ''gpu.sm.clock.hz'', ''gpu.mem.clock.hz'',
      ''gpu.temp.celsius'', ''gpu.fan.percent'', ''gpu.throttle.reasons.bitmask'']"

lemma nvml_point_ids:
  "subseq (map mp_metric_id (nvml_points dev (nvml_metric_ids h))) (map (intern_hash h) nvml_names)"
proof -
  have "map (intern_hash h) nvml_names =
      map (intern_hash h) [''gpu.util.percent'', ''gpu.mem.util.percent'']
    @ map (intern_hash h) [''gpu.mem.used.bytes'', ''gpu.mem.free.bytes'']
    @ [intern_hash h ''gpu.power.watts''] @ [intern_hash h ''gpu.power.limit.watts'']
    @ [intern_hash h ''gpu.sm.clock.hz''] @ [intern_hash h ''gpu.mem.clock.hz'']
    @ [intern_hash h ''gpu.temp.celsius''] @ [intern_hash h ''gpu.fan.percent'']
    @ [intern_hash h ''gpu.throttle.reasons.bitmask'']"
    by (simp add: nvml_names_def)
  also have "subseq (map mp_metric_id (nvml_points dev (nvml_metric_ids h))) \<dots>"
    unfolding nvml_points_def map_append
    by (intro list_emb_append_mono) (auto simp: nvml_metric_ids_def point_def split: option.splits)
  finally show ?thesis .
qed

text \<open>
  C27: What the NVML sampler pushes: for a rate of at most 1000 Hz the sampler survives, and the
  frames pushed until the shutdown are, for every tick, one frame per GPU that answers, in the
  order of the indices and stamped with the time of the tick; no metric appears twice in a
  frame if the hash tells the metric names apart. Above 1000 Hz the sampler panics.
\<close>

theorem nvml_pushes_frames:
  "nvml_run fc h (Some (Some n)) self ws ring =
     (if 1000 < unat (nv_metric_hz self) then None
      else Some (foldl (\<lambda>r f. ring_push_frame fc f r) ring
        (concat (map (nvml_frames self (nvml_metric_ids h) n) (ticks_of ws)))))
   \<and> (inj_on (intern_hash h) (set nvml_names) \<longrightarrow>
      list_all (\<lambda>f. distinct (map mp_metric_id (mf_points f))) (nvml_frames self (nvml_metric_ids h) n i))"
proof (intro conjI impI)
  show "nvml_run fc h (Some (Some n)) self ws ring =
     (if 1000 < unat (nv_metric_hz self) then None
      else Some (foldl (\<lambda>r f. ring_push_frame fc f r) ring
        (concat (map (nvml_frames self (nvml_metric_ids h) n) (ticks_of ws)))))"
    using tick_interval_None [of "nv_metric_hz self"]
    by (auto simp: nvml_run_def nvml.run_pushes split: option.splits)
next
  assume "inj_on (intern_hash h) (set nvml_names)"
  then have "distinct (map (intern_hash h) nvml_names)"
    by (simp add: distinct_map) (simp add: nvml_names_def)
  then have "distinct (map mp_metric_id (nvml_points dev (nvml_metric_ids h)))" for dev
    using distinct_subseq [OF nvml_point_ids] by blast
  then show "list_all (\<lambda>f. distinct (map mp_metric_id (mf_points f))) (nvml_frames self (nvml_metric_ids h) n i)"
    by (auto simp: list_all_iff nvml_frames_def List.map_filter_def nvml_build_frame_def)
qed

definition idle_device :: NvmlDevice where
  "idle_device = \<lparr>dv_utilization_rates = Some (3, 4), dv_memory_info = None, dv_power_usage = Some 25000,
     dv_enforced_power_limit = None, dv_sm_clock = None, dv_mem_clock = None, dv_temperature = Some 40,
     dv_fan_speed = None, dv_throttle_reasons = None\<rparr>"

definition index_hash :: "string \<Rightarrow> u64" where
  "index_hash s = of_nat (length (takeWhile (\<lambda>n. n \<noteq> s) nvml_names))"

theorem nvml_pushes_frames_witness:
  "nvml_run (queue_channel 8) index_hash (Some (Some 2)) \<lparr>nv_node_id = 1, nv_metric_hz = 2000\<rparr>
       [] (event_ring_new (\<lambda>n. []) (\<lambda>n. []) 8) = None
   \<and> list_all (\<lambda>f. distinct (map mp_metric_id (mf_points f)))
       (nvml_frames \<lparr>nv_node_id = 1, nv_metric_hz = 2000\<rparr> (nvml_metric_ids index_hash) 2 (5, \<lambda>i. Some idle_device))"
proof -
  have "distinct (map (intern_hash index_hash) nvml_names)"
    by (simp add: intern_hash_def index_hash_def nvml_names_def)
  then have "inj_on (intern_hash index_hash) (set nvml_names)" by (simp add: distinct_map)
  then show ?thesis
    using nvml_pushes_frames [of "queue_channel 8" index_hash 2 "\<lparr>nv_node_id = 1, nv_metric_hz = 2000\<rparr>" "[]"
        "event_ring_new (\<lambda>n. []) (\<lambda>n. []) 8" "(5, \<lambda>i. Some idle_device)"]
    by simp
qed

end
