(* ===== verification/Synthetic.thy ===== *)
theory Synthetic
  imports Samplers "HOL-Library.State_Monad"
begin

text \<open>
  The synthetic sampler, \<^verbatim>\<open>crates/perfweave-agent/src/sampler/synthetic.rs\<close>. The code
  threads a random generator, the next correlation id and the ring through its calls; the model
  is a state monad over the three. The generator of the \<^verbatim>\<open>rand\<close> crate, the gamma distribution
  and the sine are arguments. The lemmas show what one run pushes.
\<close>

section \<open>The random generator\<close>

text \<open>
  \<open>rng_int w lo hi\<close> is \<^verbatim>\<open>gen_range(lo..hi)\<close> at a \<open>w\<close>-bit integer type, \<open>rng_f64 lo hi\<close> the same
  at \<^verbatim>\<open>f64\<close>, \<open>rng_unit\<close> is \<^verbatim>\<open>gen::<f64>()\<close>, \<open>rng_bool p\<close> is \<^verbatim>\<open>gen_bool(p)\<close> and
  \<open>rng_gamma shape scale\<close> a sample of the distribution.
\<close>

record 'r Rng =
  rng_seed :: "u64 \<Rightarrow> 'r"
  rng_int :: "nat \<Rightarrow> int \<Rightarrow> int \<Rightarrow> 'r \<Rightarrow> int \<times> 'r"
  rng_f64 :: "f64 \<Rightarrow> f64 \<Rightarrow> 'r \<Rightarrow> f64 \<times> 'r"
  rng_unit :: "'r \<Rightarrow> f64 \<times> 'r"
  rng_bool :: "f64 \<Rightarrow> 'r \<Rightarrow> bool \<times> 'r"
  rng_gamma :: "f64 \<Rightarrow> f64 \<Rightarrow> 'r \<Rightarrow> f64 \<times> 'r"
  f64_sin :: "f64 \<Rightarrow> f64"

text \<open>A range that is not empty gives a value of the range.\<close>

definition rng_in_range :: "'r Rng \<Rightarrow> bool" where
  "rng_in_range R \<longleftrightarrow>
     (\<forall>w lo hi r. lo < hi \<longrightarrow> lo \<le> fst (rng_int R w lo hi r) \<and> fst (rng_int R w lo hi r) < hi)"

record ('r, 'g) synth_state =
  sy_rng :: 'r
  sy_next_corr :: u64
  sy_ring :: 'g

type_synonym ('r, 'g, 'a) synth = "(('r, 'g) synth_state, 'a) state"

definition draw :: "('r \<Rightarrow> 'a \<times> 'r) \<Rightarrow> ('r, 'g, 'a) synth" where
  "draw f = State (\<lambda>s. let (x, r) = f (sy_rng s) in (x, s\<lparr>sy_rng := r\<rparr>))"

definition gen_range :: "'r Rng \<Rightarrow> int \<Rightarrow> int \<Rightarrow> ('r, 'g, 'w::len word) synth" where
  "gen_range R lo hi =
     do { x \<leftarrow> draw (rng_int R LENGTH('w) lo hi); State_Monad.return (of_int x) }"

definition on_ring :: "('g \<Rightarrow> 'g) \<Rightarrow> ('r, 'g, unit) synth" where
  "on_ring f = State (\<lambda>s. ((), s\<lparr>sy_ring := f (sy_ring s)\<rparr>))"

definition take_corr :: "('r, 'g, u64) synth" where
  "take_corr = State (\<lambda>s. (sy_next_corr s, s\<lparr>sy_next_corr := sy_next_corr s + 1\<rparr>))"

section \<open>Values\<close>

definition METRIC_NAMES :: "string list" where
  "METRIC_NAMES =
     [''gpu.util.percent'', ''gpu.mem.util.percent'', ''gpu.mem.used.bytes'', ''gpu.power.watts'',
      ''gpu.sm.clock.hz'', ''gpu.mem.bandwidth.bytes_per_sec'']"

definition KERNEL_NAMES :: "string list" where
  "KERNEL_NAMES =
     [''void cutlass::Kernel<cutlass::gemm::kernel::Gemm>(...)'',
      ''void at::native::vectorized_elementwise_kernel<...>(int, ...)'',
      ''void at::native::reduce_kernel<512, 1, ...>()'',
      ''void flash_attention::mha_fwd_kernel<...>()'',
      ''void cub::DeviceReduceKernel<...>()'',
      ''void nccl::ncclAllReduceRing<...>()'',
      ''void cudnn::conv::Conv2dKernel<...>()'']"

definition API_NAMES :: "string list" where
  "API_NAMES =
     [''cuLaunchKernel'', ''cudaMemcpyAsync'', ''cudaMalloc'', ''cudaFree'',
      ''cudaStreamSynchronize'', ''cudaEventRecord'', ''cudaMemsetAsync'']"

definition synth_clamp :: "f64 \<Rightarrow> f64 \<Rightarrow> f64 \<Rightarrow> f64" where
  "synth_clamp v lo hi = fmin (fmax v lo) hi"

text \<open>\<^verbatim>\<open>std::f64::consts::TAU\<close> is the double nearest to twice pi.\<close>

definition TAU :: f64 where
  "TAU = FFin (7074237752028440 / 2 ^ 50)"

definition sinewave :: "'r Rng \<Rightarrow> f64 \<Rightarrow> ('r, 'g, f64) synth" where
  "sinewave R amplitude =
     do { t \<leftarrow> draw (rng_unit R);
          State_Monad.return (fmul F64 (f64_sin R (fmul F64 t TAU)) amplitude) }"

definition synth_metric :: "'r Rng \<Rightarrow> string \<Rightarrow> ('r, 'g, f64 \<times> string) synth" where
  "synth_metric R name =
     (if name = ''gpu.util.percent'' then
        do { v \<leftarrow> draw (rng_f64 R (lit F64 0) (lit F64 100));
             w \<leftarrow> sinewave R (lit F64 20);
             State_Monad.return (synth_clamp (fadd F64 v w) (lit F64 0) (lit F64 100), ''percent'') }
      else if name = ''gpu.mem.util.percent'' then
        do { v \<leftarrow> draw (rng_f64 R (lit F64 0) (lit F64 100));
             State_Monad.return (synth_clamp v (lit F64 0) (lit F64 100), ''percent'') }
      else if name = ''gpu.mem.used.bytes'' then
        do { v \<leftarrow> draw (rng_f64 R (lit F64 8000000000) (lit F64 20000000000));
             State_Monad.return (v, ''bytes'') }
      else if name = ''gpu.power.watts'' then
        do { v \<leftarrow> draw (rng_f64 R (lit F64 60) (lit F64 350)); State_Monad.return (v, ''watts'') }
      else if name = ''gpu.sm.clock.hz'' then
        do { v \<leftarrow> draw (rng_f64 R (lit F64 1000000000) (lit F64 1900000000));
             State_Monad.return (v, ''hz'') }
      else if name = ''gpu.mem.bandwidth.bytes_per_sec'' then
        do { v \<leftarrow> draw (rng_f64 R (lit F64 0) (lit F64 900000000000));
             State_Monad.return (v, ''bytes_per_sec'') }
      else State_Monad.return (lit F64 0, []))"

definition gamma_us :: "'r Rng \<Rightarrow> f64 \<Rightarrow> f64 \<Rightarrow> ('r, 'g, u64) synth" where
  "gamma_us R mean_us shape =
     do { g \<leftarrow> draw (rng_gamma R shape (fdiv F64 mean_us shape));
          State_Monad.return (max (fp_to_u64 (fmul F64 g (lit F64 1000))) 500) }"

section \<open>One tick\<close>

record SyntheticSampler =
  sy_num_gpus :: u32
  sy_metric_hz :: u32
  sy_node_id :: u32
  sy_seed :: u64
  sy_burst :: bool

text \<open>The two lanes of the ring.\<close>

record 'g RingOps =
  ro_push :: "Event \<Rightarrow> 'g \<Rightarrow> 'g"
  ro_push_frame :: "MetricFrame \<Rightarrow> 'g \<Rightarrow> 'g"

definition ring_ops :: "(Event, 'ch) Channel \<Rightarrow> (MetricFrame, 'fch) Channel \<Rightarrow> ('ch, 'fch) EventRing RingOps" where
  "ring_ops c fc = \<lparr>ro_push = ring_push c, ro_push_frame = ring_push_frame fc\<rparr>"

primrec synth_points :: "'r Rng \<Rightarrow> (string \<times> u64) list \<Rightarrow> ('r, 'g, MetricPoint list) synth" where
  "synth_points R [] = State_Monad.return []"
| "synth_points R (m # ms) =
     do { v \<leftarrow> synth_metric R (fst m);
          ps \<leftarrow> synth_points R ms;
          State_Monad.return (point (snd m) (fst v) # ps) }"

text \<open>A kernel of the burst: the call of the driver and the kernel it launches.\<close>

definition synth_kernel ::
  "'g RingOps \<Rightarrow> 'r Rng \<Rightarrow> SyntheticSampler \<Rightarrow> (string \<times> u64) list \<Rightarrow> (string \<times> u64) list \<Rightarrow> u64 \<Rightarrow> u32
     \<Rightarrow> ('r, 'g, unit) synth" where
  "synth_kernel G R self kernel_names api_names now_ns gpu =
     do { ki \<leftarrow> gen_range R 0 (int (length kernel_names));
          let kid = snd (kernel_names ! unat (ki :: u64));
          ai \<leftarrow> gen_range R 0 (int (length api_names));
          let aid = snd (api_names ! unat (ai :: u64));
          corr \<leftarrow> take_corr;
          d \<leftarrow> gen_range R 0 1000000;
          let api_start = now_ns + d;
          api_dur \<leftarrow> gen_range R 500 5000;
          d2 \<leftarrow> gen_range R 1000 20000;
          let kernel_start = api_start + api_dur + d2;
          kernel_dur \<leftarrow> gamma_us R (lit F64 80) (lit F64 3);
          stream \<leftarrow> gen_range R 0 4;
          cbid \<leftarrow> gen_range R 1 400;
          on_ring (ro_push G
            \<lparr>e_ts_ns = api_start, e_duration_ns = api_dur, e_node_id = sy_node_id self, e_gpu_id = gpu,
             e_pid = 12345, e_tid = 1, e_ctx_id = 1, e_stream_id = stream,
             e_category = category_i32 Cat_ApiCall, e_name_id = aid, e_correlation_id = corr, e_parent_id = 0,
             e_payload = Some (Payload_Api \<lparr>ad_cbid = cbid, ad_status = 0\<rparr>)\<rparr>);
          kstream \<leftarrow> gen_range R 0 4;
          grid_x \<leftarrow> gen_range R 1 512;
          dyn \<leftarrow> gen_range R 0 16384;
          regs \<leftarrow> gen_range R 16 64;
          on_ring (ro_push G
            \<lparr>e_ts_ns = kernel_start, e_duration_ns = kernel_dur, e_node_id = sy_node_id self, e_gpu_id = gpu,
             e_pid = 12345, e_tid = 1, e_ctx_id = 1, e_stream_id = kstream,
             e_category = category_i32 Cat_Kernel, e_name_id = kid, e_correlation_id = corr, e_parent_id = 0,
             e_payload = Some (Payload_Kernel
               \<lparr>kd_grid_x = grid_x, kd_grid_y = 1, kd_grid_z = 1,
                kd_block_x = 128, kd_block_y = 1, kd_block_z = 1,
                kd_static_shared_mem_bytes = 0, kd_dynamic_shared_mem_bytes = dyn,
                kd_registers_per_thread = regs, kd_local_mem_per_thread = 0, kd_launch_cbid = 211\<rparr>)\<rparr>) }"

primrec repeat_m :: "nat \<Rightarrow> ('r, 'g, unit) synth \<Rightarrow> ('r, 'g, unit) synth" where
  "repeat_m 0 m = State_Monad.return ()"
| "repeat_m (Suc n) m = do { m; repeat_m n m }"

definition synth_memcpy ::
  "'g RingOps \<Rightarrow> 'r Rng \<Rightarrow> (string \<Rightarrow> u64) \<Rightarrow> SyntheticSampler \<Rightarrow> u64 \<Rightarrow> u32 \<Rightarrow> ('r, 'g, unit) synth" where
  "synth_memcpy G R h self now_ns gpu =
     do { bytes \<leftarrow> gen_range R 4096 16777216;
          d \<leftarrow> gen_range R 500 2000;
          let dur = fp_to_u64 (fmul F64 (fdiv F64 (of_word bytes) (lit F64 12000000000)) (lit F64 1000000000)) + d;
          t \<leftarrow> gen_range R 0 500000;
          on_ring (ro_push G
            \<lparr>e_ts_ns = now_ns + t, e_duration_ns = dur, e_node_id = sy_node_id self, e_gpu_id = gpu,
             e_pid = 12345, e_tid = 1, e_ctx_id = 1, e_stream_id = 0,
             e_category = category_i32 Cat_Memcpy, e_name_id = intern_hash h ''cudaMemcpyH2D'',
             e_correlation_id = 0, e_parent_id = 0,
             e_payload = Some (Payload_Memcpy
               \<lparr>md_kind = memcpy_kind_i32 Kind_H2d, md_bytes = bytes, md_src_device = 0, md_dst_device = gpu\<rparr>)\<rparr>) }"

definition named :: "(string \<Rightarrow> u64) \<Rightarrow> string list \<Rightarrow> (string \<times> u64) list" where
  "named h names = map (\<lambda>n. (n, intern_hash h n)) names"

definition synth_burst ::
  "'g RingOps \<Rightarrow> 'r Rng \<Rightarrow> (string \<Rightarrow> u64) \<Rightarrow> SyntheticSampler \<Rightarrow> u64 \<Rightarrow> u32 \<Rightarrow> ('r, 'g, unit) synth" where
  "synth_burst G R h self now_ns gpu =
     do { kernels_this_tick \<leftarrow> gen_range R 4 32;
          repeat_m (unat (kernels_this_tick :: u32))
            (synth_kernel G R self (named h KERNEL_NAMES) (named h API_NAMES) now_ns gpu);
          copies \<leftarrow> draw (rng_bool R (lit F64 (3 / 10)));
          if copies then synth_memcpy G R h self now_ns gpu else State_Monad.return () }"

definition synth_gpu ::
  "'g RingOps \<Rightarrow> 'r Rng \<Rightarrow> (string \<Rightarrow> u64) \<Rightarrow> SyntheticSampler \<Rightarrow> u64 \<Rightarrow> u32 \<Rightarrow> ('r, 'g, unit) synth" where
  "synth_gpu G R h self now_ns gpu =
     do { points \<leftarrow> synth_points R (named h METRIC_NAMES);
          on_ring (ro_push_frame G
            \<lparr>mf_node_id = sy_node_id self, mf_gpu_id = gpu, mf_ts_ns = now_ns, mf_points = points\<rparr>);
          if \<not> sy_burst self then State_Monad.return ()
          else synth_burst G R h self now_ns gpu }"

primrec for_each_m :: "('i \<Rightarrow> ('r, 'g, unit) synth) \<Rightarrow> 'i list \<Rightarrow> ('r, 'g, unit) synth" where
  "for_each_m f [] = State_Monad.return ()"
| "for_each_m f (i # is) = do { f i; for_each_m f is }"

definition synth_tick ::
  "'g RingOps \<Rightarrow> 'r Rng \<Rightarrow> (string \<Rightarrow> u64) \<Rightarrow> SyntheticSampler \<Rightarrow> u64 \<Rightarrow> ('r, 'g, unit) synth" where
  "synth_tick G R h self now_ns =
     for_each_m (synth_gpu G R h self now_ns) (map of_nat [0..<unat (sy_num_gpus self)])"

text \<open>The whole run; \<open>None\<close> is the panic of a timer without a period.\<close>

definition synth_run ::
  "'g RingOps \<Rightarrow> 'r Rng \<Rightarrow> (string \<Rightarrow> u64) \<Rightarrow> SyntheticSampler \<Rightarrow> u64 sampler_wakeup list \<Rightarrow> 'g
     \<Rightarrow> ('r, 'g) synth_state option" where
  "synth_run G R h self ws ring =
     (case tick_interval (sy_metric_hz self) of
        None \<Rightarrow> None
      | Some period \<Rightarrow> Some (sampler_loop (\<lambda>now s. snd (run_state (synth_tick G R h self now) s)) ws
          \<lparr>sy_rng = rng_seed R (sy_seed self), sy_next_corr = 1, sy_ring = ring\<rparr>))"

section \<open>What a run pushes\<close>

datatype synth_op = Op_Event Event | Op_Frame MetricFrame

fun apply_op :: "'g RingOps \<Rightarrow> synth_op \<Rightarrow> 'g \<Rightarrow> 'g" where
  "apply_op G (Op_Event e) = ro_push G e"
| "apply_op G (Op_Frame f) = ro_push_frame G f"

definition percent_ok :: "f64 \<Rightarrow> bool" where
  "percent_ok v \<longleftrightarrow> fle (fint 0) v \<and> fle v (fint 100)"

text \<open>A frame carries every metric once, the two utilisations between 0 and 100.\<close>

definition frame_ok :: "(string \<Rightarrow> u64) \<Rightarrow> MetricFrame \<Rightarrow> bool" where
  "frame_ok h f \<longleftrightarrow> map mp_metric_id (mf_points f) = map (intern_hash h) METRIC_NAMES
     \<and> list_all percent_ok (map mp_value (take 2 (mf_points f)))"

text \<open>A call and the kernel it launches: one correlation id, one GPU, and the kernel starts after the call ends.\<close>

definition launch_ok :: "u64 \<Rightarrow> Event \<Rightarrow> Event \<Rightarrow> bool" where
  "launch_ok c a k \<longleftrightarrow>
     e_category a = category_i32 Cat_ApiCall \<and> e_category k = category_i32 Cat_Kernel
   \<and> e_correlation_id a = c \<and> e_correlation_id k = c \<and> e_gpu_id a = e_gpu_id k
   \<and> unat (e_ts_ns a) + unat (e_duration_ns a) < unat (e_ts_ns k) \<and> 500 \<le> unat (e_duration_ns k)"

text \<open>
  The sequences a run may push, from the next correlation id: frames, copies, and pairs of a
  call and its kernel with the correlation ids counted up. The result is the next id.
\<close>

fun trace_from :: "(string \<Rightarrow> u64) \<Rightarrow> bool \<Rightarrow> u64 \<Rightarrow> synth_op list \<Rightarrow> u64 option" where
  "trace_from h burst c [] = Some c"
| "trace_from h burst c (Op_Frame f # ops) = (if frame_ok h f then trace_from h burst c ops else None)"
| "trace_from h burst c (Op_Event a # ops) =
     (if \<not> burst then None
      else if e_category a = category_i32 Cat_Memcpy then trace_from h burst c ops
      else case ops of
        Op_Event k # ops' \<Rightarrow> if launch_ok c a k then trace_from h burst (c + 1) ops' else None
      | _ \<Rightarrow> None)"

lemma trace_from_append:
  "trace_from h burst c xs = Some d \<Longrightarrow> trace_from h burst c (xs @ ys) = trace_from h burst d ys"
  by (induction h burst c xs rule: trace_from.induct) (auto split: if_splits list.splits synth_op.splits)

text \<open>The computation pushes such a sequence.\<close>

definition emits ::
  "'g RingOps \<Rightarrow> (string \<Rightarrow> u64) \<Rightarrow> bool \<Rightarrow> ('r, 'g) synth_state \<Rightarrow> ('r, 'g) synth_state \<Rightarrow> bool" where
  "emits G h burst s s' \<longleftrightarrow>
     (\<exists>ops. sy_ring s' = foldl (\<lambda>r x. apply_op G x r) (sy_ring s) ops
        \<and> trace_from h burst (sy_next_corr s) ops = Some (sy_next_corr s'))"

lemma emits_refl: "sy_ring s' = sy_ring s \<Longrightarrow> sy_next_corr s' = sy_next_corr s \<Longrightarrow> emits G h b s s'"
  unfolding emits_def by (intro exI [of _ "[]"]) simp

lemma emits_draw [simp]: "emits G h b (s\<lparr>sy_rng := r\<rparr>) s' \<longleftrightarrow> emits G h b s s'"
  by (simp add: emits_def)

lemma emits_trans: "emits G h b s s' \<Longrightarrow> emits G h b s' s'' \<Longrightarrow> emits G h b s s''"
  unfolding emits_def by (metis foldl_append trace_from_append)

text \<open>Weakest preconditions, so that the draws are taken one at a time.\<close>

definition wp :: "('r, 'g, 'a) synth \<Rightarrow> ('a \<Rightarrow> ('r, 'g) synth_state \<Rightarrow> bool) \<Rightarrow> ('r, 'g) synth_state \<Rightarrow> bool" where
  "wp m Q s = (case run_state m s of (a, s') \<Rightarrow> Q a s')"

lemma wp_snd: "wp m (\<lambda>_ s'. Q s') s \<longleftrightarrow> Q (snd (run_state m s))"
  by (simp add: wp_def split: prod.splits)

lemma wp_mono: "wp m Q s \<Longrightarrow> (\<And>a s'. Q a s' \<Longrightarrow> Q' a s') \<Longrightarrow> wp m Q' s"
  by (simp add: wp_def split: prod.splits)

lemma wp_bind: "wp (State_Monad.bind m f) Q s \<longleftrightarrow> wp m (\<lambda>a. wp (f a) Q) s"
  by (simp add: wp_def split: prod.splits)

lemma wp_return: "wp (State_Monad.return a) Q s \<longleftrightarrow> Q a s"
  by (simp add: wp_def)

lemma wp_on_ring: "wp (on_ring f) Q s \<longleftrightarrow> Q () (s\<lparr>sy_ring := f (sy_ring s)\<rparr>)"
  by (simp add: wp_def on_ring_def)

lemma wp_take_corr: "wp take_corr Q s \<longleftrightarrow> Q (sy_next_corr s) (s\<lparr>sy_next_corr := sy_next_corr s + 1\<rparr>)"
  by (simp add: wp_def take_corr_def)

lemma wp_draw: "(\<And>x r. Q x (s\<lparr>sy_rng := r\<rparr>)) \<Longrightarrow> wp (draw f) Q s"
  by (simp add: wp_def draw_def split: prod.splits)

lemma wp_gen_range:
  fixes Q :: "'w::len word \<Rightarrow> ('r, 'g) synth_state \<Rightarrow> bool"
  assumes "rng_in_range R" "0 \<le> lo" "lo < hi" "hi \<le> 2 ^ LENGTH('w)"
    and "\<And>x r. nat lo \<le> unat x \<Longrightarrow> unat x < nat hi \<Longrightarrow> Q x (s\<lparr>sy_rng := r\<rparr>)"
  shows "wp (gen_range R lo hi) Q s"
proof -
  obtain x r where x: "rng_int R LENGTH('w) lo hi (sy_rng s) = (x, r)" by fastforce
  then have "lo \<le> x" "x < hi" using assms(1,3) unfolding rng_in_range_def by (metis fst_conv)+
  then have "uint (of_int x :: 'w word) = x" using assms(2,4) by (simp add: unsigned_of_int take_bit_int_eq_self)
  then have "unat (of_int x :: 'w word) = nat x" by (metis unat_eq_nat_uint)
  then have "Q (of_int x) (s\<lparr>sy_rng := r\<rparr>)" using assms(5) \<open>lo \<le> x\<close> \<open>x < hi\<close> \<open>0 \<le> lo\<close> by (simp add: nat_mono nat_less_eq_zless)
  then show ?thesis by (simp add: gen_range_def wp_bind wp_return wp_def draw_def x)
qed

lemmas wp_simps = wp_bind wp_return wp_on_ring wp_take_corr Let_def

lemma synth_kernel_emits:
  assumes "rng_in_range R" "unat now_ns < 2 ^ 63"
  shows "emits G h True s (snd (run_state (synth_kernel G R self (named h KERNEL_NAMES) (named h API_NAMES) now_ns gpu) s))"
proof -
  have push: "emits G h True s
     (s\<lparr>sy_next_corr := sy_next_corr s + 1, sy_rng := r, sy_ring := ro_push G k (ro_push G a (sy_ring s))\<rparr>)"
    if "launch_ok (sy_next_corr s) a k" for r a k
    using that unfolding emits_def
    by (intro exI [of _ "[Op_Event a, Op_Event k]"]) (simp add: launch_ok_def)
  have lens: "length (named h KERNEL_NAMES) = 7" "length (named h API_NAMES) = 7"
    by (simp_all add: named_def KERNEL_NAMES_def API_NAMES_def)
  have t: "unat (now_ns + d) + unat a < unat (now_ns + d + a + d2)"
    if "unat d < 1000000" "unat a < 5000" "1000 \<le> unat d2" "unat d2 < 20000" for d a d2 :: u64
  proof -
    have "unat (now_ns + d) = unat now_ns + unat d" using assms(2) that by (intro unat_add_lem [THEN iffD1]) simp
    moreover have "unat (now_ns + d + a) = unat (now_ns + d) + unat a"
      using assms(2) that calculation by (intro unat_add_lem [THEN iffD1]) simp
    moreover have "unat (now_ns + d + a + d2) = unat (now_ns + d + a) + unat d2"
      using assms(2) that calculation by (intro unat_add_lem [THEN iffD1]) simp
    ultimately show ?thesis using that by linarith
  qed
  have max500: "500 \<le> unat (max x 500 :: u64)" for x by (simp add: max_def word_le_nat_alt)
  show ?thesis
    unfolding wp_snd [symmetric] synth_kernel_def gamma_us_def lens wp_simps
    by (intro wp_gen_range [OF assms(1)] wp_draw; (simp; fail)?; simp?; rule push) (simp add: launch_ok_def t max500)
qed

lemma synth_memcpy_emits:
  assumes "rng_in_range R"
  shows "emits G h True s (snd (run_state (synth_memcpy G R h self now_ns gpu) s))"
proof -
  have push: "emits G h True s (s\<lparr>sy_rng := r, sy_ring := ro_push G e (sy_ring s)\<rparr>)"
    if "e_category e = category_i32 Cat_Memcpy" for r e
    using that unfolding emits_def by (intro exI [of _ "[Op_Event e]"]) simp
  show ?thesis
    unfolding wp_snd [symmetric] synth_memcpy_def wp_simps
    by (intro wp_gen_range [OF assms]; (simp; fail)?; simp?; rule push) simp
qed

lemma synth_clamp_percent: "percent_ok (synth_clamp v (lit F64 0) (lit F64 100))"
proof -
  have l: "lit F64 0 = fint 0" "lit F64 100 = fint 100"
    using rnd_F64_int [of 0] rnd_F64_int [of 100] by (simp_all add: lit_def fint_def)
  show ?thesis
    unfolding percent_ok_def synth_clamp_def fmin_def fmax_def l
    by (cases "is_nan v") (auto simp: fle_iff_key flt_iff_key not_less simp del: fkey.simps)
qed

lemma synth_points_ok:
  "wp (synth_points R (named h METRIC_NAMES))
     (\<lambda>ps s'. (\<exists>r. s' = s\<lparr>sy_rng := r\<rparr>) \<and> map mp_metric_id ps = map (intern_hash h) METRIC_NAMES
        \<and> list_all percent_ok (map mp_value (take 2 ps))) s"
  unfolding METRIC_NAMES_def named_def list.map synth_points.simps synth_metric_def sinewave_def fst_conv wp_simps
  by (simp add: wp_simps, (rule wp_draw, simp add: wp_simps point_def synth_clamp_percent)+) blast

lemma repeat_emits:
  assumes "\<And>s. emits G h b s (snd (run_state m s))"
  shows "emits G h b s (snd (run_state (repeat_m n m) s))"
proof (induction n arbitrary: s)
  case (Suc n)
  then show ?case using assms [of s] by (auto intro: emits_trans split: prod.splits)
qed (simp add: emits_refl)

lemma for_each_emits:
  assumes "\<And>i s. emits G h b s (snd (run_state (f i) s))"
  shows "emits G h b s (snd (run_state (for_each_m f is) s))"
proof (induction "is" arbitrary: s)
  case (Cons i "is")
  then show ?case using assms [of s i] by (auto intro: emits_trans split: prod.splits)
qed (simp add: emits_refl)

lemma synth_burst_emits:
  assumes "rng_in_range R" "unat now_ns < 2 ^ 63"
  shows "emits G h True s (snd (run_state (synth_burst G R h self now_ns gpu) s))"
proof -
  let ?k = "synth_kernel G R self (named h KERNEL_NAMES) (named h API_NAMES) now_ns gpu"
  have copy: "wp (if copies then synth_memcpy G R h self now_ns gpu else State_Monad.return ())
      (\<lambda>_. emits G h True s) u" if "emits G h True s u" for copies u
    using that emits_trans [OF that synth_memcpy_emits [OF assms(1)]] by (simp add: wp_snd wp_return)
  have kernels: "wp (repeat_m n ?k) (\<lambda>_. emits G h True s) (s\<lparr>sy_rng := r\<rparr>)" for n r
    using repeat_emits [OF synth_kernel_emits [OF assms], where s = "s\<lparr>sy_rng := r\<rparr>"] by (simp add: wp_snd)
  show ?thesis
    unfolding wp_snd [symmetric] synth_burst_def wp_bind
    by (rule wp_gen_range [OF assms(1)]; (simp; fail)?)
      (rule wp_mono [OF kernels], rule wp_draw, rule copy, simp add: emits_def)
qed

lemma synth_gpu_emits:
  assumes "rng_in_range R" "unat now_ns < 2 ^ 63"
  shows "emits G h (sy_burst self) s (snd (run_state (synth_gpu G R h self now_ns gpu) s))"
proof -
  have frame: "emits G h b s (s\<lparr>sy_rng := r, sy_ring := ro_push_frame G f (sy_ring s)\<rparr>)"
    if "frame_ok h f" for r f b
    using that unfolding emits_def by (intro exI [of _ "[Op_Frame f]"]) simp
  have rest: "wp (if \<not> sy_burst self then State_Monad.return () else synth_burst G R h self now_ns gpu)
      (\<lambda>_. emits G h (sy_burst self) s) u" if "emits G h (sy_burst self) s u" for u
    using that emits_trans [OF that] synth_burst_emits [OF assms, of G h u self gpu]
    by (cases "sy_burst self") (simp_all add: wp_snd wp_return)
  show ?thesis
    unfolding wp_snd [symmetric] synth_gpu_def wp_bind wp_on_ring
    by (rule wp_mono [OF synth_points_ok], rule rest) (auto simp: frame_ok_def intro!: frame)
qed

lemma synth_ticks_emit:
  assumes "rng_in_range R" "list_all (\<lambda>now. unat now < 2 ^ 63) ts"
  shows "emits G h (sy_burst self) s (foldl (\<lambda>s now. snd (run_state (synth_tick G R h self now) s)) s ts)"
  using assms(2)
proof (induction ts arbitrary: s)
  case (Cons now ts)
  have "emits G h (sy_burst self) s (snd (run_state (synth_tick G R h self now) s))"
    unfolding synth_tick_def using Cons.prems by (intro for_each_emits synth_gpu_emits assms(1)) simp
  then show ?case using Cons by (auto intro: emits_trans)
qed (simp add: emits_refl)

text \<open>
  C17: What the synthetic sampler pushes into the ring until its shutdown: frames that carry
  every metric, with the utilisations between 0 and 100 whatever the generator and the sine
  return, and, with bursts enabled only, copies and pairs of a driver call and a kernel. The
  pairs count their correlation ids up from 1 without a gap, both events of a pair share
  their id and their GPU, and a kernel never starts before its call has ended.
\<close>

theorem synthetic_trace_causal:
  assumes "rng_in_range R" "unat (sy_metric_hz self) \<le> 1000"
    and "list_all (\<lambda>now. unat now < 2 ^ 63) (ticks_of ws)"
  shows "\<exists>s ops. synth_run (ring_ops c fc) R h self ws ring = Some s
     \<and> sy_ring s = foldl (\<lambda>r x. apply_op (ring_ops c fc) x r) ring ops
     \<and> trace_from h (sy_burst self) 1 ops = Some (sy_next_corr s)"
proof -
  let ?s = "\<lparr>sy_rng = rng_seed R (sy_seed self), sy_next_corr = 1, sy_ring = ring\<rparr>"
  obtain p where p: "tick_interval (sy_metric_hz self) = Some p"
    using tick_interval_None [of "sy_metric_hz self"] assms(2) by fastforce
  show ?thesis
    using synth_ticks_emit [OF assms(1,3), of "ring_ops c fc" h self ?s]
    by (auto simp: synth_run_def p sampler_loop_ticks emits_def)
qed

text \<open>A generator that counts and reduces into the range.\<close>

definition counting_rng :: "int Rng" where
  "counting_rng =
     \<lparr>rng_seed = uint, rng_int = (\<lambda>w lo hi r. (lo + r mod (hi - lo), r + 1)),
      rng_f64 = (\<lambda>lo hi r. (lo, r + 1)), rng_unit = (\<lambda>r. (fint 0, r + 1)), rng_bool = (\<lambda>p r. (even r, r + 1)),
      rng_gamma = (\<lambda>k \<theta> r. (\<theta>, r + 1)), f64_sin = id\<rparr>"

definition demo_sampler :: SyntheticSampler where
  "demo_sampler = \<lparr>sy_num_gpus = 2, sy_metric_hz = 1, sy_node_id = 1, sy_seed = 7, sy_burst = True\<rparr>"

theorem synthetic_trace_causal_witness:
  "\<exists>s ops. synth_run (ring_ops (queue_channel 8) (queue_channel 8)) counting_rng (\<lambda>s. of_nat (length s))
       demo_sampler [Samp_Tick 1000, Samp_Shutdown True] (event_ring_new (\<lambda>n. []) (\<lambda>n. []) 8) = Some s
     \<and> sy_ring s = foldl (\<lambda>r x. apply_op (ring_ops (queue_channel 8) (queue_channel 8)) x r)
         (event_ring_new (\<lambda>n. []) (\<lambda>n. []) 8) ops
     \<and> trace_from (\<lambda>s. of_nat (length s)) True 1 ops = Some (sy_next_corr s)"
proof -
  have "lo \<le> lo + r mod (hi - lo) \<and> lo + r mod (hi - lo) < hi" if "lo < hi" for lo hi r :: int
    using that pos_mod_bound [of "hi - lo" r] pos_mod_sign [of "hi - lo" r] by linarith
  then have "rng_in_range counting_rng" by (simp add: rng_in_range_def counting_rng_def)
  from synthetic_trace_causal [OF this, where self = demo_sampler and ws = "[Samp_Tick 1000, Samp_Shutdown True]"
      and h = "\<lambda>s. of_nat (length s)"]
  show ?thesis by (simp add: demo_sampler_def)
qed

end
