(* ===== verification/Tegra.thy ===== *)
theory Tegra
  imports Samplers Text Floats
begin

text \<open>
  The sampler for Tegra boards, \<^verbatim>\<open>crates/perfweave-agent/src/sampler/tegra.rs\<close>: finding the nodes of
  the system's file tree, reading numbers out of them, and building one frame per tick. The
  file tree is an argument: which paths exist, what a file holds, what a directory lists. The
  lemmas show that the memory report is read back from any text of the kernel's form and that
  the temperature is the hottest of the GPU's zones.
\<close>

section \<open>Decimal text of a floating-point number\<close>

text \<open>
  \<^verbatim>\<open>str::parse::<f64>\<close>: an optional sign, then \<^verbatim>\<open>inf\<close>, \<^verbatim>\<open>infinity\<close> or \<^verbatim>\<open>nan\<close> in any case, or digits with
  an optional fraction and an optional exponent; the value is rounded once.
\<close>

definition split_sign :: "string \<Rightarrow> bool \<times> string" where
  "split_sign s =
     (case s of CHR ''-'' # t \<Rightarrow> (True, t) | CHR ''+'' # t \<Rightarrow> (False, t) | _ \<Rightarrow> (False, s))"

definition is_exp :: "char \<Rightarrow> bool" where
  "is_exp c \<longleftrightarrow> c = CHR ''e'' \<or> c = CHR ''E''"

definition parse_exponent :: "string \<Rightarrow> int option" where
  "parse_exponent s =
     (case s of
        [] \<Rightarrow> Some 0
      | c # t \<Rightarrow> (let (neg, ds) = split_sign t in
                  map_option (\<lambda>n. if neg then - int n else int n) (parse_digits ds)))"

definition parse_mantissa :: "string \<Rightarrow> (nat \<times> nat) option" where
  "parse_mantissa s =
     (let ip = takeWhile (\<lambda>c. c \<noteq> CHR ''.'') s; fp = tl (dropWhile (\<lambda>c. c \<noteq> CHR ''.'') s)
      in map_option (\<lambda>n. (n, length fp)) (parse_digits (ip @ fp)))"

definition parse_f64 :: "string \<Rightarrow> f64 option" where
  "parse_f64 s =
     (let (neg, t) = split_sign s; l = to_ascii_lowercase t in
      if l = ''inf'' \<or> l = ''infinity'' then Some (FInf neg)
      else if l = ''nan'' then Some FNaN
      else case (parse_mantissa (takeWhile (\<lambda>c. \<not> is_exp c) t), parse_exponent (dropWhile (\<lambda>c. \<not> is_exp c) t)) of
        (Some (n, k), Some e) \<Rightarrow>
          let v = of_nat n * (10 :: rat) powi (e - int k)
          in Some (rnd_sign F64 neg (if neg then - v else v))
      | _ \<Rightarrow> None)"

section \<open>The file tree\<close>

record FileTree =
  ft_exists :: "string \<Rightarrow> bool"
  ft_read :: "string \<Rightarrow> string option"
  ft_list :: "string \<Rightarrow> string list option"

record TegraSampler =
  tg_node_id :: u32
  tg_metric_hz :: u32

definition path_join :: "string \<Rightarrow> string \<Rightarrow> string" where
  "path_join p q = p @ ''/'' @ q"

text \<open>\<open>forced\<close> says whether the environment has the override variable.\<close>

definition is_tegra :: "bool \<Rightarrow> FileTree \<Rightarrow> bool" where
  "is_tegra forced ft =
     (if forced then True
      else case ft_read ft ''/proc/device-tree/model'' of
        None \<Rightarrow> False
      | Some model \<Rightarrow>
          let m = to_ascii_lowercase model in
          str_contains ''nvidia'' m
          \<and> (str_contains ''orin'' m \<or> str_contains ''xavier'' m \<or> str_contains ''jetson'' m))"

record DiscoveredPaths =
  dp_gpu_clock :: "string option"
  dp_gpu_load :: "string option"
  dp_temp_zones :: "(string \<times> string) list"
  dp_power_rails :: "(string \<times> string) list"

definition DEVFREQ_GPU_CANDIDATES :: "string list" where
  "DEVFREQ_GPU_CANDIDATES =
     [''/sys/class/devfreq/17000000.gv11b'', ''/sys/class/devfreq/17000000.gp10b'',
      ''/sys/class/devfreq/57000000.gpu'', ''/sys/class/devfreq/13000000.gpu'']"

text \<open>The first candidate that exists decides; the loop breaks there.\<close>

definition discover_gpu :: "FileTree \<Rightarrow> string option \<times> string option" where
  "discover_gpu ft =
     (case filter (ft_exists ft) DEVFREQ_GPU_CANDIDATES of
        [] \<Rightarrow> (None, None)
      | dir # _ \<Rightarrow>
          ((if ft_exists ft (path_join dir ''cur_freq'') then Some (path_join dir ''cur_freq'') else None),
           (if ft_exists ft (path_join (path_join dir ''device'') ''load'')
            then Some (path_join (path_join dir ''device'') ''load'')
            else if ft_exists ft (path_join dir ''load'') then Some (path_join dir ''load'') else None)))"

text \<open>A zone is kept when it has a type and a temperature and its type is an interesting one.\<close>

definition interesting_zone :: "string \<Rightarrow> bool" where
  "interesting_zone t =
     (let tl = to_ascii_lowercase t in
      str_contains ''gpu'' tl \<or> str_contains ''cpu'' tl \<or> str_contains ''soc'' tl \<or> str_contains ''tj'' tl)"

definition discover_zone :: "FileTree \<Rightarrow> string \<Rightarrow> (string \<times> string) option" where
  "discover_zone ft name =
     (let p = path_join ''/sys/class/thermal'' name; type_path = path_join p ''type''; temp_path = path_join p ''temp'' in
      if \<not> starts_with ''thermal_zone'' name then None
      else if \<not> ft_exists ft type_path \<or> \<not> ft_exists ft temp_path then None
      else case ft_read ft type_path of
        None \<Rightarrow> None
      | Some raw \<Rightarrow> let t = trim raw in if interesting_zone t then Some (t, temp_path) else None)"

definition discover_zones :: "FileTree \<Rightarrow> (string \<times> string) list" where
  "discover_zones ft =
     (case ft_list ft ''/sys/class/thermal'' of
        None \<Rightarrow> []
      | Some names \<Rightarrow> List.map_filter (discover_zone ft) names)"

definition discover_rail :: "FileTree \<Rightarrow> string \<Rightarrow> nat \<Rightarrow> (string \<times> string) option" where
  "discover_rail ft hwp idx =
     (let val = path_join hwp (''in_power'' @ show_nat idx @ ''_input'');
          lab = path_join hwp (''in_label'' @ show_nat idx) in
      if ft_exists ft val
      then Some (case ft_read ft lab of Some s \<Rightarrow> trim s | None \<Rightarrow> ''rail'' @ show_nat idx, val)
      else None)"

definition discover_rails :: "FileTree \<Rightarrow> (string \<times> string) list" where
  "discover_rails ft =
     (let dir = ''/sys/bus/i2c/drivers/ina3221'' in
      case ft_list ft dir of
        None \<Rightarrow> []
      | Some devs \<Rightarrow>
          concat (map (\<lambda>dev.
            let hwmon_root = path_join (path_join dir dev) ''hwmon'' in
            case ft_list ft hwmon_root of
              None \<Rightarrow> []
            | Some hws \<Rightarrow>
                concat (map (\<lambda>hw. List.map_filter (discover_rail ft (path_join hwmon_root hw)) [0..<8]) hws)) devs))"

definition discover_paths :: "FileTree \<Rightarrow> DiscoveredPaths" where
  "discover_paths ft =
     (let (clock, load) = discover_gpu ft in
      \<lparr>dp_gpu_clock = clock, dp_gpu_load = load, dp_temp_zones = discover_zones ft,
       dp_power_rails = discover_rails ft\<rparr>)"

section \<open>Readings and frames\<close>

definition read_num :: "FileTree \<Rightarrow> string \<Rightarrow> f64 option" where
  "read_num ft path = Option.bind (ft_read ft path) (\<lambda>raw. parse_f64 (trim raw))"

text \<open>The loop over the lines of the report: a later line overrides an earlier one.\<close>

definition meminfo_value :: "string \<Rightarrow> nat option" where
  "meminfo_value rest = Option.bind (first_word rest) (parse_uint (2 ^ 64))"

definition meminfo_line :: "nat option \<times> nat option \<Rightarrow> string \<Rightarrow> nat option \<times> nat option" where
  "meminfo_line acc line =
     (case strip_prefix ''MemTotal:'' line of
        Some rest \<Rightarrow> (meminfo_value rest, snd acc)
      | None \<Rightarrow>
          (case strip_prefix ''MemAvailable:'' line of
             Some rest \<Rightarrow> (fst acc, meminfo_value rest)
           | None \<Rightarrow> acc))"

definition read_meminfo :: "FileTree \<Rightarrow> (u64 \<times> u64) option" where
  "read_meminfo ft =
     (case ft_read ft ''/proc/meminfo'' of
        None \<Rightarrow> None
      | Some s \<Rightarrow>
          (case foldl meminfo_line (None, None) (str_lines s) of
             (Some t, Some f) \<Rightarrow> Some (sat_sub (of_nat t) (of_nat f) * 1024, of_nat f * 1024)
           | _ \<Rightarrow> None))"

record TegraMetricIds =
  ti_util :: u64
  ti_sm_clock :: u64
  ti_mem_used :: u64
  ti_mem_free :: u64
  ti_power_total :: u64
  ti_temp :: u64

definition tegra_metric_ids :: "(string \<Rightarrow> u64) \<Rightarrow> TegraMetricIds" where
  "tegra_metric_ids h =
     \<lparr>ti_util = intern_hash h ''gpu.util.percent'', ti_sm_clock = intern_hash h ''gpu.sm.clock.hz'',
      ti_mem_used = intern_hash h ''gpu.mem.used.bytes'', ti_mem_free = intern_hash h ''gpu.mem.free.bytes'',
      ti_power_total = intern_hash h ''soc.power.watts'', ti_temp = intern_hash h ''gpu.temp.celsius''\<rparr>"

definition gpu_temps :: "FileTree \<Rightarrow> DiscoveredPaths \<Rightarrow> f64 list" where
  "gpu_temps ft paths =
     List.map_filter (\<lambda>(t, p). map_option (\<lambda>v. fdiv F64 v (lit F64 1000)) (read_num ft p))
       (filter (\<lambda>(t, p). str_contains ''gpu'' (to_ascii_lowercase t)) (dp_temp_zones paths))"

definition gpu_temp :: "FileTree \<Rightarrow> DiscoveredPaths \<Rightarrow> f64 option" where
  "gpu_temp ft paths =
     foldl (\<lambda>acc v. Some (case acc of None \<Rightarrow> v | Some a \<Rightarrow> fmax a v)) None (gpu_temps ft paths)"

text \<open>\<^verbatim>\<open>sum\<close> of floating-point numbers starts at negative zero.\<close>

definition total_mw :: "FileTree \<Rightarrow> DiscoveredPaths \<Rightarrow> f64" where
  "total_mw ft paths = foldl (fadd F64) (FZero True) (List.map_filter (\<lambda>(l, p). read_num ft p) (dp_power_rails paths))"

definition opt_point :: "u64 \<Rightarrow> f64 option \<Rightarrow> MetricPoint list" where
  "opt_point metric_id v = (case v of Some x \<Rightarrow> [point metric_id x] | None \<Rightarrow> [])"

definition tegra_points :: "FileTree \<Rightarrow> DiscoveredPaths \<Rightarrow> TegraMetricIds \<Rightarrow> MetricPoint list" where
  "tegra_points ft paths ids =
     opt_point (ti_util ids)
       (map_option (\<lambda>v. fdiv F64 v (lit F64 10)) (Option.bind (dp_gpu_load paths) (read_num ft)))
   @ opt_point (ti_sm_clock ids) (Option.bind (dp_gpu_clock paths) (read_num ft))
   @ opt_point (ti_temp ids) (gpu_temp ft paths)
   @ (case read_meminfo ft of
        Some (used, free) \<Rightarrow> [point (ti_mem_used ids) (of_word used), point (ti_mem_free ids) (of_word free)]
      | None \<Rightarrow> [])
   @ (if flt (lit F64 0) (total_mw ft paths)
      then [point (ti_power_total ids) (fdiv F64 (total_mw ft paths) (lit F64 1000))] else [])"

definition tegra_build_frame :: "FileTree \<Rightarrow> DiscoveredPaths \<Rightarrow> TegraMetricIds \<Rightarrow> u64 \<Rightarrow> u32 \<Rightarrow> MetricFrame" where
  "tegra_build_frame ft paths ids now_ns node_id =
     \<lparr>mf_node_id = node_id, mf_gpu_id = 0, mf_ts_ns = now_ns, mf_points = tegra_points ft paths ids\<rparr>"

text \<open>The paths are found once; each tick has its own state of the file tree.\<close>

fun tegra_tick ::
  "(MetricFrame, 'fch) Channel \<Rightarrow> DiscoveredPaths \<Rightarrow> TegraMetricIds \<Rightarrow> u32 \<Rightarrow> u64 \<times> FileTree
     \<Rightarrow> ('ch, 'fch) EventRing \<Rightarrow> ('ch, 'fch) EventRing" where
  "tegra_tick fc paths ids node_id (now_ns, ft) ring =
     ring_push_frame fc (tegra_build_frame ft paths ids now_ns node_id) ring"

definition tegra_run ::
  "(MetricFrame, 'fch) Channel \<Rightarrow> (string \<Rightarrow> u64) \<Rightarrow> FileTree \<Rightarrow> TegraSampler
     \<Rightarrow> (u64 \<times> FileTree) sampler_wakeup list \<Rightarrow> ('ch, 'fch) EventRing \<Rightarrow> ('ch, 'fch) EventRing option" where
  "tegra_run fc h ft self ws ring =
     (let paths = discover_paths ft in
      case tick_interval (tg_metric_hz self) of
        None \<Rightarrow> None
      | Some period \<Rightarrow>
          Some (sampler_loop (tegra_tick fc paths (tegra_metric_ids h) (tg_node_id self)) ws ring))"

interpretation tegra: frame_sampler "ring_push_frame fc" "tegra_tick fc paths ids node_id"
  "\<lambda>(now_ns, ft). [tegra_build_frame ft paths ids now_ns node_id]"
  by unfold_locales (auto split: prod.splits)

text \<open>The run pushes one frame per tick, read through the paths that were found at its start.\<close>

lemma tegra_pushes_frames:
  "tegra_run fc h ft self ws ring =
     (if 1000 < unat (tg_metric_hz self) then None
      else Some (foldl (\<lambda>r f. ring_push_frame fc f r) ring
        (map (\<lambda>(now_ns, ft'). tegra_build_frame ft' (discover_paths ft) (tegra_metric_ids h) now_ns (tg_node_id self))
          (ticks_of ws))))"
proof -
  have "concat (map (\<lambda>(now_ns, ft). [f ft now_ns]) xs) = map (\<lambda>(now_ns, ft). f ft now_ns) xs"
    for f :: "FileTree \<Rightarrow> u64 \<Rightarrow> MetricFrame" and xs
    by (induction xs) auto
  then show ?thesis
    using tick_interval_None [of "tg_metric_hz self"]
    by (auto simp: tegra_run_def tegra.run_pushes split: option.splits)
qed

section \<open>Numbers and text\<close>

lemma digits_prefix:
  assumes "list_all is_digit s" "s \<noteq> []"
  shows "split_sign s = (False, s)" "to_ascii_lowercase s \<notin> {''inf'', ''infinity'', ''nan''}"
    "takeWhile (\<lambda>c. \<not> is_exp c) s = s" "dropWhile (\<lambda>c. \<not> is_exp c) s = []"
    "takeWhile (\<lambda>c. c \<noteq> CHR ''.'') s = s" "dropWhile (\<lambda>c. c \<noteq> CHR ''.'') s = []"
proof -
  have d: "\<not> is_exp c" "c \<noteq> CHR ''.''" "c \<noteq> CHR ''-''" "c \<noteq> CHR ''+''" "lower_char c = c" if "is_digit c" for c
    using that by (auto simp: is_digit_def is_exp_def lower_char_def Let_def)
  obtain c t where s: "s = c # t" "is_digit c" using assms by (cases s) auto
  show "split_sign s = (False, s)"
    using d [OF s(2)] unfolding split_sign_def s(1) by (auto split: char.splits bool.splits)
  have "\<not> is_digit CHR ''i''" "\<not> is_digit CHR ''n''" by (simp_all add: is_digit_def)
  then show "to_ascii_lowercase s \<notin> {''inf'', ''infinity'', ''nan''}"
    using d(5) [OF s(2)] s by (auto simp: to_ascii_lowercase_def)
  show "takeWhile (\<lambda>c. \<not> is_exp c) s = s" "dropWhile (\<lambda>c. \<not> is_exp c) s = []"
    "takeWhile (\<lambda>c. c \<noteq> CHR ''.'') s = s" "dropWhile (\<lambda>c. c \<noteq> CHR ''.'') s = []"
    using assms(1) d by (auto simp: list_all_iff takeWhile_eq_all_conv dropWhile_eq_Nil_conv)
qed

text \<open>A whole number below \<open>2 ^ 53\<close> is read exactly.\<close>

lemma parse_f64_show: "n < 2 ^ 53 \<Longrightarrow> parse_f64 (show_nat n) = Some (fint (int n))"
proof -
  assume n: "n < 2 ^ 53"
  then have "int n < 2 ^ 53" using of_nat_less_iff [of n "2 ^ 53", where 'a = int] by simp
  then have "rnd F64 (of_int (int n)) = fint (int n)" by (intro rnd_F64_fint) simp
  then have "rnd_sign F64 False (rat_of_nat n) = fint (int n)" by (auto simp: rnd_sign_def fint_def)
  note this [simp] and d = digits_prefix [OF show_nat_digits show_nat_nonempty, of n]
  show ?thesis
    using d(2) by (simp add: parse_f64_def parse_mantissa_def parse_exponent_def parse_digits_show Let_def d(1,3-6))
qed

lemma read_num_show:
  assumes "ft_read ft p = Some (show_nat n @ [CHR 0x0A])" "n < 2 ^ 53"
  shows "read_num ft p = Some (fint (int n))"
proof -
  have w: "is_white CHR 0x0A" by (simp add: is_white_def)
  have "trim (show_nat n @ [CHR 0x0A]) = trim (show_nat n)"
    using show_nat_digits [of n] show_nat_nonempty [of n] w
    by (cases "show_nat n") (auto simp: trim_def trim_start_def trim_end_def digit_not(3))
  then show ?thesis using assms by (simp add: read_num_def trim_show parse_f64_show)
qed

lemma str_lines_unlines:
  assumes "list_all (\<lambda>l. CHR 0x0A \<notin> set l \<and> CHR 0x0D \<notin> set l) ls"
  shows "str_lines (concat (map (\<lambda>l. l @ [CHR 0x0A]) ls)) = ls"
proof -
  have "split_on CHR 0x0A (concat (map (\<lambda>l. l @ [CHR 0x0A]) ls)) = ls @ [[]]"
    using assms by (induction ls) (simp_all add: split_on_append)
  moreover have "chomp_cr l = l" if "l \<in> set ls" for l
    using assms that by (metis chomp_cr_def last_in_set list_all_iff)
  then have "map chomp_cr ls = ls" by (rule map_idI)
  ultimately show ?thesis by (simp add: str_lines_def)
qed

lemma meminfo_value_show:
  assumes "list_all is_white ws" "n < 2 ^ 64"
  shows "meminfo_value (ws @ show_nat n @ '' kB'') = Some n"
proof -
  have nw: "c \<in> set (show_nat n) \<Longrightarrow> \<not> is_white c" for c
    using show_nat_digits [of n] digit_not(3) by (auto simp: list_all_iff)
  have "trim_start (ws @ show_nat n @ '' kB'') = show_nat n @ '' kB''"
    using assms(1) nw show_nat_nonempty [of n]
    by (cases "show_nat n") (auto simp: trim_start_def dropWhile_append1 dropWhile_append2 list_all_iff)
  moreover have "takeWhile (\<lambda>c. \<not> is_white c) (show_nat n @ '' kB'') = show_nat n"
    using nw by (subst takeWhile_append2) (auto simp: is_white_def)
  ultimately have "first_word (ws @ show_nat n @ '' kB'') = Some (show_nat n)"
    using show_nat_nonempty [of n] by (cases "show_nat n") (simp_all add: first_word_def)
  then show ?thesis using assms(2) by (simp add: meminfo_value_def parse_uint_show)
qed

definition plain_line :: "string \<Rightarrow> bool" where
  "plain_line l \<longleftrightarrow> \<not> starts_with ''MemTotal:'' l \<and> \<not> starts_with ''MemAvailable:'' l"

lemma meminfo_plain: "list_all plain_line ls \<Longrightarrow> foldl meminfo_line acc ls = acc"
  by (induction ls arbitrary: acc) (simp_all add: meminfo_line_def strip_prefix_def plain_line_def)

lemma meminfo_total: "meminfo_line acc (''MemTotal:'' @ rest) = (meminfo_value rest, snd acc)"
  by (simp add: meminfo_line_def strip_prefix_def)

lemma meminfo_available: "meminfo_line acc (''MemAvailable:'' @ rest) = (fst acc, meminfo_value rest)"
  by (simp add: meminfo_line_def strip_prefix_def)

section \<open>Properties\<close>

text \<open>
  C23: The memory report is read back from the text the kernel writes: whatever other lines the
  report has, a total of \<open>t\<close> kB and \<open>f\<close> available kB give \<open>f\<close> kB of free and the rest as used
  memory, in bytes and without overflow, so that the two add up to the total.
\<close>

theorem meminfo_roundtrip:
  assumes "ft_read ft ''/proc/meminfo'' = Some (concat (map (\<lambda>l. l @ [CHR 0x0A])
      (pre @ [''MemTotal:'' @ ws @ show_nat t @ '' kB''] @ mid @ [''MemAvailable:'' @ ws' @ show_nat f @ '' kB''] @ post)))"
    and "list_all (\<lambda>l. CHR 0x0A \<notin> set l \<and> CHR 0x0D \<notin> set l \<and> plain_line l) (pre @ mid @ post)"
    and "list_all (\<lambda>c. c = CHR '' '') (ws @ ws')" "f \<le> t" "t < 2 ^ 54"
  shows "\<exists>used free. read_meminfo ft = Some (used, free)
    \<and> unat used = (t - f) * 1024 \<and> unat free = f * 1024 \<and> unat used + unat free = t * 1024"
proof -
  let ?total = "''MemTotal:'' @ ws @ show_nat t @ '' kB''" and ?avail = "''MemAvailable:'' @ ws' @ show_nat f @ '' kB''"
  have digit: "CHR 0x0A \<notin> set (show_nat n) \<and> CHR 0x0D \<notin> set (show_nat n)" for n
    using show_nat_digits [of n] by (auto simp: list_all_iff is_digit_def)
  have lim: "t < 2 ^ 64" "f < 2 ^ 64" "(t - f) * 1024 < 2 ^ 64" "f * 1024 < 2 ^ 64" using assms(4,5) by simp_all
  have w: "is_white CHR '' ''" by (simp add: is_white_def)
  have sp: "c = CHR '' ''" if "c \<in> set ws \<or> c \<in> set ws'" for c
    using assms(3) that unfolding list_all_iff set_append by blast
  have ws: "list_all is_white ws" "list_all is_white ws'"
    using sp w unfolding list_all_iff by metis+
  have nl: "CHR 0x0A \<notin> set ws \<and> CHR 0x0D \<notin> set ws \<and> CHR 0x0A \<notin> set ws' \<and> CHR 0x0D \<notin> set ws'"
    using sp [of "CHR 0x0A"] sp [of "CHR 0x0D"] by auto
  have "str_lines (concat (map (\<lambda>l. l @ [CHR 0x0A]) (pre @ [?total] @ mid @ [?avail] @ post))) =
      pre @ [?total] @ mid @ [?avail] @ post"
    using assms(2) nl digit by (intro str_lines_unlines) (auto simp: list_all_iff)
  moreover have "foldl meminfo_line (None, None) (pre @ [?total] @ mid @ [?avail] @ post) = (Some t, Some f)"
  proof -
    have p: "list_all plain_line pre" "list_all plain_line mid" "list_all plain_line post"
      using assms(2) by (simp_all add: list_all_iff)
    show ?thesis
      by (simp only: foldl_append foldl.simps meminfo_plain [OF p(1)] meminfo_plain [OF p(2)] meminfo_plain [OF p(3)]
          meminfo_total meminfo_available meminfo_value_show [OF ws(1) lim(1)] meminfo_value_show [OF ws(2) lim(2)]
          fst_conv snd_conv)
  qed
  ultimately have r: "read_meminfo ft = Some (sat_sub (of_nat t) (of_nat f) * 1024, of_nat f * 1024)"
    unfolding read_meminfo_def assms(1) by simp
  have u: "unat (of_nat t :: u64) = t" "unat (of_nat f :: u64) = f" using lim by (simp_all add: unat_of_nat)
  have "sat_sub (of_nat t) (of_nat f) = (of_nat (t - f) :: u64)"
    using u assms(4) by (auto simp: sat_sub_def word_le_nat_alt word_less_nat_alt of_nat_diff)
  then have e: "sat_sub (of_nat t) (of_nat f) * 1024 = (of_nat ((t - f) * 1024) :: u64)"
    "(of_nat f * 1024 :: u64) = of_nat (f * 1024)" by simp_all
  have a: "unat (of_nat ((t - f) * 1024) :: u64) = (t - f) * 1024" and b: "unat (of_nat (f * 1024) :: u64) = f * 1024"
    using lim(3,4) by (simp_all only: unat_of_nat) simp_all
  have c: "(t - f) * 1024 + f * 1024 = t * 1024" using assms(4) by (simp flip: add_mult_distrib)
  show ?thesis
    unfolding r e using c
    by (intro exI [of _ "of_nat ((t - f) * 1024)"] exI [of _ "of_nat (f * 1024)"] conjI) (simp_all only: a b)
qed

definition mem_report :: "string list" where
  "mem_report = [] @ [''MemTotal:'' @ ''       '' @ show_nat 16000 @ '' kB''] @ [''MemFree:         100 kB'']
     @ [''MemAvailable:'' @ ''    '' @ show_nat 4000 @ '' kB''] @ [''Buffers:           1 kB'']"

definition mem_tree :: FileTree where
  "mem_tree = \<lparr>ft_exists = (\<lambda>p. False),
     ft_read = (\<lambda>p. if p = ''/proc/meminfo'' then Some (concat (map (\<lambda>l. l @ [CHR 0x0A]) mem_report)) else None),
     ft_list = (\<lambda>p. None)\<rparr>"

theorem meminfo_roundtrip_witness:
  "\<exists>used free. read_meminfo mem_tree = Some (used, free) \<and> unat used = 12000 * 1024 \<and> unat free = 4000 * 1024"
proof -
  have "ft_read mem_tree ''/proc/meminfo'' = Some (concat (map (\<lambda>l. l @ [CHR 0x0A]) mem_report))"
    by (simp add: mem_tree_def)
  from meminfo_roundtrip [OF this [unfolded mem_report_def]]
  show ?thesis by (simp add: plain_line_def) blast
qed

lemma foldl_fmax:
  assumes "\<forall>v \<in> set vs. \<not> is_nan v" "\<not> is_nan a"
  shows "\<exists>m. foldl (\<lambda>acc v. Some (case acc of None \<Rightarrow> v | Some a \<Rightarrow> fmax a v)) (Some a) vs = Some m
    \<and> m \<in> insert a (set vs) \<and> (\<forall>v \<in> insert a (set vs). fkey v \<le> fkey m) \<and> \<not> is_nan m"
  using assms
proof (induction vs arbitrary: a)
  case (Cons v vs)
  have "\<not> is_nan (fmax a v)" "fmax a v \<in> {a, v}" "fkey a \<le> fkey (fmax a v)" "fkey v \<le> fkey (fmax a v)"
    using Cons.prems by (auto simp: fmax_def flt_iff_key)
  with Cons.IH [of "fmax a v"] Cons.prems(1) show ?case by (auto intro: order_trans)
qed simp

text \<open>
  The temperature reported is the hottest of the GPU's zones: when no zone reads NaN, it is
  one of the readings and none is above it; without a readable GPU zone none is reported.
\<close>

theorem gpu_temp_hottest:
  assumes "list_all (\<lambda>v. \<not> is_nan v) (gpu_temps ft paths)"
  shows "case gpu_temp ft paths of
      None \<Rightarrow> gpu_temps ft paths = []
    | Some m \<Rightarrow> m \<in> set (gpu_temps ft paths) \<and> list_all (\<lambda>v. fle v m) (gpu_temps ft paths)"
proof (cases "gpu_temps ft paths")
  case (Cons v vs)
  with foldl_fmax [of vs v] assms obtain m where m: "gpu_temp ft paths = Some m" "m \<in> insert v (set vs)"
    "\<forall>x \<in> insert v (set vs). fkey x \<le> fkey m" "\<not> is_nan m"
    by (auto simp: gpu_temp_def list_all_iff)
  have "fle x m" if "x \<in> insert v (set vs)" for x
    using m(3,4) that assms Cons by (subst fle_iff_key) (auto simp: list_all_iff)
  then show ?thesis using m(1,2) Cons by (simp add: list_all_iff)
qed (simp add: gpu_temp_def)

definition hot_tree :: FileTree where
  "hot_tree = \<lparr>ft_exists = (\<lambda>p. True),
     ft_read = (\<lambda>p. if p = ''a'' then Some (show_nat 41000 @ [CHR 0x0A])
                    else if p = ''b'' then Some (show_nat 52000 @ [CHR 0x0A]) else None),
     ft_list = (\<lambda>p. None)\<rparr>"

definition hot_paths :: DiscoveredPaths where
  "hot_paths = \<lparr>dp_gpu_clock = None, dp_gpu_load = None,
     dp_temp_zones = [(''GPU-therm'', ''a''), (''gpu1'', ''b''), (''CPU'', ''c'')], dp_power_rails = []\<rparr>"

theorem gpu_temp_hottest_witness:
  "case gpu_temp hot_tree hot_paths of
     None \<Rightarrow> False
   | Some m \<Rightarrow> m = FFin 52 \<and> list_all (\<lambda>v. fle v m) (gpu_temps hot_tree hot_paths)"
proof -
  have "read_num hot_tree ''a'' = Some (fint 41000)" "read_num hot_tree ''b'' = Some (fint 52000)"
    using read_num_show [of hot_tree "''a''" 41000] read_num_show [of hot_tree "''b''" 52000]
    by (simp_all add: hot_tree_def)
  moreover have "filter (\<lambda>(t, p). str_contains ''gpu'' (to_ascii_lowercase t)) (dp_temp_zones hot_paths) =
      [(''GPU-therm'', ''a''), (''gpu1'', ''b'')]" by code_simp
  moreover have "lit F64 1000 = FFin 1000" "rnd F64 41 = FFin 41" "rnd F64 52 = FFin 52"
    using rnd_F64_int [of 1000] rnd_F64_int [of 41] rnd_F64_int [of 52] by (simp_all add: lit_def)
  ultimately have t: "gpu_temps hot_tree hot_paths = [FFin 41, FFin 52]"
    by (simp add: gpu_temps_def List.map_filter_def fint_def fdiv_def rnd_sign_def)
  then have "gpu_temp hot_tree hot_paths = Some (FFin 52)" by (simp add: gpu_temp_def fmax_def)
  then show ?thesis using gpu_temp_hottest [of hot_tree hot_paths] t by simp
qed

end
