(* ===== verification/Agent_Main.thy ===== *)
theory Agent_Main
  imports Uploader Synthetic Tegra Replay
begin

text \<open>
  How an agent is put together: the stand-alone agent (\<^verbatim>\<open>crates/perfweave-agent/src/main.rs\<close> and
  \<^verbatim>\<open>config.rs\<close>) and the agent inside \<^verbatim>\<open>perfweave start\<close> (\<^verbatim>\<open>crates/perfweave-cli/src/local_agent.rs\<close>). The
  model is what either one starts: the samplers, the uploader's configuration and the RPC server.
  The features of the build, the environment and the NVML library are arguments; that a stale
  socket file is removed before the receiver starts is left out. The lemmas compare the two agents.
\<close>

section \<open>Surroundings\<close>

text \<open>The configuration switches of the compiler.\<close>

record Build =
  bl_linux :: bool
  bl_unix :: bool
  bl_nvml :: bool
  bl_dcgm :: bool

text \<open>
  \<open>ho_nvml\<close> is \<open>None\<close> when the library cannot be initialised and \<open>Some None\<close> when it cannot count
  its devices; \<open>ho_hostname\<close> is the output of the \<^verbatim>\<open>hostname\<close> program if there is one and it is text.
\<close>

record Host =
  ho_var :: "string \<Rightarrow> string option"
  ho_files :: FileTree
  ho_nvml :: "u32 option option"
  ho_hostname :: "string option"

definition ho_is_tegra :: "Host \<Rightarrow> bool" where
  "ho_is_tegra host = is_tegra (ho_var host ''PERFWEAVE_FORCE_TEGRA'' \<noteq> None) (ho_files host)"

record DcgmSampler =
  dg_node_id :: u32
  dg_metric_hz :: u32

record CuptiReceiver =
  cr_socket_path :: string

datatype AnySampler =
  Sampler_Synthetic SyntheticSampler
  | Sampler_Tegra TegraSampler
  | Sampler_Nvml NvmlSampler
  | Sampler_Dcgm DcgmSampler
  | Sampler_Cupti CuptiReceiver

definition cupti_socket :: "Host \<Rightarrow> string" where
  "cupti_socket host =
     (case ho_var host ''PERFWEAVE_CUPTI_SOCK'' of Some p \<Rightarrow> p | None \<Rightarrow> ''/tmp/perfweave.cupti.sock'')"

definition non_empty :: "string option \<Rightarrow> string option" where
  "non_empty s = (if s = Some [] then None else s)"

section \<open>The stand-alone agent\<close>

record AgentConfig =
  ac_collector :: string
  ac_metric_hz :: u32
  ac_synthetic :: bool
  ac_synthetic_burst :: bool
  ac_synthetic_gpus :: u32
  ac_node_id :: u32
  ac_hostname :: "string option"
  ac_ring_capacity :: nat
  ac_rpc_listen :: string

text \<open>The configuration without any argument.\<close>

definition agent_config_default :: "(string \<Rightarrow> string option) \<Rightarrow> AgentConfig" where
  "agent_config_default var =
     \<lparr>ac_collector = (case var ''PERFWEAVE_COLLECTOR'' of
         Some u \<Rightarrow> u | None \<Rightarrow> ''http://127.0.0.1:'' @ show_nat COLLECTOR_GRPC),
      ac_metric_hz = 1, ac_synthetic = False, ac_synthetic_burst = False, ac_synthetic_gpus = 1,
      ac_node_id = 0, ac_hostname = var ''PERFWEAVE_HOSTNAME'', ac_ring_capacity = 1048576,
      ac_rpc_listen = ''127.0.0.1:7780''\<rparr>"

definition agent_real_samplers :: "Build \<Rightarrow> Host \<Rightarrow> AgentConfig \<Rightarrow> AnySampler list" where
  "agent_real_samplers b host cfg =
     (if bl_linux b \<and> ho_is_tegra host
      then [Sampler_Tegra \<lparr>tg_node_id = ac_node_id cfg, tg_metric_hz = ac_metric_hz cfg\<rparr>]
      else (if bl_nvml b
            then [Sampler_Nvml \<lparr>nv_node_id = ac_node_id cfg, nv_metric_hz = ac_metric_hz cfg\<rparr>] else [])
         @ (if bl_dcgm b
            then [Sampler_Dcgm \<lparr>dg_node_id = ac_node_id cfg, dg_metric_hz = ac_metric_hz cfg\<rparr>] else [])
         @ (if bl_unix b then [Sampler_Cupti \<lparr>cr_socket_path = cupti_socket host\<rparr>] else []))"

definition detect_gpu_count :: "Build \<Rightarrow> Host \<Rightarrow> u32" where
  "detect_gpu_count b host =
     (if bl_nvml b then (case ho_nvml host of Some (Some n) \<Rightarrow> n | _ \<Rightarrow> 0) else 0)"

definition agent_hostname :: "Host \<Rightarrow> string option" where
  "agent_hostname host =
     non_empty (case ho_var host ''HOSTNAME'' of
       Some s \<Rightarrow> Some s | None \<Rightarrow> map_option trim (ho_hostname host))"

text \<open>
  What the agent starts: the capacity of its ring, the samplers, the uploader, and the RPC
  server with its address and its mode.
\<close>

record 'a Startup =
  su_ring_capacity :: nat
  su_samplers :: "AnySampler list"
  su_uploader :: UploaderConfig
  su_rpc :: "('a \<times> bool) option"

definition agent_rpc_addr :: "string \<Rightarrow> string" where
  "agent_rpc_addr rpc_listen = (if rpc_listen = [] then [] else ''http://'' @ rpc_listen)"

text \<open>\<open>parse_addr\<close> parses a socket address; an address it refuses ends the agent with the error.\<close>

definition agent_main ::
  "(string \<Rightarrow> 'e + 'a) \<Rightarrow> Build \<Rightarrow> Host \<Rightarrow> AgentConfig \<Rightarrow> 'e + 'a Startup" where
  "agent_main parse_addr b host cfg =
     (let hostname = (case ac_hostname cfg of
            Some h \<Rightarrow> h
          | None \<Rightarrow> (case agent_hostname host of Some h \<Rightarrow> h | None \<Rightarrow> ''unknown''));
          samplers = (if ac_synthetic cfg
            then [Sampler_Synthetic
                   \<lparr>sy_num_gpus = ac_synthetic_gpus cfg, sy_metric_hz = ac_metric_hz cfg,
                    sy_node_id = ac_node_id cfg, sy_seed = 0xC0FFEE, sy_burst = ac_synthetic_burst cfg\<rparr>]
            else agent_real_samplers b host cfg);
          num_gpus = (if ac_synthetic cfg then ac_synthetic_gpus cfg else detect_gpu_count b host);
          uploader = \<lparr>uc_collector_url = ac_collector cfg, uc_hostname = hostname, uc_node_id = ac_node_id cfg,
            uc_num_gpus = num_gpus, uc_max_batch_events = 20000, uc_flush_interval_ms = 250,
            uc_agent_rpc_addr = agent_rpc_addr (ac_rpc_listen cfg)\<rparr>
      in if ac_rpc_listen cfg \<noteq> [] then
           (case parse_addr (ac_rpc_listen cfg) of
              Inl e \<Rightarrow> Inl e
            | Inr addr \<Rightarrow> Inr \<lparr>su_ring_capacity = ac_ring_capacity cfg, su_samplers = samplers,
                              su_uploader = uploader, su_rpc = Some (addr, ac_synthetic cfg)\<rparr>)
         else Inr \<lparr>su_ring_capacity = ac_ring_capacity cfg, su_samplers = samplers,
                   su_uploader = uploader, su_rpc = None\<rparr>)"

section \<open>The agent inside the command\<close>

record Opts =
  op_collector_url :: string
  op_synthetic :: bool
  op_synthetic_gpus :: u32

definition local_real_samplers :: "Build \<Rightarrow> Host \<Rightarrow> AnySampler list" where
  "local_real_samplers b host =
     (if bl_linux b \<and> ho_is_tegra host then [Sampler_Tegra \<lparr>tg_node_id = 0, tg_metric_hz = 1\<rparr>]
      else if bl_nvml b then [Sampler_Nvml \<lparr>nv_node_id = 0, nv_metric_hz = 1\<rparr>] else [])"

definition has_real_gpu :: "Build \<Rightarrow> Host \<Rightarrow> bool" where
  "has_real_gpu b host = (bl_nvml b \<and> (case ho_nvml host of Some (Some c) \<Rightarrow> 0 < c | _ \<Rightarrow> False))"

definition gpu_count :: "Build \<Rightarrow> Host \<Rightarrow> u32" where
  "gpu_count b host = (if bl_nvml b then (case ho_nvml host of Some (Some c) \<Rightarrow> c | _ \<Rightarrow> 0) else 0)"

definition local_hostname :: "Host \<Rightarrow> string option" where
  "local_hostname host =
     (case non_empty (ho_var host ''HOSTNAME'') of
        Some s \<Rightarrow> Some s
      | None \<Rightarrow> non_empty (map_option trim (ho_hostname host)))"

definition local_agent_run :: "Build \<Rightarrow> Host \<Rightarrow> Opts \<Rightarrow> 'a Startup" where
  "local_agent_run b host opts =
     (let synthetic = op_synthetic opts \<or> \<not> has_real_gpu b host;
          samplers = (if synthetic
            then [Sampler_Synthetic
                   \<lparr>sy_num_gpus = max (op_synthetic_gpus opts) 1, sy_metric_hz = 1, sy_node_id = 0,
                    sy_seed = 0xC0FFEE, sy_burst = True\<rparr>]
            else local_real_samplers b host);
          num_gpus = (if synthetic then max (op_synthetic_gpus opts) 1 else gpu_count b host);
          cupti = (if bl_unix b then [Sampler_Cupti \<lparr>cr_socket_path = cupti_socket host\<rparr>] else [])
      in \<lparr>su_ring_capacity = 1048576, su_samplers = samplers @ cupti,
          su_uploader = \<lparr>uc_collector_url = op_collector_url opts,
            uc_hostname = (case local_hostname host of Some h \<Rightarrow> h | None \<Rightarrow> ''local''), uc_node_id = 0,
            uc_num_gpus = num_gpus, uc_max_batch_events = 20000, uc_flush_interval_ms = 250,
            uc_agent_rpc_addr = []\<rparr>,
          su_rpc = None\<rparr>)"

section \<open>Properties\<close>

definition is_cupti :: "AnySampler \<Rightarrow> bool" where
  "is_cupti s = (case s of Sampler_Cupti _ \<Rightarrow> True | _ \<Rightarrow> False)"

definition synthetic_gpus :: "AnySampler \<Rightarrow> u32 option" where
  "synthetic_gpus s = (case s of Sampler_Synthetic y \<Rightarrow> Some (sy_num_gpus y) | _ \<Rightarrow> None)"

text \<open>
  How many GPUs a sampler reports on, with the ids from 0: the synthetic one as many as it is told, the NVML sampler
  as many as the library counts, the one for Tegra boards a single one. It is \<open>None\<close> for a sampler that
  does not get that far, and for those that take the ids from elsewhere.
\<close>

definition sampled_gpus :: "Host \<Rightarrow> AnySampler \<Rightarrow> u32 option" where
  "sampled_gpus host s =
     (case s of
        Sampler_Synthetic y \<Rightarrow> Some (sy_num_gpus y)
      | Sampler_Nvml _ \<Rightarrow> (case ho_nvml host of Some (Some n) \<Rightarrow> Some n | _ \<Rightarrow> None)
      | Sampler_Tegra _ \<Rightarrow> Some 1
      | _ \<Rightarrow> None)"

definition on_tegra :: "Build \<Rightarrow> Host \<Rightarrow> AgentConfig \<Rightarrow> bool" where
  "on_tegra b host cfg \<longleftrightarrow> \<not> ac_synthetic cfg \<and> bl_linux b \<and> ho_is_tegra host"

text \<open>
  C34: What the stand-alone agent announces and what it starts. It announces an RPC address exactly when it
  starts an RPC server, at the address given to it. Off Tegra boards the GPU count that it announces is that of every sampler
  that has one of its own. On a Tegra board it samples one GPU but announces the count of NVML, which is 0 when
  NVML is missing, as on such boards it usually is. The host name is the one of the configuration, else
  the variable \<^verbatim>\<open>HOSTNAME\<close>, else the output of \<^verbatim>\<open>hostname\<close>, and \<^verbatim>\<open>unknown\<close> when the first of these that there is, is empty.
  On a Unix build it listens for the CUPTI injector in every mode but two: with synthetic data and on a
  Tegra board, where a program run under the injector is not seen.
\<close>

theorem agent_announces_what_it_runs:
  assumes "agent_main parse_addr b host cfg = Inr su"
  shows "(uc_agent_rpc_addr (su_uploader su) = [] \<longleftrightarrow> su_rpc su = None)
    \<and> (\<forall>addr syn. su_rpc su = Some (addr, syn) \<longrightarrow>
         uc_agent_rpc_addr (su_uploader su) = ''http://'' @ ac_rpc_listen cfg
         \<and> parse_addr (ac_rpc_listen cfg) = Inr addr \<and> (syn \<longleftrightarrow> ac_synthetic cfg))
    \<and> (\<not> on_tegra b host cfg \<longrightarrow>
         list_all (\<lambda>s. sampled_gpus host s \<in> {None, Some (uc_num_gpus (su_uploader su))}) (su_samplers su))
    \<and> (on_tegra b host cfg \<longrightarrow> map (sampled_gpus host) (su_samplers su) = [Some 1]
         \<and> uc_num_gpus (su_uploader su) = (if bl_nvml b then (case ho_nvml host of Some (Some n) \<Rightarrow> n | _ \<Rightarrow> 0) else 0))
    \<and> uc_hostname (su_uploader su) =
        (case ac_hostname cfg of
           Some h \<Rightarrow> h
         | None \<Rightarrow> (let name = (case ho_var host ''HOSTNAME'' of
                         Some h \<Rightarrow> h
                       | None \<Rightarrow> (case ho_hostname host of Some out \<Rightarrow> trim out | None \<Rightarrow> []))
                   in if name = [] then ''unknown'' else name))
    \<and> (list_ex is_cupti (su_samplers su) \<longleftrightarrow>
         bl_unix b \<and> \<not> ac_synthetic cfg \<and> \<not> (bl_linux b \<and> ho_is_tegra host))"
proof (intro conjI)
  note d = assms [unfolded agent_main_def Let_def]
  show "uc_agent_rpc_addr (su_uploader su) = [] \<longleftrightarrow> su_rpc su = None"
    "\<forall>addr syn. su_rpc su = Some (addr, syn) \<longrightarrow>
         uc_agent_rpc_addr (su_uploader su) = ''http://'' @ ac_rpc_listen cfg
         \<and> parse_addr (ac_rpc_listen cfg) = Inr addr \<and> (syn \<longleftrightarrow> ac_synthetic cfg)"
    using d by (auto simp: agent_rpc_addr_def split: if_splits sum.splits)
  have s: "su_samplers su = (if ac_synthetic cfg
            then [Sampler_Synthetic
                   \<lparr>sy_num_gpus = ac_synthetic_gpus cfg, sy_metric_hz = ac_metric_hz cfg,
                    sy_node_id = ac_node_id cfg, sy_seed = 0xC0FFEE, sy_burst = ac_synthetic_burst cfg\<rparr>]
            else agent_real_samplers b host cfg)"
    and n: "uc_num_gpus (su_uploader su) = (if ac_synthetic cfg then ac_synthetic_gpus cfg else detect_gpu_count b host)"
    and h: "uc_hostname (su_uploader su) = (case ac_hostname cfg of Some h \<Rightarrow> h
          | None \<Rightarrow> (case agent_hostname host of Some h \<Rightarrow> h | None \<Rightarrow> ''unknown''))"
    using d by (auto split: if_splits sum.splits)
  show "\<not> on_tegra b host cfg \<longrightarrow>
         list_all (\<lambda>s. sampled_gpus host s \<in> {None, Some (uc_num_gpus (su_uploader su))}) (su_samplers su)"
    unfolding s n
    by (auto simp: sampled_gpus_def agent_real_samplers_def on_tegra_def detect_gpu_count_def split: option.splits)
  show "on_tegra b host cfg \<longrightarrow> map (sampled_gpus host) (su_samplers su) = [Some 1]
         \<and> uc_num_gpus (su_uploader su) = (if bl_nvml b then (case ho_nvml host of Some (Some n) \<Rightarrow> n | _ \<Rightarrow> 0) else 0)"
    unfolding s n by (simp add: sampled_gpus_def agent_real_samplers_def on_tegra_def detect_gpu_count_def)
  show "uc_hostname (su_uploader su) =
        (case ac_hostname cfg of
           Some h \<Rightarrow> h
         | None \<Rightarrow> (let name = (case ho_var host ''HOSTNAME'' of
                         Some h \<Rightarrow> h
                       | None \<Rightarrow> (case ho_hostname host of Some out \<Rightarrow> trim out | None \<Rightarrow> []))
                   in if name = [] then ''unknown'' else name))"
    unfolding h by (auto simp: agent_hostname_def non_empty_def Let_def split: option.splits)
  show "list_ex is_cupti (su_samplers su) \<longleftrightarrow>
         bl_unix b \<and> \<not> ac_synthetic cfg \<and> \<not> (bl_linux b \<and> ho_is_tegra host)"
    unfolding s by (simp add: is_cupti_def agent_real_samplers_def)
qed

text \<open>A board: no environment, no NVML, the kernel names the model.\<close>

definition board :: Host where
  "board = \<lparr>ho_var = (\<lambda>v. None),
     ho_files = \<lparr>ft_exists = (\<lambda>p. False),
       ft_read = (\<lambda>p. if p = ''/proc/device-tree/model'' then Some ''NVIDIA Orin'' else None),
       ft_list = (\<lambda>p. None)\<rparr>,
     ho_nvml = None, ho_hostname = Some ''orin ''\<rparr>"

definition plain_build :: Build where
  "plain_build = \<lparr>bl_linux = True, bl_unix = True, bl_nvml = False, bl_dcgm = False\<rparr>"

lemma board_is_tegra: "ho_is_tegra board"
  by code_simp

theorem agent_announces_what_it_runs_witness:
  "\<exists>su :: string Startup. agent_main Inr plain_build board (agent_config_default (ho_var board)) = (Inr su :: unit + _)
     \<and> uc_agent_rpc_addr (su_uploader su) = ''http://127.0.0.1:7780'' \<and> \<not> list_ex is_cupti (su_samplers su)
     \<and> uc_num_gpus (su_uploader su) = 0 \<and> map (sampled_gpus board) (su_samplers su) = [Some 1]"
proof -
  let ?cfg = "agent_config_default (ho_var board)"
  have c: "ac_rpc_listen ?cfg = ''127.0.0.1:7780''" by (simp add: agent_config_default_def)
  then obtain su :: "string Startup" where su: "agent_main Inr plain_build board ?cfg = (Inr su :: unit + _)" "su_rpc su \<noteq> None"
    by (simp add: agent_main_def Let_def)
  note t = agent_announces_what_it_runs [OF su(1)]
  from t su(2) have "uc_agent_rpc_addr (su_uploader su) = ''http://127.0.0.1:7780''" unfolding c by force
  moreover have "on_tegra plain_build board ?cfg"
    by (simp add: on_tegra_def plain_build_def board_is_tegra agent_config_default_def)
  moreover from this have "\<not> list_ex is_cupti (su_samplers su)" using t by (auto simp: on_tegra_def)
  ultimately show ?thesis using t su(1) by (auto simp: plain_build_def)
qed

text \<open>
  The agent inside \<^verbatim>\<open>perfweave start\<close> against the stand-alone one. It listens for the CUPTI
  injector on every Unix build and announces the GPUs it simulates; but it runs on synthetic
  data, bursts included, whenever NVML shows no GPU, even on a Tegra board that the stand-alone agent
  samples; and it announces no RPC address, so after its registration every request to
  profile kernels of its node is refused before any call.
\<close>

theorem local_agent_is_not_at_parity:
  fixes b host opts
  defines "su \<equiv> local_agent_run b host opts :: unit Startup"
  shows "(list_ex is_cupti (su_samplers su) \<longleftrightarrow> bl_unix b)
    \<and> list_all (\<lambda>s. synthetic_gpus s \<in> {None, Some (uc_num_gpus (su_uploader su))}) (su_samplers su)
    \<and> (\<not> has_real_gpu b host \<longrightarrow>
         (\<exists>y rest. su_samplers su = Sampler_Synthetic y # rest \<and> sy_burst y \<and> list_all is_cupti rest)
         \<and> (bl_linux b \<and> ho_is_tegra host \<and> \<not> ac_synthetic cfg \<longrightarrow>
              agent_real_samplers b host cfg =
                [Sampler_Tegra \<lparr>tg_node_id = ac_node_id cfg, tg_metric_hz = ac_metric_hz cfg\<rparr>]))
    \<and> profile_kernels_rpc connect call
        (registry_register node (agent_hello version (su_uploader su)) reg) node req = Inl (NoRpcAddress node)"
proof -
  have "su_samplers su =
     (if op_synthetic opts \<or> \<not> has_real_gpu b host
      then [Sampler_Synthetic \<lparr>sy_num_gpus = max (op_synthetic_gpus opts) 1, sy_metric_hz = 1, sy_node_id = 0,
              sy_seed = 0xC0FFEE, sy_burst = True\<rparr>]
      else local_real_samplers b host)
     @ (if bl_unix b then [Sampler_Cupti \<lparr>cr_socket_path = cupti_socket host\<rparr>] else [])"
    and "uc_num_gpus (su_uploader su) =
      (if op_synthetic opts \<or> \<not> has_real_gpu b host then max (op_synthetic_gpus opts) 1 else gpu_count b host)"
    and "uc_agent_rpc_addr (su_uploader su) = []"
    by (simp_all add: su_def local_agent_run_def Let_def)
  then show ?thesis
    by (auto simp: is_cupti_def synthetic_gpus_def local_real_samplers_def agent_real_samplers_def
        profile_kernels_rpc_def registry_register_def registry_get_def agent_hello_def split: if_splits)
qed

theorem local_agent_is_not_at_parity_witness:
  "\<exists>y rest. su_samplers (local_agent_run plain_build board
       \<lparr>op_collector_url = ''http://127.0.0.1:7778'', op_synthetic = False, op_synthetic_gpus = 2\<rparr> :: unit Startup)
     = Sampler_Synthetic y # rest \<and> sy_burst y"
proof -
  have "\<not> has_real_gpu plain_build board" by (simp add: has_real_gpu_def plain_build_def)
  with local_agent_is_not_at_parity [of plain_build board
      "\<lparr>op_collector_url = ''http://127.0.0.1:7778'', op_synthetic = False, op_synthetic_gpus = 2\<rparr>"]
  show ?thesis by blast
qed

end
