(* ===== verification/Doctor.thy ===== *)
theory Doctor
  imports Text
begin

text \<open>
  The environment checks, \<^verbatim>\<open>crates/perfweave-cli/src/doctor.rs\<close>. What the checks look at (the platform, the NVML
  library, the file system, the \<^verbatim>\<open>nsys\<close> program, the database) is a record of arguments. The
  lemmas show that each failure is printed with its fix and when the command fails.
\<close>

section \<open>Checks\<close>

record Check =
  ck_name :: string
  ck_status :: string
  ck_detail :: string
  ck_fix :: "string option"

record Report =
  rep_checks :: "Check list"
  rep_summary :: string

text \<open>
  \<open>env_nvml\<close> is \<open>None\<close> when the binary is built without NVML; otherwise the library's answer:
  the text of the initialisation error, of the error of the device count, or the count.
  \<open>env_nsys\<close> is the output of \<^verbatim>\<open>nsys --version\<close> if it ran successfully, \<open>env_clickhouse\<close> the error of the
  test query at a URL if it failed.
\<close>

record Environment =
  env_os :: string
  env_arch :: string
  env_nvml :: "(string + string + u32) option"
  env_exists :: "string \<Rightarrow> bool"
  env_nsys :: "string option"
  env_var :: "string \<Rightarrow> string option"
  env_clickhouse :: "string \<Rightarrow> string option"

definition check :: "string \<Rightarrow> string \<Rightarrow> string \<Rightarrow> string option \<Rightarrow> Check" where
  "check name status detail fix' = \<lparr>ck_name = name, ck_status = status, ck_detail = detail, ck_fix = fix'\<rparr>"

definition check_os :: "Environment \<Rightarrow> Check" where
  "check_os env =
     (if env_os env = ''linux'' then check ''os'' ''ok'' (''linux '' @ env_arch env) None
      else check ''os'' ''warn'' (env_os env @ '': CUPTI/DCGM unavailable; only synthetic mode will work'')
             (Some ''run on a Linux + CUDA 12+ host for real GPU telemetry''))"

definition check_nvml :: "Environment \<Rightarrow> Check" where
  "check_nvml env =
     (case env_nvml env of
        Some (Inr (Inr c)) \<Rightarrow> check ''nvml'' ''ok'' (show_nat (unat c) @ '' device(s) detected'') None
      | Some (Inr (Inl e)) \<Rightarrow> check ''nvml'' ''fail'' (''device_count: '' @ e)
          (Some ''update the NVIDIA driver; `nvidia-smi` should work'')
      | Some (Inl e) \<Rightarrow> check ''nvml'' ''fail'' (''init failed: '' @ e)
          (Some ''install the NVIDIA driver; libnvidia-ml.so.1 must be on the loader path'')
      | None \<Rightarrow> check ''nvml'' ''warn'' ''binary built without NVML feature''
          (Some ''rebuild with `cargo build --release --features nvml,cupti`''))"

definition check_paths :: "Environment \<Rightarrow> string \<Rightarrow> string list \<Rightarrow> Check \<Rightarrow> Check" where
  "check_paths env name candidates missing =
     (case find (env_exists env) candidates of
        Some p \<Rightarrow> check name ''ok'' (''found '' @ p) None
      | None \<Rightarrow> missing)"

definition check_cupti :: "Environment \<Rightarrow> Check" where
  "check_cupti env =
     check_paths env ''cupti''
       [''/usr/local/cuda/extras/CUPTI/lib64/libcupti.so'', ''/usr/local/cuda/lib64/libcupti.so'',
        ''/opt/cuda/extras/CUPTI/lib64/libcupti.so'']
       (check ''cupti'' ''warn'' ''libcupti.so not found in standard locations''
          (Some ''install CUDA Toolkit 12.x; CUPTI ships under $CUDA/extras/CUPTI''))"

definition check_dcgm :: "Environment \<Rightarrow> Check" where
  "check_dcgm env =
     check_paths env ''dcgm''
       [''/usr/lib/x86_64-linux-gnu/libdcgm.so.3'', ''/usr/lib64/libdcgm.so.3'', ''/usr/local/lib/libdcgm.so.3'']
       (check ''dcgm'' ''warn'' ''libdcgm.so.3 not found (optional; profiling metrics will be absent)''
          (Some ''install datacenter-gpu-manager (`apt install datacenter-gpu-manager`)''))"

definition check_nsys :: "Environment \<Rightarrow> Check" where
  "check_nsys env =
     (case env_nsys env of
        Some out \<Rightarrow> check ''nsys'' ''ok'' (trim out) None
      | None \<Rightarrow> check ''nsys'' ''warn'' ''`nsys` not on PATH (offline import disabled)''
          (Some ''install Nsight Systems 2024.x or newer; add nsys to PATH''))"

definition clickhouse_url :: "Environment \<Rightarrow> string" where
  "clickhouse_url env =
     (case env_var env ''PERFWEAVE_CH_URL'' of Some u \<Rightarrow> u | None \<Rightarrow> ''http://127.0.0.1:8123'')"

definition check_clickhouse :: "Environment \<Rightarrow> Check" where
  "check_clickhouse env =
     (let url = clickhouse_url env in
      case env_clickhouse env url of
        None \<Rightarrow> check ''clickhouse'' ''ok'' url None
      | Some e \<Rightarrow> check ''clickhouse'' ''fail'' (url @ '': '' @ e)
          (Some ''start ClickHouse: docker run -d -p 8123:8123 -p 9000:9000 clickhouse/clickhouse-server:24.8''))"

section \<open>The command\<close>

definition doctor_checks :: "Environment \<Rightarrow> Check list" where
  "doctor_checks env =
     [check_os env, check_nvml env, check_cupti env, check_dcgm env, check_nsys env, check_clickhouse env]"

definition doctor_failed :: "Check list \<Rightarrow> bool" where
  "doctor_failed checks = list_ex (\<lambda>c. ck_status c = ''fail'') checks"

definition doctor_report :: "Check list \<Rightarrow> Report" where
  "doctor_report checks =
     \<lparr>rep_checks = checks,
      rep_summary = (if doctor_failed checks then ''some checks failed; see fixes above'' else ''ready'')\<rparr>"

definition status_tag :: "string \<Rightarrow> string" where
  "status_tag status = (if status = ''ok'' then ''OK '' else if status = ''warn'' then ''WARN'' else ''FAIL'')"

text \<open>The format \<^verbatim>\<open>{:<14}\<close>.\<close>

definition pad_right :: "nat \<Rightarrow> string \<Rightarrow> string" where
  "pad_right n s = s @ replicate (n - length s) CHR '' ''"

definition fix_line :: "string \<Rightarrow> string" where
  "fix_line f = ''       fix: '' @ f"

definition check_lines :: "Check \<Rightarrow> string list" where
  "check_lines c =
     (''['' @ status_tag (ck_status c) @ ''] '' @ pad_right 14 (ck_name c) @ '' '' @ ck_detail c)
     # (case ck_fix c of
          Some f \<Rightarrow> if ck_status c \<noteq> ''ok'' then [fix_line f] else []
        | None \<Rightarrow> [])"

definition report_lines :: "Report \<Rightarrow> string list" where
  "report_lines r = concat (map check_lines (rep_checks r)) @ [[], ''summary: '' @ rep_summary r]"

text \<open>
  The printed lines and the exit status. The serialiser is an argument; when it fails the
  command returns its error, which is exit status 1 as well.
\<close>

definition doctor_run :: "(Report \<Rightarrow> string list option) \<Rightarrow> Environment \<Rightarrow> bool \<Rightarrow> string list \<times> nat" where
  "doctor_run to_json env json =
     (let checks = doctor_checks env; failed = doctor_failed checks; report = doctor_report checks in
      if json then
        (case to_json report of
           None \<Rightarrow> ([], 1)
         | Some ls \<Rightarrow> (ls, if failed then 1 else 0))
      else (report_lines report, if failed then 1 else 0))"

section \<open>Properties\<close>

lemma check_sel [simp]:
  "ck_name (check n s d f) = n" "ck_status (check n s d f) = s" "ck_detail (check n s d f) = d"
  "ck_fix (check n s d f) = f"
  by (simp_all add: check_def)

lemmas check_defs = check_os_def check_nvml_def check_paths_def check_cupti_def check_dcgm_def check_nsys_def
  check_clickhouse_def Let_def

definition sound_check :: "Check \<Rightarrow> bool" where
  "sound_check c \<longleftrightarrow> ck_status c \<in> {''ok'', ''warn'', ''fail''} \<and> (ck_status c \<noteq> ''ok'' \<longrightarrow> ck_fix c \<noteq> None)"

lemma sound_checks [simp]:
  "sound_check (check_os env)" "sound_check (check_nvml env)" "sound_check (check_nsys env)"
  "sound_check (check_clickhouse env)" "sound_check (check_cupti env)" "sound_check (check_dcgm env)"
  by (simp_all add: sound_check_def check_defs split: option.split sum.split)

lemma sound_check_lines:
  assumes "sound_check c"
  shows "\<exists>l. status_tag (ck_status c) \<in> {''OK '', ''WARN'', ''FAIL''}
    \<and> l = ''['' @ status_tag (ck_status c) @ ''] '' @ pad_right 14 (ck_name c) @ '' '' @ ck_detail c
    \<and> (if ck_status c = ''ok'' then check_lines c = [l]
       else \<exists>f. ck_fix c = Some f \<and> check_lines c = [l, fix_line f])"
  using assms by (cases "ck_fix c") (simp_all add: sound_check_def check_lines_def status_tag_def)

lemma failed_iff:
  "doctor_failed (doctor_checks env) \<longleftrightarrow>
     (\<exists>e. env_nvml env = Some (Inl e)) \<or> (\<exists>e. env_nvml env = Some (Inr (Inl e)))
     \<or> (\<exists>e. env_clickhouse env (clickhouse_url env) = Some e)"
  by (auto simp: doctor_failed_def doctor_checks_def check_defs split: option.splits sum.splits)

text \<open>
  The doctor's contract: it exits with 1 exactly when the NVML library is there and broken or the
  database does not answer (a missing optional part only warns); every check it makes is
  printed as one of \<^verbatim>\<open>OK\<close>, \<^verbatim>\<open>WARN\<close> and \<^verbatim>\<open>FAIL\<close>, and each one that is not \<^verbatim>\<open>OK\<close> is followed at
  once by the line with its fix.
\<close>

theorem doctor_failures_have_fixes:
  "(snd (doctor_run to_json env False) = 1 \<longleftrightarrow>
      (\<exists>e. env_nvml env = Some (Inl e)) \<or> (\<exists>e. env_nvml env = Some (Inr (Inl e)))
      \<or> (\<exists>e. env_clickhouse env (clickhouse_url env) = Some e))
   \<and> (\<exists>blocks. fst (doctor_run to_json env False) = concat blocks @ [[], ''summary: '' @
          (if snd (doctor_run to_json env False) = 1 then ''some checks failed; see fixes above'' else ''ready'')]
      \<and> list_all2 (\<lambda>c b. \<exists>l. status_tag (ck_status c) \<in> {''OK '', ''WARN'', ''FAIL''}
            \<and> l = ''['' @ status_tag (ck_status c) @ ''] '' @ pad_right 14 (ck_name c) @ '' '' @ ck_detail c
            \<and> (if ck_status c = ''ok'' then b = [l] else \<exists>f. ck_fix c = Some f \<and> b = [l, fix_line f]))
          (doctor_checks env) blocks)"
proof -
  have blocks: "list_all2 (\<lambda>c b. \<exists>l. status_tag (ck_status c) \<in> {''OK '', ''WARN'', ''FAIL''}
            \<and> l = ''['' @ status_tag (ck_status c) @ ''] '' @ pad_right 14 (ck_name c) @ '' '' @ ck_detail c
            \<and> (if ck_status c = ''ok'' then b = [l] else \<exists>f. ck_fix c = Some f \<and> b = [l, fix_line f]))
          (doctor_checks env) (map check_lines (doctor_checks env))"
    unfolding list_all2_map2 by (intro list.rel_refl_strong sound_check_lines) (auto simp: doctor_checks_def)
  show ?thesis
    using failed_iff [of env] blocks
    by (intro conjI exI [of _ "map check_lines (doctor_checks env)"])
      (simp_all add: doctor_run_def Let_def doctor_report_def report_lines_def)
qed

end
