(* ===== verification/Clock_Robust.thy ===== *)
theory Clock_Robust
  imports Clock
begin

text \<open>
  Breakdown point and accuracy of the Theil-Sen fit in \<^verbatim>\<open>crates/perfweave-common/src/clock.rs\<close>: how
  many of the paired readings may be arbitrary before the fitted line moves, and how far off the
  map can be at times that \<^verbatim>\<open>f64\<close> cannot represent. The lemmas count the slopes between readings
  that are on the line, show that none of the floating-point comparisons of the two sorts meets a
  NaN, and bound the rounding of large integers.
\<close>

section \<open>Arithmetic on small integers\<close>

lemma fmul_fint_pos [fp_simps]:
  assumes "0 < a" "\<bar>a * b\<bar> < 2 ^ 53"
  shows "fmul F64 (fint a) (fint b) = fint (a * b)"
  using rnd_F64_fint [OF assms(2)] assms(1) by (auto simp: fmul_def rnd_sign_def fint_def)

lemma fdiv_fint_mult [fp_simps]:
  assumes "d \<noteq> 0" "0 < a" "\<bar>a\<bar> < 2 ^ 53"
  shows "fdiv F64 (fint (a * d)) (fint d) = fint a"
  using rnd_F64_fint [OF assms(3)] assms(1,2) by (auto simp: fdiv_def rnd_sign_def fint_def)

lemma rnd_neg_fin:
  assumes "r \<noteq> 0" "rnd f \<bar>r\<bar> = FFin v"
  shows "rnd f r = FFin (if r < 0 then - v else v)"
  using assms by (auto simp: rnd_def Let_def split: if_splits)

lemma of_int_fp_nonzero:
  assumes "n \<noteq> 0" "\<bar>n\<bar> \<le> 2 ^ 64"
  shows "\<exists>v. of_int_fp F64 n = FFin v"
proof -
  have "representable F64 1" "representable F64 18446744073709551616" by code_simp+
  moreover have "(of_int 1 :: rat) \<le> of_int \<bar>n\<bar>" "(of_int \<bar>n\<bar> :: rat) \<le> of_int (2 ^ 64)"
    unfolding of_int_le_iff using assms by simp_all
  ultimately obtain v where "rnd F64 \<bar>of_int n\<bar> = FFin v"
    using rnd_between [of 1 F64 18446744073709551616 "of_int \<bar>n\<bar>"] by auto
  then show ?thesis using rnd_neg_fin [of "of_int n" F64 v] assms(1) by (auto simp: of_int_fp_def)
qed

lemma of_int_fp_zero [simp]: "of_int_fp f 0 = FZero False"
  by (simp add: of_int_fp_def)

lemma rnd_not_nan [simp]: "rnd f r \<noteq> FNaN"
  by (auto simp: rnd_def Let_def)

lemma of_int_fp_fin: "\<bar>n\<bar> \<le> 2 ^ 64 \<Longrightarrow> is_fin (of_int_fp F64 n)"
  using of_int_fp_nonzero [of n] by (cases "n = 0") auto

lemma fdiv_not_nan: "is_fin x \<Longrightarrow> \<not> is_nan (fdiv f x (FFin v))"
  by (cases x) (auto simp: fdiv_def rnd_sign_def Let_def elim!: is_nan.elims)

lemma offset_not_nan: "is_fin h \<Longrightarrow> is_fin s \<Longrightarrow> \<not> is_nan (fsub F64 h (fmul F64 (fint a) s))"
proof -
  assume h: "is_fin h" "is_fin s"
  let ?p = "fmul F64 (fint a) s"
  have p: "\<not> is_nan ?p"
    using h(2) by (cases s) (auto simp: fmul_def fint_def rnd_sign_def Let_def elim!: is_nan.elims)
  show ?thesis using h(1) p by (cases h; cases ?p) (auto simp: fsub_def elim!: is_nan.elims)
qed

section \<open>Readings on a line\<close>

text \<open>The host time is \<open>a\<close> times the source time plus \<open>c\<close>, and both are below \<open>2 ^ 52\<close>.\<close>

definition on_line :: "int \<Rightarrow> int \<Rightarrow> Pair \<Rightarrow> bool" where
  "on_line a c p \<longleftrightarrow> uint (p_host_ns p) = a * uint (p_src_ns p) + c
     \<and> a * uint (p_src_ns p) < 2 ^ 52 \<and> uint (p_host_ns p) < 2 ^ 52"

lemma on_lineD:
  assumes "on_line a c p" "0 < a"
  shows "uint (p_host_ns p) = a * uint (p_src_ns p) + c" "a * uint (p_src_ns p) < 2 ^ 52"
    "uint (p_src_ns p) < 2 ^ 52" "a * uint (p_src_ns p) + c < 2 ^ 52" "0 \<le> a * uint (p_src_ns p) + c"
    "0 \<le> a * uint (p_src_ns p)" "\<bar>c\<bar> < 2 ^ 53"
proof -
  show e: "uint (p_host_ns p) = a * uint (p_src_ns p) + c" and l: "a * uint (p_src_ns p) < 2 ^ 52"
    using assms(1) by (simp_all add: on_line_def)
  show h: "a * uint (p_src_ns p) + c < 2 ^ 52" using assms(1) e unfolding on_line_def by metis
  show z: "0 \<le> a * uint (p_src_ns p) + c" using uint_ge_0 [of "p_host_ns p"] e by argo
  show n: "0 \<le> a * uint (p_src_ns p)" using assms(2) by simp
  have "1 * uint (p_src_ns p) \<le> a * uint (p_src_ns p)" using assms(2) by (intro mult_right_mono) simp_all
  with l show "uint (p_src_ns p) < 2 ^ 52" by simp
  have "(2 :: int) ^ 53 = 2 * 2 ^ 52" by simp
  then show "\<bar>c\<bar> < 2 ^ 53" using l h z n unfolding abs_less_iff by linarith
qed

lemma diff_bound: "0 \<le> x \<Longrightarrow> x < 2 ^ 52 \<Longrightarrow> 0 \<le> y \<Longrightarrow> y < 2 ^ 52 \<Longrightarrow> \<bar>x - y\<bar> < (2 :: int) ^ 53"
  by simp

lemma slope_on_line:
  assumes "on_line a c p" "on_line a c q" "0 < a" "a < 2 ^ 23" "p_src_ns p \<noteq> p_src_ns q"
  shows "slope_of p q = Some (fint a)"
proof -
  let ?d = "uint (p_src_ns q) - uint (p_src_ns p)"
  note p = on_lineD [OF assms(1,3)] and q = on_lineD [OF assms(2,3)]
  have d: "?d \<noteq> 0" using assms(5) by (simp add: word_uint_eq_iff)
  have h: "uint (p_host_ns q) - uint (p_host_ns p) = a * ?d" using p(1) q(1) by (simp add: algebra_simps)
  have "\<bar>?d\<bar> < 2 ^ 53" "\<bar>a * ?d\<bar> < 2 ^ 53"
    unfolding right_diff_distrib using p(2,3,6) q(2,3,6) by (blast intro: diff_bound uint_ge_0)+
  moreover have "\<bar>a\<bar> < 2 ^ 53" using assms(3,4) by simp
  ultimately show ?thesis using d assms(3) by (simp add: slope_of_def Let_def h of_int_fp_F64 fdiv_fint_mult)
qed

lemma offset_on_line:
  assumes "on_line a c p" "0 < a"
  shows "offset_under (fint a) p = fint c"
  using on_lineD [OF assms] uint_ge_0 [of "p_src_ns p"]
  by (simp add: offset_under_def of_int_fp_F64 fmul_fint_pos fsub_fint [where b = "a * _"] assms(2))

lemma residual_on_line:
  assumes "on_line a c p" "0 < a"
  shows "residual_of (fint a) (fint c) p = FZero False"
  using on_lineD [OF assms] uint_ge_0 [of "p_src_ns p"]
  by (simp add: residual_of_def Let_def of_int_fp_F64 fmul_fint_pos assms(2) fadd_fint fsub_fint fabs_fint add.commute)

lemma residual_max_on_line:
  "list_all (on_line a c) ps \<Longrightarrow> 0 < a \<Longrightarrow> residual_max (fint a) (fint c) ps (FZero False) = FZero False"
  by (induction ps) (simp_all add: residual_on_line Let_def)

section \<open>Counting\<close>

lemma slope_not_nan:
  assumes "slope_of p q = Some x"
  shows "\<not> is_nan x"
proof -
  let ?d = "uint (p_src_ns q) - uint (p_src_ns p)" and ?h = "uint (p_host_ns q) - uint (p_host_ns p)"
  have b: "\<bar>uint u - uint v\<bar> \<le> 2 ^ 64" for u v :: u64
    using uint_u64_less [of u] uint_u64_less [of v] uint_ge_0 [of u] uint_ge_0 [of v]
    unfolding abs_le_iff by linarith
  have "?d \<noteq> 0" and x: "x = fdiv F64 (of_int_fp F64 ?h) (of_int_fp F64 ?d)"
    using assms by (auto simp: slope_of_def Let_def split: if_splits)
  then obtain v where "of_int_fp F64 ?d = FFin v" using of_int_fp_nonzero b by blast
  then show ?thesis using fdiv_not_nan [OF of_int_fp_fin [OF b]] x by simp
qed

lemma length_map_filter_le: "length (List.map_filter f xs) \<le> length xs"
  by (induction xs) (auto simp: List.map_filter_simps split: option.splits)

lemma length_pair_slopes: "2 * length (pair_slopes ps) \<le> length ps * (length ps - 1)"
proof (induction ps)
  case (Cons p ps)
  have "Suc (length ps) * length ps = length ps * (length ps - 1) + 2 * length ps"
    by (cases "length ps") simp_all
  then show ?case using Cons length_map_filter_le [of "slope_of p" ps] by simp
qed simp

lemma slopes_from_one:
  assumes "on_line a c p" "0 < a" "a < 2 ^ 23"
    and "\<forall>q \<in> set (filter (on_line a c) ps). p_src_ns q \<noteq> p_src_ns p"
  shows "length (filter (on_line a c) ps) \<le> length (filter (\<lambda>x. x = fint a) (List.map_filter (slope_of p) ps))"
  using assms(4)
proof (induction ps)
  case (Cons q ps)
  show ?case
  proof (cases "on_line a c q")
    case True
    then have "slope_of p q = Some (fint a)" using Cons.prems by (intro slope_on_line [OF assms(1) _ assms(2,3)]) auto
    then show ?thesis using Cons True by (simp add: List.map_filter_simps)
  next
    case False
    then show ?thesis using Cons by (auto simp: List.map_filter_simps split: option.splits)
  qed
qed simp

lemma slopes_of_line:
  assumes "0 < a" "a < 2 ^ 23" "distinct (map p_src_ns (filter (on_line a c) ps))"
  defines "m \<equiv> length (filter (on_line a c) ps)"
  shows "m * (m - 1) \<le> 2 * length (filter (\<lambda>x. x = fint a) (pair_slopes ps))"
  using assms(3) unfolding m_def
proof (induction ps)
  case (Cons p ps)
  let ?m = "length (filter (on_line a c) ps)"
  have ih: "?m * (?m - 1) \<le> 2 * length (filter (\<lambda>x. x = fint a) (pair_slopes ps))"
    using Cons by (auto split: if_splits)
  show ?case
  proof (cases "on_line a c p")
    case True
    then have "?m \<le> length (filter (\<lambda>x. x = fint a) (List.map_filter (slope_of p) ps))"
      using Cons.prems by (intro slopes_from_one [OF _ assms(1,2)]) (auto simp: image_iff)
    moreover have "Suc ?m * ?m = ?m * (?m - 1) + 2 * ?m" by (cases ?m) simp_all
    ultimately show ?thesis using ih True by simp
  next
    case False
    then show ?thesis using ih by simp
  qed
qed simp

lemma majority_of_pairs:
  fixes n m :: nat
  assumes "m \<le> n" "n * (n - 1) < 2 * (m * (m - 1))"
  shows "n < 2 * m"
proof (rule ccontr)
  assume "\<not> n < 2 * m"
  then have "2 * m * (m - 1) \<le> n * (n - 1)" by (intro mult_le_mono) auto
  with assms(2) show False by (simp add: mult.assoc)
qed

section \<open>Property\<close>

lemma key_fint: "fkey x = (0, of_int n) \<Longrightarrow> n \<noteq> 0 \<Longrightarrow> x = fint n"
  by (cases x) (auto simp: fint_def split: if_splits)

lemma round_away_zero [simp]: "round_away 0 = 0"
  by (simp add: round_away_def floor_eq_iff)

lemma key_to_i128: "fkey x = (0, of_int n) \<Longrightarrow> \<bar>n\<bar> < 2 ^ 100 \<Longrightarrow> fp_to_i128 (fround x) = n"
  using key_fint [of x n] fround_fint [of n] fp_to_i128_fint [of n]
  by (cases "n = 0"; cases x) (auto simp: fp_to_i128_def fint_def Let_def split: if_splits)

lemma filter_eq_le: "(\<And>x. P x \<Longrightarrow> Q (f x)) \<Longrightarrow> length (filter P xs) \<le> length (filter Q (map f xs))"
  by (induction xs) auto

lemma line_fit:
  assumes "0 < a" "a < 2 ^ 23" "distinct (map p_src_ns (filter (on_line a c) ps))"
    and "length ps * (length ps - 1) <
      2 * (length (filter (on_line a c) ps) * (length (filter (on_line a c) ps) - 1))"
  shows "\<exists>r. fit_theil_sen now ps =
      Some \<lparr>clk_offset_ns = c, clk_slope_num = a * 2 ^ 30, clk_slope_den = 2 ^ 30,
            clk_residual_max_ns = r, clk_fitted_at_host_ns = now\<rparr>
    \<and> (list_all (on_line a c) ps \<longrightarrow> r = 0)"
proof -
  let ?good = "filter (on_line a c) ps" and ?slopes = "pair_slopes ps"
  let ?offs = "map (offset_under (fint a)) ps"
  have m: "length ?good \<le> length ps" by simp
  note maj = majority_of_pairs [OF m assms(4)]
  then obtain p where p: "p \<in> set ps" "on_line a c p"
    using hd_in_set [of ?good] by (cases "?good = []") auto
  have c: "\<bar>c\<bar> < 2 ^ 53" by (rule on_lineD(7) [OF p(2) assms(1)])
  have le: "length (filter (\<lambda>x. x = fint n) xs) \<le> length (filter (\<lambda>x. fkey x = (0, of_int n)) xs)" for n xs
    by (induction xs) auto
  have s: "length ?slopes < 2 * length (filter (\<lambda>x. fkey x = (0, of_int a)) ?slopes)"
    using length_pair_slopes [of ps] slopes_of_line [OF assms(1-3)] assms(4) le [of a ?slopes] by linarith
  moreover have "\<forall>x \<in> set ?slopes. \<not> is_nan x" using pair_slopes_from slope_not_nan by blast
  ultimately have slope: "upper_median ?slopes = fint a"
    using assms(1) by (intro key_fint upper_median_majority) simp_all
  have "is_fin (of_int_fp F64 (uint w))" for w :: u64
    using uint_u64_less [of w] by (intro of_int_fp_fin) simp
  then have "\<forall>x \<in> set ?offs. \<not> is_nan x" by (simp add: offset_under_def offset_not_nan)
  moreover have "length ?good \<le> length (filter (\<lambda>x. fkey x = (0, of_int c)) ?offs)"
    using assms(1) by (intro filter_eq_le) (simp add: offset_on_line)
  ultimately have off: "fkey (upper_median ?offs) = (0, of_int c)"
    using maj by (intro upper_median_majority) simp_all
  have num: "fp_to_i128 (fround (fmul F64 (fint a) (of_int_fp F64 1073741824))) = a * 1073741824"
    using assms(1,2) by (simp add: of_int_fp_F64 fmul_fint_pos fround_fint fp_to_i128_fint)
  have r0: "residual_max (fint a) (upper_median ?offs) ps (FZero False) = FZero False" if "list_all (on_line a c) ps"
  proof -
    have "upper_median ?offs = fint c"
      using that p(1) assms(1) by (intro upper_median_const) (auto simp: offset_on_line list_all_iff)
    then show ?thesis using residual_max_on_line [OF that assms(1)] by simp
  qed
  have "1 < length ?good" using assms(4) by (cases "length ?good - 1") auto
  then have "?slopes \<noteq> []" "\<not> length ps < 2" using s m by (auto simp del: length_filter_le)
  then show ?thesis
    using r0 key_to_i128 [OF off] c num
    by (simp add: fit_theil_sen_def Let_def slope fp_to_u64_def)
qed

text \<open>
  C7: The breakdown point of the clock fit. Whatever \<open>n\<close> paired readings are given, when \<open>m\<close> of them,
  at different source times, lie on a line \<open>host = a * src + c\<close> (with a whole slope below \<open>2 ^ 23\<close> and
  times below \<open>2 ^ 52\<close>) and \<open>n * (n - 1) < 2 * m * (m - 1)\<close>, that is, up to about 29 percent of the
  readings are arbitrary, the fit returns exactly that line; and when all readings are on it, the
  residual is zero.
\<close>

theorem fit_survives_outliers:
  assumes "0 < a" "a < 2 ^ 23" "distinct (map p_src_ns (filter (on_line a c) ps))"
    and "length ps * (length ps - 1) <
      2 * (length (filter (on_line a c) ps) * (length (filter (on_line a c) ps) - 1))"
  shows "\<exists>r. fit_theil_sen now ps =
      Some \<lparr>clk_offset_ns = c, clk_slope_num = a * 2 ^ 30, clk_slope_den = 2 ^ 30,
            clk_residual_max_ns = r, clk_fitted_at_host_ns = now\<rparr>
    \<and> (list_all (on_line a c) ps \<longrightarrow> r = 0)"
  using assms by (rule line_fit)

definition noisy_pairs :: "Pair list" where
  "noisy_pairs = [pair_at 0 10, pair_at 8 26, pair_at 16 42, pair_at 24 58, pair_at 32 1050]"

theorem fit_survives_outliers_witness:
  "\<exists>r. fit_theil_sen 9 noisy_pairs =
     Some \<lparr>clk_offset_ns = 10, clk_slope_num = 2 * 2 ^ 30, clk_slope_den = 2 ^ 30,
           clk_residual_max_ns = r, clk_fitted_at_host_ns = 9\<rparr>"
proof -
  have "filter (on_line 2 10) noisy_pairs = take 4 noisy_pairs"
    by (simp add: noisy_pairs_def on_line_def pair_at_def)
  with fit_survives_outliers [of 2 10 noisy_pairs 9] show ?thesis
    by (auto simp: noisy_pairs_def pair_at_def)
qed

section \<open>Epoch times\<close>

text \<open>
  Nanoseconds since the epoch are above \<open>2 ^ 60\<close>, where \<^verbatim>\<open>f64\<close> only has every 256th integer. A
  converted time is still an integer, and at most 128 off.
\<close>

lemma of_int_near_exp:
  assumes "\<bar>n\<bar> < 2 ^ e" "53 \<le> e" "e \<le> 64"
  shows "\<exists>k. of_int_fp F64 n = fint k \<and> 2 * \<bar>k - n\<bar> \<le> 2 ^ (e - 53)"
proof (cases "\<bar>n\<bar> < 2 ^ 53")
  case True
  then show ?thesis using of_int_fp_F64 by force
next
  case False
  let ?a = "rat_of_int \<bar>n\<bar>" and ?q = "ulp_exp F64 (rat_of_int \<bar>n\<bar>)"
  have n: "n \<noteq> 0" "0 < ?a" using False by auto
  have "(of_int (2 ^ 53) :: rat) \<le> ?a" "?a < of_int (2 ^ e)"
    unfolding of_int_le_iff of_int_less_iff using False assms by simp_all
  then have a: "p2 53 \<le> ?a" "?a < p2 (int e)" by (simp_all add: p2_nat)
  have "p2 53 < p2 (ilog2 ?a + 1)" using ilog2_bounds [OF n(2)] a(1) by (meson le_less_trans)
  then have q: "0 \<le> ?q" "?q \<le> int e - 53" using ilog2_less [OF n(2) a(2)] by (simp_all add: ulp_exp_def)
  have "(2 :: int) ^ e \<le> 2 ^ 64" using assms(3) by (intro power_increasing) simp_all
  then have "\<bar>n\<bar> \<le> 2 ^ 64" using assms(1) by linarith
  then obtain v where v: "rnd F64 (of_int n) = FFin v"
    using of_int_fp_nonzero [of n] n(1) by (auto simp: of_int_fp_def)
  then obtain m where m: "m \<noteq> 0" "v = of_int m * p2 ?q" by (auto elim: rnd_mantissa)
  let ?k = "m * 2 ^ nat ?q"
  have k: "v = of_int ?k" using m(2) p2_nat [OF q(1)] by simp
  have "\<bar>v - of_int n\<bar> \<le> p2 ?q / 2" using rnd_half_ulp [OF _ v] n(1) by simp
  also have "\<dots> \<le> p2 (int e - 53) / 2" using q(2) by simp
  also have "p2 (int e - 53) = of_int (2 ^ (e - 53))" using assms(2) by (simp add: p2_nat nat_diff_distrib)
  finally have "rat_of_int (2 * \<bar>?k - n\<bar>) \<le> of_int (2 ^ (e - 53))" unfolding k by simp
  then have "2 * \<bar>?k - n\<bar> \<le> 2 ^ (e - 53)" by (simp only: of_int_le_iff)
  then show ?thesis using v m(1) k by (intro exI [of _ ?k]) (auto simp: of_int_fp_def fint_def)
qed

lemma of_int_near: "\<bar>n\<bar> < 2 ^ 61 \<Longrightarrow> \<exists>k. of_int_fp F64 n = fint k \<and> \<bar>k - n\<bar> \<le> 128"
  using of_int_near_exp [of n 61] by auto

lemma fint_near: "\<bar>n\<bar> < 2 ^ 61 \<Longrightarrow> of_int_fp F64 n = fint k \<Longrightarrow> fmul F64 (FFin 1) (fint k) = fint k"
  using fp_ok_rnd [of F64 "of_int n"]
  by (auto simp: of_int_fp_def fmul_def rnd_sign_def fint_def representable_def split: if_splits)

lemma fsub_fint_far:
  assumes "\<bar>a - b\<bar> < 2 ^ 53" "fp_ok F64 (fint a)"
  shows "fsub F64 (fint a) (fint b) = fint (a - b)"
  using assms rnd_F64_fint [OF assms(1)]
  by (auto simp: fsub_def fint_def representable_def split: if_splits)

text \<open>A pair of times \<open>c\<close> apart in this range.\<close>

definition epoch_pair :: "int \<Rightarrow> Pair \<Rightarrow> bool" where
  "epoch_pair c p \<longleftrightarrow> uint (p_host_ns p) = uint (p_src_ns p) + c
     \<and> uint (p_src_ns p) < 2 ^ 61 \<and> uint (p_host_ns p) < 2 ^ 61"

text \<open>Its times as they are rounded, with slope one.\<close>

lemma epoch_rounded:
  assumes "epoch_pair c p"
  obtains h s where "of_int_fp F64 (uint (p_host_ns p)) = fint h" "\<bar>h - uint (p_host_ns p)\<bar> \<le> 128"
    "of_int_fp F64 (uint (p_src_ns p)) = fint s" "\<bar>s - uint (p_src_ns p)\<bar> \<le> 128"
    "fp_ok F64 (fint h)" "fmul F64 (FFin 1) (fint s) = fint s" "c = 0 \<Longrightarrow> h = s"
proof -
  have r: "\<bar>uint (p_host_ns p)\<bar> < 2 ^ 61" "\<bar>uint (p_src_ns p)\<bar> < 2 ^ 61"
    using assms uint_ge_0 [of "p_host_ns p"] unfolding epoch_pair_def by auto
  from of_int_near [OF r(1)] of_int_near [OF r(2)] obtain h s
    where h: "of_int_fp F64 (uint (p_host_ns p)) = fint h" "\<bar>h - uint (p_host_ns p)\<bar> \<le> 128"
      and s: "of_int_fp F64 (uint (p_src_ns p)) = fint s" "\<bar>s - uint (p_src_ns p)\<bar> \<le> 128"
    by blast
  have "fint h = fint s" if "c = 0" using assms that h(1) s(1) by (simp add: epoch_pair_def)
  then have "c = 0 \<Longrightarrow> h = s" by (metis fval_fint of_int_eq_iff)
  moreover have "fp_ok F64 (fint h)" by (metis fp_ok_rnd of_int_fp_def h(1))
  ultimately show ?thesis using that h s fint_near [OF r(2) s(1)] by blast
qed

lemma offset_near:
  assumes "epoch_pair c p" "\<bar>c\<bar> \<le> 2 ^ 52"
  shows "\<exists>k. offset_under (FFin 1) p = fint k \<and> \<bar>k - c\<bar> \<le> 256 \<and> (c = 0 \<longrightarrow> k = 0)"
  using assms(1)
proof (rule epoch_rounded)
  fix h s
  assume h: "of_int_fp F64 (uint (p_host_ns p)) = fint h" "\<bar>h - uint (p_host_ns p)\<bar> \<le> 128"
    and s: "of_int_fp F64 (uint (p_src_ns p)) = fint s" "\<bar>s - uint (p_src_ns p)\<bar> \<le> 128"
    and ok: "fp_ok F64 (fint h)" "fmul F64 (FFin 1) (fint s) = fint s" and z: "c = 0 \<Longrightarrow> h = s"
  have near: "\<bar>(h - s) - c\<bar> \<le> 256" using h(2) s(2) assms(1) unfolding epoch_pair_def by linarith
  then have "\<bar>h - s\<bar> < 2 ^ 53" using assms(2) by simp
  from fsub_fint_far [OF this ok(1)] show ?thesis
    using near ok(2) z by (auto simp: offset_under_def h(1) s(1))
qed

lemma fadd_fints: "fadd F64 (fint a) (fint b) = of_int_fp F64 (a + b)"
  using rnd_F64_fint [of 0] by (cases "a = 0"; cases "b = 0") (simp_all add: fint_def of_int_fp_def)

lemma of_int_ok: "fp_ok F64 (fint n) \<Longrightarrow> of_int_fp F64 n = fint n"
  using rnd_F64_fint [of 0] by (cases "n = 0") (simp_all add: fint_def of_int_fp_def representable_def)

text \<open>The rounding of the prediction adds another 256.\<close>

lemma residual_near:
  assumes "epoch_pair c p" "\<bar>c\<bar> \<le> 2 ^ 52" "\<bar>k - c\<bar> \<le> 256" "c = 0 \<longrightarrow> k = 0"
  shows "\<exists>r. residual_of (FFin 1) (fint k) p = fint r \<and> 0 \<le> r \<and> r \<le> 768 \<and> (c = 0 \<longrightarrow> r = 0)"
  using assms(1)
proof (rule epoch_rounded)
  fix h s
  assume h: "of_int_fp F64 (uint (p_host_ns p)) = fint h" "\<bar>h - uint (p_host_ns p)\<bar> \<le> 128"
    and s: "of_int_fp F64 (uint (p_src_ns p)) = fint s" "\<bar>s - uint (p_src_ns p)\<bar> \<le> 128"
    and ok: "fp_ok F64 (fint h)" "fmul F64 (FFin 1) (fint s) = fint s" and z: "c = 0 \<Longrightarrow> h = s"
  have e: "uint (p_host_ns p) = uint (p_src_ns p) + c" "uint (p_src_ns p) < 2 ^ 61" "0 \<le> uint (p_src_ns p)"
    using assms(1) by (simp_all add: epoch_pair_def)
  have "- 128 \<le> s" "s < 2 ^ 61 + 129" using e(2,3) s(2) by linarith+
  then have "\<bar>k + s\<bar> < 2 ^ 62" using assms(2,3) by simp
  then obtain j where j: "of_int_fp F64 (k + s) = fint j" "\<bar>j - (k + s)\<bar> \<le> 256"
    using of_int_near_exp [of "k + s" 62] by auto
  have "fint j = fint h" if "c = 0"
    using that assms(4) z of_int_ok [OF ok(1)] j(1) by simp
  then have "c = 0 \<Longrightarrow> j = h" by (metis fval_fint of_int_eq_iff)
  moreover have near: "\<bar>h - j\<bar> \<le> 768" using h(2) s(2) j(2) e(1) assms(3) by linarith
  then have "\<bar>h - j\<bar> < 2 ^ 53" by simp
  from fsub_fint_far [OF this ok(1)] have "residual_of (FFin 1) (fint k) p = fint \<bar>h - j\<bar>"
    by (simp add: residual_of_def h(1) s(1) ok(2) fadd_fints j(1) fabs_fint)
  ultimately show ?thesis using near by (intro exI [of _ "\<bar>h - j\<bar>"]) simp
qed

lemma residual_max_near:
  assumes "\<forall>p \<in> set ps. \<exists>r. residual_of s k p = fint r \<and> 0 \<le> r \<and> r \<le> b" "0 \<le> m" "m \<le> b"
  shows "\<exists>r. residual_max s k ps (fint m) = fint r \<and> 0 \<le> r \<and> r \<le> b"
  using assms
proof (induction ps arbitrary: m)
  case (Cons p ps)
  then obtain r where r: "residual_of s k p = fint r" "0 \<le> r" "r \<le> b" by auto
  then show ?case using Cons.IH [of r] Cons.IH [of m] Cons.prems by (simp add: Let_def)
qed auto

lemma slope_shifted_exact:
  assumes "uint (p_host_ns p) = uint (p_src_ns p) + c" "uint (p_host_ns q) = uint (p_src_ns q) + c"
    and "slope_of p q = Some x"
  shows "x = FFin 1"
proof -
  let ?d = "uint (p_src_ns q) - uint (p_src_ns p)"
  have d: "?d \<noteq> 0" and x: "x = fdiv F64 (of_int_fp F64 ?d) (of_int_fp F64 ?d)"
    using assms by (auto simp: slope_of_def Let_def split: if_splits)
  have "\<bar>?d\<bar> \<le> 2 ^ 64"
    using uint_u64_less [of "p_src_ns p"] uint_u64_less [of "p_src_ns q"]
      uint_ge_0 [of "p_src_ns p"] uint_ge_0 [of "p_src_ns q"] unfolding abs_le_iff by linarith
  then obtain v where v: "of_int_fp F64 ?d = FFin v" using of_int_fp_nonzero [OF d] by blast
  then have "v \<noteq> 0" using fp_ok_rnd [of F64 "of_int ?d"] by (auto simp: of_int_fp_def representable_def)
  then show ?thesis using rnd_F64_fint [of 1] by (simp add: x v fdiv_def rnd_sign_def fint_def)
qed

text \<open>The fit of such pairs: slope one, the offset within 256 of \<open>c\<close>, and exact when the clocks agree.\<close>

lemma epoch_fit:
  assumes "list_all (epoch_pair c) ps" "\<bar>c\<bar> \<le> 2 ^ 52" "p \<in> set ps" "q \<in> set ps" "p_src_ns p \<noteq> p_src_ns q"
  shows "\<exists>k r. fit_theil_sen now ps = Some \<lparr>clk_offset_ns = k, clk_slope_num = 2 ^ 30, clk_slope_den = 2 ^ 30,
        clk_residual_max_ns = word_of_int r, clk_fitted_at_host_ns = now\<rparr>
    \<and> \<bar>k - c\<bar> \<le> 256 \<and> 0 \<le> r \<and> r \<le> 768 \<and> (c = 0 \<longrightarrow> k = 0 \<and> r = 0)"
proof -
  let ?offs = "map (offset_under (FFin 1)) ps" and ?b = "if c = 0 then 0 else 768"
  have e: "epoch_pair c r" if "r \<in> set ps" for r using assms(1) that by (simp add: list_all_iff)
  have ne: "pair_slopes ps \<noteq> []" using assms(3-5) unfolding pair_slopes_Nil_iff by metis
  have "\<forall>x \<in> set (pair_slopes ps). x = FFin 1"
    using pair_slopes_from slope_shifted_exact e unfolding epoch_pair_def by metis
  then have slope: "upper_median (pair_slopes ps) = FFin 1" using ne by (rule upper_median_const [rotated])
  have "ps \<noteq> []" using assms(3) by auto
  then have "upper_median ?offs \<in> set ?offs" by (intro upper_median_in_set) simp
  then obtain r where "r \<in> set ps" "upper_median ?offs = offset_under (FFin 1) r" by auto
  then obtain k where k: "upper_median ?offs = fint k" "\<bar>k - c\<bar> \<le> 256" "c = 0 \<longrightarrow> k = 0"
    using offset_near [OF e assms(2), of r] by auto
  have "\<forall>p \<in> set ps. \<exists>r. residual_of (FFin 1) (fint k) p = fint r \<and> 0 \<le> r \<and> r \<le> ?b"
    using residual_near [OF e assms(2) k(2,3)] by (cases "c = 0") auto
  then obtain m where m: "residual_max (FFin 1) (fint k) ps (fint 0) = fint m" "0 \<le> m" "m \<le> ?b"
    using residual_max_near [of ps "FFin 1" "fint k" ?b 0] by (auto split: if_splits)
  have "length ps \<noteq> 1" using assms(3-5) by (auto simp: length_Suc_conv)
  then have l: "\<not> length ps < 2" using \<open>ps \<noteq> []\<close> by (cases ps) auto
  have "\<bar>k\<bar> < 2 ^ 100" "m < 2 ^ 64" using k(2) assms(2) m(3) by (auto split: if_splits)
  then have "fit_theil_sen now ps = Some \<lparr>clk_offset_ns = k, clk_slope_num = 2 ^ 30, clk_slope_den = 2 ^ 30,
        clk_residual_max_ns = word_of_int m, clk_fitted_at_host_ns = now\<rparr>"
    using l ne k(1) m(1,2) by (simp add: fit_theil_sen_def Let_def slope unit_slope_num fround_fint fp_to_i128_fint
        fceil_fint fp_to_u64_fint fint_def [of 0])
  then show ?thesis using k(2,3) m(2,3) by (auto split: if_splits)
qed

text \<open>
  C8: The accuracy of the clock fit at epoch times. For a clock that is a constant \<open>c\<close> of up to
  \<open>2 ^ 52\<close> nanoseconds behind, and readings below \<open>2 ^ 61\<close> nanoseconds (until the year 2043), the fitted
  slope is exactly one, although the times are rounded to multiples of 256 before they are
  subtracted, and the fitted map takes every source reading to its host time with an error of
  at most 256 nanoseconds.
\<close>

theorem fit_accuracy_at_epoch:
  assumes "\<forall>p \<in> set ps. uint (p_host_ns p) = uint (p_src_ns p) + c
      \<and> uint (p_src_ns p) < 2 ^ 61 \<and> uint (p_host_ns p) < 2 ^ 61"
    and "\<bar>c\<bar> \<le> 2 ^ 52" "p \<in> set ps" "q \<in> set ps" "p_src_ns p \<noteq> p_src_ns q"
  shows "\<exists>fit. fit_theil_sen now ps = Some fit \<and> clk_slope_num fit = clk_slope_den fit
    \<and> (\<forall>r \<in> set ps. \<exists>h. clock_map fit (p_src_ns r) = Some h \<and> \<bar>uint h - uint (p_host_ns r)\<bar> \<le> 256)"
proof -
  have e: "list_all (epoch_pair c) ps" using assms(1) unfolding epoch_pair_def list_all_iff by blast
  obtain k r where fit: "fit_theil_sen now ps = Some \<lparr>clk_offset_ns = k, clk_slope_num = 2 ^ 30, clk_slope_den = 2 ^ 30,
        clk_residual_max_ns = word_of_int r, clk_fitted_at_host_ns = now\<rparr>" (is "_ = Some ?fit") and k: "\<bar>k - c\<bar> \<le> 256"
    using epoch_fit [OF e assms(2-5)] by blast
  have ok: "clock_ok ?fit" using k assms(2) by (simp add: clock_ok_def)
  have "\<exists>h. clock_map ?fit (p_src_ns r) = Some h \<and> \<bar>uint h - uint (p_host_ns r)\<bar> \<le> 256" if "r \<in> set ps" for r
  proof -
    let ?v = "max (k + uint (p_src_ns r)) 0"
    have r: "uint (p_host_ns r) = uint (p_src_ns r) + c" "uint (p_src_ns r) < 2 ^ 61" using assms(1) that by blast+
    then have "0 \<le> ?v" "?v < 2 ^ 64" using k assms(2) by simp_all
    then have "uint (as_u64 ?v) = ?v" by (simp add: as_u64_def uint_word_of_int)
    moreover have "\<bar>?v - uint (p_host_ns r)\<bar> \<le> 256"
      using k r(1) uint_ge_0 [of "p_host_ns r"] unfolding max_def by (simp split: if_splits) linarith
    moreover have "clock_map ?fit (p_src_ns r) = Some (as_u64 ?v)"
      using clock_map_affine [OF ok, of "p_src_ns r"] by (simp add: affine_def trunc_div_nonneg)
    ultimately show ?thesis by simp
  qed
  then show ?thesis using fit by auto
qed

text \<open>Two readings of a clock 17.5 ms behind, in November 2023.\<close>

definition epoch_pairs :: "Pair list" where
  "epoch_pairs = [pair_at 1700000000000000077 1700000000017500077, pair_at 1700000001000000003 1700000001017500003]"

theorem fit_accuracy_at_epoch_witness:
  "\<exists>fit h. fit_theil_sen 9 epoch_pairs = Some fit \<and> clock_map fit 1700000000000000077 = Some h
    \<and> \<bar>uint h - 1700000000017500077\<bar> \<le> 256"
proof -
  have "\<forall>p \<in> set epoch_pairs. uint (p_host_ns p) = uint (p_src_ns p) + 17500000
      \<and> uint (p_src_ns p) < 2 ^ 61 \<and> uint (p_host_ns p) < 2 ^ 61"
    by (simp add: epoch_pairs_def pair_at_def)
  from fit_accuracy_at_epoch [OF this, of "epoch_pairs ! 0" "epoch_pairs ! 1" 9]
  obtain fit where "fit_theil_sen 9 epoch_pairs = Some fit"
      "\<forall>r \<in> set epoch_pairs. \<exists>h. clock_map fit (p_src_ns r) = Some h \<and> \<bar>uint h - uint (p_host_ns r)\<bar> \<le> 256"
    by (auto simp: epoch_pairs_def pair_at_def)
  then show ?thesis by (auto simp: epoch_pairs_def pair_at_def)
qed

end
