(* ===== verification/Validate_Clocks.thy ===== *)
theory Validate_Clocks
  imports Clock_Sync Clock_Robust
begin

text \<open>
  The command that checks the clocks, \<^verbatim>\<open>crates/perfweave-cli/src/validate_clocks.rs\<close>: two measurement
  rounds, one of the host clock against itself and one of a simulated clock that lags behind,
  each held to a budget. The readings of the host clock are arguments. The lemmas show
  how the check fails and that ideal readings pass with the lag recovered up to the rounding of the times.
\<close>

section \<open>Model\<close>

text \<open>The simulated clock: \<open>now\<close> is what the host clock returns inside \<^verbatim>\<open>read_ns\<close>.\<close>

definition skewed_read :: "u64 \<Rightarrow> u64" where
  "skewed_read now = sat_sub now 17500000"

text \<open>
  The three readings of the host clock in one turn of a round: before, inside the source
  clock, after.
\<close>

type_synonym turn3 = "u64 \<times> u64 \<times> u64"

fun host_turn :: "turn3 \<Rightarrow> Reading" where
  "host_turn (b, i, a) = \<lparr>rd_before = b, rd_src = i, rd_after = a\<rparr>"

fun skewed_turn :: "turn3 \<Rightarrow> Reading" where
  "skewed_turn (b, i, a) = \<lparr>rd_before = b, rd_src = skewed_read i, rd_after = a\<rparr>"

datatype validate_error =
  Host_Fit_Failed | Host_Residual u64 u64 | Skewed_Fit_Failed | Skewed_Residual u64 u64

text \<open>
  The turns of the two rounds, the host time when each fit is made, and the budget. A panic
  is the left of the outer sum; a failed run returns its error, a good one the two fits
  that it prints.
\<close>

definition validate_run ::
  "u64 \<Rightarrow> u64 \<Rightarrow> turn3 list \<Rightarrow> turn3 list \<Rightarrow> u64 \<Rightarrow> panic + (validate_error + ClockOffset \<times> ClockOffset)" where
  "validate_run now1 now2 host_turns skewed_turns max_residual_ns =
     (case clock_measure now1 (map host_turn host_turns) max_residual_ns of
        Inl p \<Rightarrow> Inl p
      | Inr None \<Rightarrow> Inr (Inl Host_Fit_Failed)
      | Inr (Some (fit1, _)) \<Rightarrow>
          if max_residual_ns < clk_residual_max_ns fit1
          then Inr (Inl (Host_Residual (clk_residual_max_ns fit1) max_residual_ns))
          else case clock_measure now2 (map skewed_turn skewed_turns) max_residual_ns of
            Inl p \<Rightarrow> Inl p
          | Inr None \<Rightarrow> Inr (Inl Skewed_Fit_Failed)
          | Inr (Some (fit2, _)) \<Rightarrow>
              if max_residual_ns < clk_residual_max_ns fit2
              then Inr (Inl (Skewed_Residual (clk_residual_max_ns fit2) max_residual_ns))
              else Inr (Inr (fit1, fit2)))"

section \<open>Properties\<close>

text \<open>A turn whose inner reading is the midpoint of the outer ones, at a time until the year 2043.\<close>

fun ideal_turn :: "turn3 \<Rightarrow> bool" where
  "ideal_turn (b, i, a) \<longleftrightarrow> b \<le> a \<and> i = b + (a - b) div 2 \<and> 17500000 \<le> i \<and> uint i < 2 ^ 61"

lemma ideal_pairs:
  assumes "ideal_turn t"
  shows "epoch_pair 0 (pair_of (host_turn t))" "epoch_pair 17500000 (pair_of (skewed_turn t))"
proof -
  obtain b i a where t: "t = (b, i, a)" by (cases t)
  have i: "p_host_ns (pair_of (host_turn t)) = i" "p_host_ns (pair_of (skewed_turn t)) = i"
    "p_src_ns (pair_of (host_turn t)) = i" "p_src_ns (pair_of (skewed_turn t)) = skewed_read i"
    using assms by (auto simp: t pair_of_def latency_def sat_sub_def not_le)
  have r: "17500000 \<le> i" "uint i < 2 ^ 61" using assms unfolding t ideal_turn.simps by blast+
  then have "17500000 \<le> uint i" by (simp add: word_le_def)
  then have "uint (skewed_read i) = uint i - 17500000" by (simp add: skewed_read_def uint_sat_sub)
  then show "epoch_pair 0 (pair_of (host_turn t))" "epoch_pair 17500000 (pair_of (skewed_turn t))"
    using r(2) unfolding epoch_pair_def i by simp_all
qed

lemma distinct_two:
  assumes "distinct xs" "2 \<le> length xs"
  obtains x y where "x \<in> set xs" "y \<in> set xs" "x \<noteq> y"
proof -
  obtain x y zs where "xs = x # y # zs" using assms(2) by (metis Suc_le_length_iff numeral_2_eq_2)
  then show ?thesis using that [of x y] assms(1) by simp
qed

text \<open>A round over readings of a clock that is \<open>c\<close> behind recovers \<open>c\<close>, up to the rounding of the times.\<close>

lemma measure_epoch:
  assumes "list_all (\<lambda>r. epoch_pair c (pair_of r)) rs" "distinct (map rd_src rs)" "2 \<le> length rs" "\<bar>c\<bar> \<le> 2 ^ 52"
  shows "\<exists>fit flagged. clock_measure now rs budget = Inr (Some (fit, flagged)) \<and> \<bar>clk_offset_ns fit - c\<bar> \<le> 256
    \<and> uint (clk_residual_max_ns fit) \<le> 768 \<and> (c = 0 \<longrightarrow> clk_offset_ns fit = 0 \<and> clk_residual_max_ns fit = 0)"
proof -
  let ?c = "sort (map latency rs) ! (length rs * 9 div 10)"
  let ?ks = "filter (\<lambda>r. latency r \<le> ?c) rs"
  have ne: "rs \<noteq> []" using assms(3) by auto
  have "distinct (map rd_src ?ks)" using assms(2) by (simp add: distinct_map inj_on_def)
  moreover have "2 \<le> length ?ks" using kept_readings(1) [OF ne] assms(3) by linarith
  ultimately obtain x y where "x \<in> set (map rd_src ?ks)" "y \<in> set (map rd_src ?ks)" "x \<noteq> y"
    using distinct_two [of "map rd_src ?ks"] unfolding length_map by metis
  then obtain p q where pq: "p \<in> set ?ks" "q \<in> set ?ks" "rd_src p \<noteq> rd_src q" unfolding set_map by blast
  have e: "list_all (epoch_pair c) (map pair_of ?ks)" using assms(1) by (auto simp: list_all_iff)
  obtain k r where k: "fit_theil_sen now (map pair_of ?ks) = Some \<lparr>clk_offset_ns = k, clk_slope_num = 2 ^ 30,
        clk_slope_den = 2 ^ 30, clk_residual_max_ns = word_of_int r, clk_fitted_at_host_ns = now\<rparr>"
      "\<bar>k - c\<bar> \<le> 256" "0 \<le> r" "r \<le> 768" "c = 0 \<longrightarrow> k = 0 \<and> r = 0"
    using epoch_fit [OF e assms(4), of "pair_of p" "pair_of q" now] pq by (auto simp: pair_of_def)
  have "uint (word_of_int r :: u64) = r" using k(3,4) by (simp add: uint_word_of_int)
  with k show ?thesis
    using ne by (simp add: clock_measure_def Let_def cutoff_defined keep_below_readings)
qed

lemma measure_still:
  assumes "rs \<noteq> []" "\<forall>r \<in> set rs. rd_src r = t"
  shows "clock_measure now rs budget = Inr None"
proof -
  have "fit_theil_sen now (map pair_of (filter P rs)) = None" for P
    using assms(2) fit_defined_iff [THEN conjunct1] by (fastforce simp: pair_of_def)
  then show ?thesis using assms(1) by (simp add: clock_measure_def Let_def cutoff_defined keep_below_readings)
qed

lemma skewed_inj: "skewed_read x = skewed_read y \<Longrightarrow> 17500000 \<le> x \<Longrightarrow> 17500000 \<le> y \<Longrightarrow> x = y"
  by (auto simp: skewed_read_def sat_sub_def not_less split: if_splits)

lemma turn_sources: "rd_src (host_turn t) = fst (snd t)" "rd_src (skewed_turn t) = skewed_read (fst (snd t))"
  by (cases t, simp)+

lemma distinct_sources:
  assumes "list_all ideal_turn ts" "distinct (map (fst \<circ> snd) ts)"
  shows "distinct (map rd_src (map host_turn ts))" "distinct (map rd_src (map skewed_turn ts))"
proof -
  show "distinct (map rd_src (map host_turn ts))" using assms(2) by (simp add: o_def turn_sources)
  have ge: "17500000 \<le> fst (snd t)" if "t \<in> set ts" for t
  proof -
    have "ideal_turn t" using that assms(1) by (simp add: list_all_iff)
    then show ?thesis by (cases t) simp
  qed
  have "inj_on (rd_src \<circ> skewed_turn) (set ts)"
  proof (rule inj_onI)
    fix x y assume xy: "x \<in> set ts" "y \<in> set ts" "(rd_src \<circ> skewed_turn) x = (rd_src \<circ> skewed_turn) y"
    then have "fst (snd x) = fst (snd y)" using skewed_inj ge by (simp add: turn_sources)
    then show "x = y" using assms(2) xy(1,2) by (simp add: distinct_map inj_on_def)
  qed
  then show "distinct (map rd_src (map skewed_turn ts))" using assms(2) by (simp add: distinct_map)
qed

text \<open>
  C33: What the clock check finds. Without samples it panics; a host clock that shows the same time in every turn of the
  first round is reported as a failed fit; and a clock read at the midpoint of the outer readings, at two or
  more different times until the year 2043, passes every budget of 768 ns and more, the default of
  2000 ns among them: the first round then finds offset and residual 0 and the second the lag of 17.5 ms
  with an error of at most 256 ns, which is what \<^verbatim>\<open>f64\<close> leaves of today's times.
\<close>

theorem validate_clocks_verdict:
  "validate_run now1 now2 [] ss budget = Inl IndexOutOfBounds
   \<and> (hs \<noteq> [] \<and> (\<exists>t. list_all (\<lambda>turn. fst (snd turn) = t) hs) \<longrightarrow> validate_run now1 now2 hs ss budget = Inr (Inl Host_Fit_Failed))
   \<and> (list_all ideal_turn (hs @ ss) \<and> distinct (map (fst \<circ> snd) hs) \<and> distinct (map (fst \<circ> snd) ss)
      \<and> 2 \<le> length hs \<and> 2 \<le> length ss \<and> 768 \<le> budget \<longrightarrow>
      (\<exists>f1 f2. validate_run now1 now2 hs ss budget = Inr (Inr (f1, f2))
         \<and> clk_offset_ns f1 = 0 \<and> clk_residual_max_ns f1 = 0
         \<and> \<bar>clk_offset_ns f2 - 17500000\<bar> \<le> 256 \<and> clk_residual_max_ns f2 \<le> 768))"
proof (intro conjI impI)
  show "validate_run now1 now2 [] ss budget = Inl IndexOutOfBounds"
    by (simp add: validate_run_def clock_measure_def cutoff_of_def Let_def)
next
  assume "hs \<noteq> [] \<and> (\<exists>t. list_all (\<lambda>turn. fst (snd turn) = t) hs)"
  then obtain t where "hs \<noteq> []" "\<forall>r \<in> set (map host_turn hs). rd_src r = t"
    by (auto simp: list_all_iff turn_sources)
  then have "clock_measure now1 (map host_turn hs) budget = Inr None" by (intro measure_still [of _ t]) simp_all
  then show "validate_run now1 now2 hs ss budget = Inr (Inl Host_Fit_Failed)" by (simp add: validate_run_def)
next
  assume i: "list_all ideal_turn (hs @ ss) \<and> distinct (map (fst \<circ> snd) hs) \<and> distinct (map (fst \<circ> snd) ss)
      \<and> 2 \<le> length hs \<and> 2 \<le> length ss \<and> 768 \<le> budget"
  have a: "list_all (\<lambda>r. epoch_pair 0 (pair_of r)) (map host_turn hs)"
      "list_all (\<lambda>r. epoch_pair 17500000 (pair_of r)) (map skewed_turn ss)"
    using i ideal_pairs by (simp_all add: list_all_iff)
  have d: "distinct (map rd_src (map host_turn hs))" "distinct (map rd_src (map skewed_turn ss))"
    using i distinct_sources(1) [of hs] distinct_sources(2) [of ss] by simp_all
  obtain f1 g1 where f1: "clock_measure now1 (map host_turn hs) budget = Inr (Some (f1, g1))"
      "clk_offset_ns f1 = 0" "clk_residual_max_ns f1 = 0"
    using measure_epoch [OF a(1) d(1), of now1 budget] i by auto
  obtain f2 g2 where f2: "clock_measure now2 (map skewed_turn ss) budget = Inr (Some (f2, g2))"
      "\<bar>clk_offset_ns f2 - 17500000\<bar> \<le> 256" "uint (clk_residual_max_ns f2) \<le> 768"
    using measure_epoch [OF a(2) d(2), of now2 budget] i by auto
  have r: "clk_residual_max_ns f2 \<le> 768" using f2(3) by (simp add: word_le_def)
  then have "\<not> budget < clk_residual_max_ns f2" using i by (simp add: not_less) (meson order_trans)
  then show "\<exists>f1 f2. validate_run now1 now2 hs ss budget = Inr (Inr (f1, f2))
         \<and> clk_offset_ns f1 = 0 \<and> clk_residual_max_ns f1 = 0
         \<and> \<bar>clk_offset_ns f2 - 17500000\<bar> \<le> 256 \<and> clk_residual_max_ns f2 \<le> 768"
    using f1 f2(1,2) r by (simp add: validate_run_def)
qed

text \<open>Two turns of each round, in November 2023, with the default budget.\<close>

theorem validate_clocks_verdict_witness:
  "\<exists>f1 f2. validate_run 5 6
       [(1700000000000000000, 1700000000000000050, 1700000000000000100),
        (1700000000000001000, 1700000000000001050, 1700000000000001100)]
       [(1700000000000002000, 1700000000000002050, 1700000000000002100),
        (1700000000000003000, 1700000000000003050, 1700000000000003100)] 2000 = Inr (Inr (f1, f2))
     \<and> clk_offset_ns f1 = 0 \<and> \<bar>clk_offset_ns f2 - 17500000\<bar> \<le> 256"
  using validate_clocks_verdict [of 5 6
      "[(1700000000000002000, 1700000000000002050, 1700000000000002100),
        (1700000000000003000, 1700000000000003050, 1700000000000003100)]" 2000
      "[(1700000000000000000, 1700000000000000050, 1700000000000000100),
        (1700000000000001000, 1700000000000001050, 1700000000000001100)]"]
  by auto

end
