(* ===== verification/Cli.thy ===== *)
theory Cli
  imports Server_App Agent_Main Doctor Validate_Clocks
begin

text \<open>
  The commands of the user's program, \<^verbatim>\<open>crates/perfweave-cli/src/main.rs\<close>: starting everything, running a
  program under the injector, importing a report. The model is what each command starts, prints
  and returns. The lemmas show that the parts that \<^verbatim>\<open>start\<close> brings up find each other.
\<close>

section \<open>Start\<close>

record StartArgs =
  sa_api_listen :: string
  sa_collector_listen :: string
  sa_web_dir :: "string option"
  sa_no_open :: bool
  sa_clickhouse_url :: string
  sa_no_local_agent :: bool
  sa_synthetic :: bool
  sa_synthetic_gpus :: u32

text \<open>The arguments when the command line is empty.\<close>

definition start_args_default :: "(string \<Rightarrow> string option) \<Rightarrow> StartArgs" where
  "start_args_default var =
     \<lparr>sa_api_listen = ''0.0.0.0:'' @ show_nat API_HTTP,
      sa_collector_listen = ''0.0.0.0:'' @ show_nat COLLECTOR_GRPC,
      sa_web_dir = var ''PERFWEAVE_WEB_DIR'', sa_no_open = False,
      sa_clickhouse_url = var_or var ''PERFWEAVE_CH_URL'' ''http://127.0.0.1:8123'',
      sa_no_local_agent = False, sa_synthetic = False, sa_synthetic_gpus = 2\<rparr>"

text \<open>
  Opening the browser: the program that is started, or why there is none. \<open>os\<close> is the
  target of the build.
\<close>

datatype target_os = Os_Linux | Os_Macos | Os_Other

datatype open_error = Headless | Open_Failed

definition open_browser ::
  "target_os \<Rightarrow> (string \<Rightarrow> string option) \<Rightarrow> (string list \<Rightarrow> bool) \<Rightarrow> string \<Rightarrow> open_error + string list" where
  "open_browser os var spawn url =
     (if os = Os_Linux \<and> var ''DISPLAY'' = None \<and> var ''WAYLAND_DISPLAY'' = None then Inl Headless
      else let prog = (case os of Os_Linux \<Rightarrow> ''xdg-open'' | Os_Macos \<Rightarrow> ''open'' | Os_Other \<Rightarrow> ''cmd'') in
        if spawn [prog, url] then Inr [prog, url] else Inl Open_Failed)"

text \<open>
  What \<^verbatim>\<open>start\<close> starts: the server's configuration, the local agent's options, and the
  address for the browser; \<open>st_server\<close> is how the server's task ended, with the result of its run or,
  \<open>None\<close>, by a panic.
\<close>

record 'e Started =
  st_config :: AppConfig
  st_agent :: "Opts option"
  st_url :: "string option"
  st_server :: "('e server_error + unit) option"

definition start_config :: "(string \<Rightarrow> string option) \<Rightarrow> StartArgs \<Rightarrow> AppConfig" where
  "start_config var args =
     \<lparr>app_http_listen = sa_api_listen args, app_grpc_listen = sa_collector_listen args,
      app_web_dir = sa_web_dir args,
      app_ch = Some ((ch_config_default var)\<lparr>ch_url := sa_clickhouse_url args\<rparr>)\<rparr>"

text \<open>
  The server's task: \<open>crash\<close> is the database that a panic of the task leaves behind, \<open>None\<close> when it does not
  panic. An error of the run is logged inside the task.
\<close>

definition start_server ::
  "('d, 'a, 'e) Platform \<Rightarrow> (string \<Rightarrow> string option) \<Rightarrow> 'd option \<Rightarrow> AppConfig \<Rightarrow> 'd
     \<Rightarrow> ('e server_error + unit) option \<times> 'd" where
  "start_server pf var crash cfg d =
     (case crash of
        Some d' \<Rightarrow> (None, d')
      | None \<Rightarrow> let (r, tasks, d', sent) = server_run pf var cfg d in (Some r, d'))"

text \<open>The command waits for that task and returns an error exactly when it cannot be joined.\<close>

definition cmd_start ::
  "('d, 'a, 'e) Platform \<Rightarrow> (string \<Rightarrow> string option) \<Rightarrow> 'd option \<Rightarrow> StartArgs \<Rightarrow> 'd \<Rightarrow> 'e Started \<times> bool \<times> 'd" where
  "cmd_start pf var crash args d =
     (let cfg = start_config var args; (server, d') = start_server pf var crash cfg d in
      (\<lparr>st_config = cfg,
        st_agent = (if sa_no_local_agent args then None
          else Some \<lparr>op_collector_url =
                       ''http://'' @ str_replace ''0.0.0.0'' ''127.0.0.1'' (sa_collector_listen args),
                     op_synthetic = sa_synthetic args, op_synthetic_gpus = sa_synthetic_gpus args\<rparr>),
        st_url = (if sa_no_open args then None
          else Some (''http://'' @ str_replace ''0.0.0.0'' ''localhost'' (sa_api_listen args) @ ''/'')),
        st_server = server\<rparr>,
       server \<noteq> None, d'))"

section \<open>Run and import\<close>

record Child =
  cd_argv :: "string list"
  cd_env :: "(string \<times> string) list"

datatype run_result = Run_Usage | Run_Spawn_Failed string | Run_Wait_Failed | Run_Exit int

text \<open>
  What becomes of a child: it cannot be started, waiting for it fails, or it ends with an exit code, which is
  \<open>None\<close> when a signal ended it.
\<close>

datatype child_end = Child_Spawn_Error | Child_Wait_Error | Child_Ended "int option"

definition injector_path :: "(string \<Rightarrow> string option) \<Rightarrow> string" where
  "injector_path var = var_or var ''PERFWEAVE_CUPTI_INJECT_SO'' ''/usr/local/lib/libperfweave_cupti_inject.so''"

definition run_child :: "(string \<Rightarrow> string option) \<Rightarrow> string list \<Rightarrow> Child" where
  "run_child var argv =
     \<lparr>cd_argv = argv, cd_env = [(''CUDA_INJECTION64_PATH'', injector_path var),
        (''PERFWEAVE_CUPTI_SOCK'', ''/tmp/perfweave.cupti.sock'')]\<rparr>"

definition cmd_run ::
  "(string \<Rightarrow> string option) \<Rightarrow> (Child \<Rightarrow> child_end) \<Rightarrow> string list \<Rightarrow> run_result" where
  "cmd_run var spawn argv =
     (case argv of
        [] \<Rightarrow> Run_Usage
      | prog # _ \<Rightarrow>
          (case spawn (run_child var argv) of
             Child_Spawn_Error \<Rightarrow> Run_Spawn_Failed prog
           | Child_Wait_Error \<Rightarrow> Run_Wait_Failed
           | Child_Ended code \<Rightarrow> Run_Exit (case code of Some c \<Rightarrow> c | None \<Rightarrow> 1)))"

definition cmd_import :: "('d, 'b) World \<Rightarrow> string \<Rightarrow> u32 \<Rightarrow> 'd \<Rightarrow> (import_error + string) \<times> 'd" where
  "cmd_import w path node_id d =
     (case import_nsys w path node_id d of
        (Inl e, d') \<Rightarrow> (Inl e, d')
      | (Inr r, d') \<Rightarrow>
          (Inr (''imported '' @ show_nat (unat (ir_event_count r)) @ '' events (''
              @ show_nat (unat (ir_ts_min_ns r)) @ ''ns .. '' @ show_nat (unat (ir_ts_max_ns r)) @ ''ns)''), d'))"

text \<open>The import program, \<^verbatim>\<open>crates/perfweave-nsys-import/src/main.rs\<close>, differs in what it prints.\<close>

definition nsys_import_main :: "('d, 'b) World \<Rightarrow> string \<Rightarrow> u32 \<Rightarrow> 'd \<Rightarrow> (import_error + string) \<times> 'd" where
  "nsys_import_main w path node_id d =
     (case import_nsys w path node_id d of
        (Inl e, d') \<Rightarrow> (Inl e, d')
      | (Inr r, d') \<Rightarrow>
          (Inr (''imported '' @ show_nat (unat (ir_event_count r)) @ '' events (ts_min=''
              @ show_nat (unat (ir_ts_min_ns r)) @ '' ts_max='' @ show_nat (unat (ir_ts_max_ns r)) @ '')''), d'))"

section \<open>The command line\<close>

text \<open>The commands with the values that the parser gives to options that are left out.\<close>

record ValidateClocksArgs =
  va_samples :: nat
  va_max_residual_ns :: u64

definition validate_clocks_args_default :: ValidateClocksArgs where
  "validate_clocks_args_default = \<lparr>va_samples = 1024, va_max_residual_ns = 2000\<rparr>"

record ImportArgs =
  ia_path :: string
  ia_node_id :: u32

definition import_args_default :: "string \<Rightarrow> ImportArgs" where
  "import_args_default path = \<lparr>ia_path = path, ia_node_id = 0\<rparr>"

datatype Cmd =
  Cmd_Start StartArgs | Cmd_Run "string list" | Cmd_Doctor bool | Cmd_ValidateClocks ValidateClocksArgs
  | Cmd_Import ImportArgs

text \<open>
  What the commands meet: the environment variables, the server's platform and the panic of its task, the
  children, what doctor looks at and its serialiser, the host clock (when each of the two fits is made, and the
  readings of each turn of the two rounds), and the world of an import.
\<close>

record ('d, 'a, 'e, 'b) Surroundings =
  su_var :: "string \<Rightarrow> string option"
  su_platform :: "('d, 'a, 'e) Platform"
  su_crash :: "'d option"
  su_spawn :: "Child \<Rightarrow> child_end"
  su_to_json :: "Report \<Rightarrow> string list option"
  su_environment :: Environment
  su_fitted :: "u64 \<times> u64"
  su_host_round :: "nat \<Rightarrow> turn3"
  su_skewed_round :: "nat \<Rightarrow> turn3"
  su_world :: "('d, 'b) World"

datatype 'e cmd_result =
  Res_Start "'e Started" bool | Res_Run run_result | Res_Doctor "string list" nat
  | Res_ValidateClocks "panic + (validate_error + ClockOffset \<times> ClockOffset)" | Res_Import "import_error + string"

definition cli_main :: "('d, 'a, 'e, 'b) Surroundings \<Rightarrow> Cmd \<Rightarrow> 'd \<Rightarrow> 'e cmd_result \<times> 'd" where
  "cli_main su cmd d =
     (case cmd of
        Cmd_Start a \<Rightarrow>
          (let (st, ok, d') = cmd_start (su_platform su) (su_var su) (su_crash su) a d in (Res_Start st ok, d'))
      | Cmd_Run argv \<Rightarrow> (Res_Run (cmd_run (su_var su) (su_spawn su) argv), d)
      | Cmd_Doctor json \<Rightarrow>
          (let (ls, code) = doctor_run (su_to_json su) (su_environment su) json in (Res_Doctor ls code, d))
      | Cmd_ValidateClocks a \<Rightarrow>
          (Res_ValidateClocks (validate_run (fst (su_fitted su)) (snd (su_fitted su))
             (map (su_host_round su) [0..<va_samples a]) (map (su_skewed_round su) [0..<va_samples a])
             (va_max_residual_ns a)), d)
      | Cmd_Import a \<Rightarrow>
          (let (r, d') = cmd_import (su_world su) (ia_path a) (ia_node_id a) d in (Res_Import r, d')))"

text \<open>
  The exit status: an error that \<^verbatim>\<open>main\<close> returns is status 1, a panic is status 101, and \<^verbatim>\<open>run\<close>
  and \<^verbatim>\<open>doctor\<close> choose their own.
\<close>

fun exit_status :: "'e cmd_result \<Rightarrow> int" where
  "exit_status (Res_Start st ok) = (if ok then 0 else 1)"
| "exit_status (Res_Run (Run_Exit c)) = c"
| "exit_status (Res_Run Run_Usage) = 1"
| "exit_status (Res_Run (Run_Spawn_Failed p)) = 1"
| "exit_status (Res_Run Run_Wait_Failed) = 1"
| "exit_status (Res_Doctor ls code) = int code"
| "exit_status (Res_ValidateClocks (Inl p)) = 101"
| "exit_status (Res_ValidateClocks (Inr (Inl e))) = 1"
| "exit_status (Res_ValidateClocks (Inr (Inr fits))) = 0"
| "exit_status (Res_Import (Inl e)) = 1"
| "exit_status (Res_Import (Inr s)) = 0"

section \<open>Properties\<close>

text \<open>A round of readings that passes: a fit comes out of it, with its residual within the budget.\<close>

definition round_passes :: "u64 \<Rightarrow> u64 \<Rightarrow> Reading list \<Rightarrow> bool" where
  "round_passes budget now rs \<longleftrightarrow>
     (\<exists>fit flagged. clock_measure now rs budget = Inr (Some (fit, flagged)) \<and> clk_residual_max_ns fit \<le> budget)"

lemma round_no_panic: "rs \<noteq> [] \<Longrightarrow> clock_measure now rs budget \<noteq> Inl p"
  by (simp add: clock_measure_def Let_def cutoff_defined)

lemma validate_status:
  "exit_status (Res_ValidateClocks (validate_run now1 now2 (map f [0..<n]) (map g [0..<n]) budget)) =
     (if n = 0 then 101
      else if round_passes budget now1 (map host_turn (map f [0..<n]))
        \<and> round_passes budget now2 (map skewed_turn (map g [0..<n])) then 0 else 1)"
proof (cases "n = 0")
  case True
  then show ?thesis by (simp add: validate_run_def clock_measure_def cutoff_of_def Let_def)
next
  case False
  then show ?thesis
    using round_no_panic [of "map host_turn (map f [0..<n])" now1 budget]
      round_no_panic [of "map skewed_turn (map g [0..<n])" now2 budget]
    by (auto simp: validate_run_def round_passes_def not_less simp del: map_map split: sum.splits option.splits)
qed

text \<open>
  C31: The exit status of every command. \<^verbatim>\<open>validate-clocks\<close> panics (101) exactly when it is asked for no
  samples; otherwise it exits with 0 when both rounds give a fit whose residual is within the limit, and with 1 when
  one of them does not. \<^verbatim>\<open>doctor\<close> exits with 1 exactly when NVML is there and fails, ClickHouse does not
  answer, or the JSON report cannot be written, and with 0 otherwise. \<^verbatim>\<open>import\<close> exits with 0 when the import
  gives a result and with 1 when it gives an error. \<^verbatim>\<open>run\<close> exits with 1 without a program, when its program
  cannot be started or waited for, and when a signal ends it, and otherwise with the program's own code. And \<^verbatim>\<open>start\<close>
  exits with 1 exactly when the server's task panics: every error that the server's run returns, such as a failed
  migration or an address in use, ends as status 0.
\<close>

theorem exit_status_cases:
  "exit_status (fst (cli_main su (Cmd_ValidateClocks a) d)) =
      (if va_samples a = 0 then 101
       else if round_passes (va_max_residual_ns a) (fst (su_fitted su)) (map host_turn (map (su_host_round su) [0..<va_samples a]))
         \<and> round_passes (va_max_residual_ns a) (snd (su_fitted su)) (map skewed_turn (map (su_skewed_round su) [0..<va_samples a]))
       then 0 else 1)
   \<and> exit_status (fst (cli_main su (Cmd_Doctor json) d)) =
      (if (\<exists>e. env_nvml (su_environment su) = Some (Inl e)) \<or> (\<exists>e. env_nvml (su_environment su) = Some (Inr (Inl e)))
         \<or> (\<exists>e. env_clickhouse (su_environment su) (clickhouse_url (su_environment su)) = Some e)
         \<or> json \<and> su_to_json su (doctor_report (doctor_checks (su_environment su))) = None
       then 1 else 0)
   \<and> exit_status (fst (cli_main su (Cmd_Import i) d)) =
      (case fst (import_nsys (su_world su) (ia_path i) (ia_node_id i) d) of Inl e \<Rightarrow> 1 | Inr r \<Rightarrow> 0)
   \<and> exit_status (fst (cli_main su (Cmd_Run []) d)) = 1
   \<and> exit_status (fst (cli_main su (Cmd_Run (prog # args)) d)) =
      (case su_spawn su (run_child (su_var su) (prog # args)) of Child_Ended (Some c) \<Rightarrow> c | _ \<Rightarrow> 1)
   \<and> (case su_crash su of
        Some d' \<Rightarrow> exit_status (fst (cli_main su (Cmd_Start s) d)) = 1 \<and> snd (cli_main su (Cmd_Start s) d) = d'
      | None \<Rightarrow> (\<exists>st r tasks sent.
          server_run (su_platform su) (su_var su) (start_config (su_var su) s) d
            = (r, tasks, snd (cli_main su (Cmd_Start s) d), sent)
        \<and> fst (cli_main su (Cmd_Start s) d) = Res_Start st True \<and> st_server st = Some r
        \<and> exit_status (fst (cli_main su (Cmd_Start s) d)) = 0))"
proof (intro conjI)
  show "exit_status (fst (cli_main su (Cmd_ValidateClocks a) d)) =
      (if va_samples a = 0 then 101
       else if round_passes (va_max_residual_ns a) (fst (su_fitted su)) (map host_turn (map (su_host_round su) [0..<va_samples a]))
         \<and> round_passes (va_max_residual_ns a) (snd (su_fitted su)) (map skewed_turn (map (su_skewed_round su) [0..<va_samples a]))
       then 0 else 1)"
    unfolding cli_main_def Cmd.case fst_conv by (rule validate_status)
  show "exit_status (fst (cli_main su (Cmd_Doctor json) d)) =
      (if (\<exists>e. env_nvml (su_environment su) = Some (Inl e)) \<or> (\<exists>e. env_nvml (su_environment su) = Some (Inr (Inl e)))
         \<or> (\<exists>e. env_clickhouse (su_environment su) (clickhouse_url (su_environment su)) = Some e)
         \<or> json \<and> su_to_json su (doctor_report (doctor_checks (su_environment su))) = None
       then 1 else 0)"
    using failed_iff [of "su_environment su"]
    by (auto simp: cli_main_def doctor_run_def Let_def split: option.splits)
  show "exit_status (fst (cli_main su (Cmd_Import i) d)) =
      (case fst (import_nsys (su_world su) (ia_path i) (ia_node_id i) d) of Inl e \<Rightarrow> 1 | Inr r \<Rightarrow> 0)"
    by (auto simp: cli_main_def cmd_import_def Let_def split: prod.splits sum.splits)
qed (auto simp: cli_main_def cmd_run_def cmd_start_def start_server_def Let_def
      split: option.splits child_end.splits prod.splits)

lemma str_replace_absent:
  assumes "\<not> str_contains p s" "p \<noteq> []"
  shows "str_replace p r s = s"
  using assms by (induction s) (simp_all add: str_replace.simps)

lemma starts_with_append [simp]: "starts_with p (p @ s)"
  by (induction p) simp_all

lemma str_replace_prefix:
  assumes "\<not> str_contains p s" "p \<noteq> []"
  shows "str_replace p r (p @ s) = r @ s"
  using str_replace_absent [OF assms] assms(2) by (simp add: str_replace.simps [of p r "p @ s"])

definition any_port :: "string \<Rightarrow> bool" where
  "any_port p \<longleftrightarrow> p \<noteq> [] \<and> list_all is_digit p"

lemma not_contains_port:
  assumes "any_port p"
  shows "\<not> str_contains ''0.0.0.0'' ('':'' @ p)"
proof -
  have "\<not> starts_with ''0.0.0.0'' s \<and> (c = CHR '':'' \<longrightarrow> \<not> starts_with ''0.0.0.0'' (c # s))"
    if "list_all is_digit s" for c s
    using that by (cases s rule: remdups_adj.cases) (auto simp: is_digit_def)
  then have "\<not> str_contains ''0.0.0.0'' s" if "list_all is_digit s" for s
    using that by (induction s) (simp_all del: starts_with.simps)
  then show ?thesis using assms by (simp add: any_port_def)
qed

text \<open>
  \<^verbatim>\<open>perfweave start\<close> brings up parts that find each other: for addresses that listen on every
  interface at some port, the local agent uploads to the loopback address and the browser opens the local host
  at the ports the server listens on, and for addresses of one interface both use the address itself.
  The command reports success however the server's run ends, short of a panic.
\<close>

theorem start_parts_meet:
  assumes "any_port p" "any_port q" "sa_collector_listen args = a @ '':'' @ p" "sa_api_listen args = b @ '':'' @ q"
    and "\<not> sa_no_local_agent args" "\<not> sa_no_open args"
  shows "let (st, ok, d') = cmd_start pf var crash args d in
      app_grpc_listen (st_config st) = a @ '':'' @ p \<and> app_http_listen (st_config st) = b @ '':'' @ q
    \<and> (a = ''0.0.0.0'' \<longrightarrow> map_option op_collector_url (st_agent st) = Some (''http://127.0.0.1:'' @ p))
    \<and> (\<not> str_contains ''0.0.0.0'' (a @ '':'' @ p) \<longrightarrow>
         map_option op_collector_url (st_agent st) = Some (''http://'' @ a @ '':'' @ p))
    \<and> (b = ''0.0.0.0'' \<longrightarrow> st_url st = Some (''http://localhost:'' @ q @ ''/''))
    \<and> (\<not> str_contains ''0.0.0.0'' (b @ '':'' @ q) \<longrightarrow> st_url st = Some (''http://'' @ b @ '':'' @ q @ ''/''))
    \<and> (ok \<longleftrightarrow> crash = None)"
proof -
  have r: "str_replace ''0.0.0.0'' x (''0.0.0.0'' @ '':'' @ t) = x @ '':'' @ t" if "any_port t" for x t
    using str_replace_prefix [OF not_contains_port [OF that]] by simp
  have n: "str_replace ''0.0.0.0'' x s = s" if "\<not> str_contains ''0.0.0.0'' s" for x s
    using str_replace_absent [OF that] by simp
  show ?thesis
    unfolding cmd_start_def start_config_def start_server_def Let_def using assms(5,6) r [OF assms(1)] r [OF assms(2)] n
    by (auto simp: assms(3,4) split: option.splits prod.splits)
qed

theorem start_parts_meet_witness:
  "map_option op_collector_url (st_agent (fst (cmd_start broken_db (\<lambda>v. None) None
       (start_args_default (\<lambda>v. None)) 0))) = Some (''http://127.0.0.1:'' @ show_nat 7778)
   \<and> fst (snd (cmd_start broken_db (\<lambda>v. None) None (start_args_default (\<lambda>v. None)) 0))"
proof -
  have "any_port (show_nat 7778)" "any_port (show_nat 7777)"
    unfolding any_port_def by (simp_all add: show_nat_digits show_nat_nonempty)
  from start_parts_meet [OF this, of "start_args_default (\<lambda>v. None)" "''0.0.0.0''" "''0.0.0.0''" broken_db "\<lambda>v. None"
      None 0]
  show ?thesis by (auto simp: start_args_default_def API_HTTP_def COLLECTOR_GRPC_def)
qed

text \<open>
  C32: The injector and the agent: \<^verbatim>\<open>perfweave run\<close> gives its program the fixed socket path, and the exit code
  of the program is its own; the local agent on a Unix build listens on the path of the environment.
  So the injector reaches the agent exactly when the agent's environment leaves the path at its
  default: a path set there, even one that \<^verbatim>\<open>perfweave run\<close> sees as well, separates the two.
\<close>

theorem injector_meets_agent:
  fixes su :: "unit Startup"
  assumes "su = local_agent_run b host opts" "bl_unix b" "argv \<noteq> []"
  shows "\<exists>child. cmd_run var spawn argv =
      (case spawn child of Child_Spawn_Error \<Rightarrow> Run_Spawn_Failed (hd argv) | Child_Wait_Error \<Rightarrow> Run_Wait_Failed
       | Child_Ended code \<Rightarrow> Run_Exit (case code of Some c \<Rightarrow> c | None \<Rightarrow> 1))
    \<and> cd_argv child = argv \<and> map_of (cd_env child) ''CUDA_INJECTION64_PATH'' = Some (injector_path var)
    \<and> ((\<exists>path. map_of (cd_env child) ''PERFWEAVE_CUPTI_SOCK'' = Some path
            \<and> Sampler_Cupti \<lparr>cr_socket_path = path\<rparr> \<in> set (su_samplers su)) \<longleftrightarrow>
       ho_var host ''PERFWEAVE_CUPTI_SOCK'' \<in> {None, Some ''/tmp/perfweave.cupti.sock''})"
proof -
  have "cmd_run var spawn argv = (case spawn (run_child var argv) of Child_Spawn_Error \<Rightarrow> Run_Spawn_Failed (hd argv)
       | Child_Wait_Error \<Rightarrow> Run_Wait_Failed
       | Child_Ended code \<Rightarrow> Run_Exit (case code of Some c \<Rightarrow> c | None \<Rightarrow> 1))"
    using assms(3) by (cases argv) (auto simp: cmd_run_def split: option.splits child_end.splits)
  moreover have "Sampler_Cupti \<lparr>cr_socket_path = p\<rparr> \<in> set (su_samplers su) \<longleftrightarrow> p = cupti_socket host" for p
    using assms(2) by (auto simp: assms(1) local_agent_run_def Let_def local_real_samplers_def)
  ultimately show ?thesis
    by (intro exI [of _ "run_child var argv"]) (auto simp: run_child_def cupti_socket_def split: option.splits)
qed

theorem injector_meets_agent_witness:
  "\<exists>child :: Child. cmd_run (\<lambda>v. None) (\<lambda>c. Child_Ended (Some 3)) [''./train''] = Run_Exit 3
    \<and> cd_argv child = [''./train'']
    \<and> (\<exists>path. map_of (cd_env child) ''PERFWEAVE_CUPTI_SOCK'' = Some path
         \<and> Sampler_Cupti \<lparr>cr_socket_path = path\<rparr> \<in> set (su_samplers (local_agent_run plain_build board
             \<lparr>op_collector_url = ''http://127.0.0.1:7778'', op_synthetic = False, op_synthetic_gpus = 2\<rparr> :: unit Startup)))"
proof -
  have u: "bl_unix plain_build" and v: "ho_var board ''PERFWEAVE_CUPTI_SOCK'' = None" and ne: "[''./train''] \<noteq> []"
    by (simp_all add: plain_build_def board_def)
  from injector_meets_agent [OF refl u ne, of "\<lambda>v. None" "\<lambda>c. Child_Ended (Some 3)" board
      "\<lparr>op_collector_url = ''http://127.0.0.1:7778'', op_synthetic = False, op_synthetic_gpus = 2\<rparr>"]
  show ?thesis unfolding v option.case by (rule ex_forward) simp
qed

end
