(* ===== verification/Cupti_Receiver.thy ===== *)
theory Cupti_Receiver
  imports Cupti_Pipe Samplers
begin

text \<open>
  The receiver of the agent with all its connections, \<^verbatim>\<open>crates/perfweave-agent/src/sampler/cupti.rs\<close>, and the
  start of the injector (\<^verbatim>\<open>crates/perfweave-cupti-inject/src/lib.rs\<close>). Every accepted connection is a task of
  its own, and the tasks share the ring: the model is a labelled step relation in which they
  interleave at each event. The lemmas show, by rule induction, that no interleaving loses,
  duplicates or reorders the events of a connection.
\<close>

section \<open>The start of the injector\<close>

text \<open>\<open>conn_result\<close> is the result of the connection loop. The status is 0 either way.\<close>

definition InitializeInjection :: "'e + 'conn \<Rightarrow> 'conn InjectorState \<Rightarrow> int \<times> 'conn InjectorState" where
  "InitializeInjection conn_result st =
     (case conn_result of
        Inr conn \<Rightarrow> (0, st\<lparr>inj_conn := Some conn\<rparr>)
      | Inl _ \<Rightarrow> (0, st))"

section \<open>The tasks\<close>

text \<open>
  One turn of the loop of a connection up to the pushes: the events of the next frame and the
  bytes after it; none if the peer has closed the socket or the frame is too long. A frame that
  cannot be decoded has no events.
\<close>

definition read_batch :: "Codec \<Rightarrow> u8 list \<Rightarrow> (Event list \<times> u8 list) option" where
  "read_batch cd stream =
     (case read_exact 4 stream of
        None \<Rightarrow> None
      | Some (len_buf, rest) \<Rightarrow>
          let len = unat (u32_from_le_bytes len_buf) in
          if MAX_FRAME < len then None
          else map_option (\<lambda>(payload, rest').
              (case cd_decode cd payload of Some b \<Rightarrow> b_events b | None \<Rightarrow> [], rest')) (read_exact len rest))"

text \<open>
  The state: the ring, for every accepted connection the events of its current frame that are
  still to be pushed and the bytes still to be read, and whether the listener is open.
\<close>

record ('ch, 'fch) Receiver =
  rv_ring :: "('ch, 'fch) EventRing"
  rv_conns :: "(Event list \<times> u8 list) list"
  rv_listening :: bool

definition receiver_new :: "('ch, 'fch) EventRing \<Rightarrow> ('ch, 'fch) Receiver" where
  "receiver_new ring = \<lparr>rv_ring = ring, rv_conns = [], rv_listening = True\<rparr>"

datatype recv_label = L_Accept "u8 list" | L_Read nat | L_Push nat | L_Shutdown

inductive recv_step ::
  "Codec \<Rightarrow> (Event, 'ch) Channel \<Rightarrow> ('ch, 'fch) Receiver \<Rightarrow> recv_label \<Rightarrow> ('ch, 'fch) Receiver \<Rightarrow> bool"
  for cd :: Codec and c :: "(Event, 'ch) Channel" where
  accept: "rv_listening s \<Longrightarrow> recv_step cd c s (L_Accept stream) (s\<lparr>rv_conns := rv_conns s @ [([], stream)]\<rparr>)"
| read: "i < length (rv_conns s) \<Longrightarrow> rv_conns s ! i = ([], stream) \<Longrightarrow> read_batch cd stream = Some x \<Longrightarrow>
    recv_step cd c s (L_Read i) (s\<lparr>rv_conns := (rv_conns s)[i := x]\<rparr>)"
| push: "i < length (rv_conns s) \<Longrightarrow> rv_conns s ! i = (e # es, stream) \<Longrightarrow>
    recv_step cd c s (L_Push i)
      (s\<lparr>rv_ring := ring_push c e (rv_ring s), rv_conns := (rv_conns s)[i := (es, stream)]\<rparr>)"
| shutdown: "rv_listening s \<Longrightarrow> recv_step cd c s L_Shutdown (s\<lparr>rv_listening := False\<rparr>)"

inductive_cases recv_step_cases: "recv_step cd c s l s'"

text \<open>A step is determined by its label, so it can be run.\<close>

definition recv_run ::
  "Codec \<Rightarrow> (Event, 'ch) Channel \<Rightarrow> ('ch, 'fch) Receiver \<Rightarrow> recv_label \<Rightarrow> ('ch, 'fch) Receiver option" where
  "recv_run cd c s l =
     (case l of
        L_Accept stream \<Rightarrow> if rv_listening s then Some (s\<lparr>rv_conns := rv_conns s @ [([], stream)]\<rparr>) else None
      | L_Read i \<Rightarrow>
          if i < length (rv_conns s) then
            (case rv_conns s ! i of
               ([], stream) \<Rightarrow> map_option (\<lambda>x. s\<lparr>rv_conns := (rv_conns s)[i := x]\<rparr>) (read_batch cd stream)
             | _ \<Rightarrow> None)
          else None
      | L_Push i \<Rightarrow>
          if i < length (rv_conns s) then
            (case rv_conns s ! i of
               (e # es, stream) \<Rightarrow>
                 Some (s\<lparr>rv_ring := ring_push c e (rv_ring s), rv_conns := (rv_conns s)[i := (es, stream)]\<rparr>)
             | _ \<Rightarrow> None)
          else None
      | L_Shutdown \<Rightarrow> if rv_listening s then Some (s\<lparr>rv_listening := False\<rparr>) else None)"

lemma recv_run_iff: "recv_run cd c s l = Some s' \<longleftrightarrow> recv_step cd c s l s'"
proof
  show "recv_run cd c s l = Some s' \<Longrightarrow> recv_step cd c s l s'"
    by (auto simp: recv_run_def split: recv_label.splits if_splits prod.splits list.splits intro: recv_step.intros)
  show "recv_step cd c s l s' \<Longrightarrow> recv_run cd c s l = Some s'"
    by (erule recv_step_cases) (simp_all add: recv_run_def)
qed

inductive recv_exec ::
  "Codec \<Rightarrow> (Event, 'ch) Channel \<Rightarrow> ('ch, 'fch) Receiver \<Rightarrow> recv_label list \<Rightarrow> ('ch, 'fch) Receiver \<Rightarrow> bool"
  for cd :: Codec and c :: "(Event, 'ch) Channel" and s0 :: "('ch, 'fch) Receiver" where
  nil: "recv_exec cd c s0 [] s0"
| snoc: "recv_exec cd c s0 ls s \<Longrightarrow> recv_step cd c s l s' \<Longrightarrow> recv_exec cd c s0 (ls @ [l]) s'"

fun recv_runs ::
  "Codec \<Rightarrow> (Event, 'ch) Channel \<Rightarrow> ('ch, 'fch) Receiver \<Rightarrow> recv_label list \<Rightarrow> ('ch, 'fch) Receiver option" where
  "recv_runs cd c s [] = Some s"
| "recv_runs cd c s (l # ls) = Option.bind (recv_run cd c s l) (\<lambda>s'. recv_runs cd c s' ls)"

lemma recv_runs_exec: "recv_exec cd c s0 ks s \<Longrightarrow> recv_runs cd c s ls = Some s' \<Longrightarrow> recv_exec cd c s0 (ks @ ls) s'"
proof (induction ls arbitrary: ks s)
  case (Cons l ls)
  then obtain t where "recv_run cd c s l = Some t" "recv_runs cd c t ls = Some s'"
    by (auto simp: Option.bind_eq_Some_conv)
  with Cons.IH [of "ks @ [l]" t] Cons.prems(1) show ?case
    by (auto simp: recv_run_iff intro: recv_exec.snoc)
qed simp

text \<open>The connections an execution has accepted, in order.\<close>

definition accepted :: "recv_label list \<Rightarrow> u8 list list" where
  "accepted ls = List.map_filter (\<lambda>l. case l of L_Accept s \<Rightarrow> Some s | _ \<Rightarrow> None) ls"

section \<open>One connection\<close>

lemma read_batch_shorter: "read_batch cd stream = Some (es, rest) \<Longrightarrow> length rest < length stream"
  by (auto simp: read_batch_def read_exact_def Let_def split: option.splits if_splits) linarith+

text \<open>All events a connection will push.\<close>

function conn_events :: "Codec \<Rightarrow> u8 list \<Rightarrow> Event list" where
  "conn_events cd stream =
     (case read_batch cd stream of None \<Rightarrow> [] | Some (es, rest) \<Rightarrow> es @ conn_events cd rest)"
  by pat_completeness auto
termination
  by (relation "measure (\<lambda>(cd, stream). length stream)") (auto dest: read_batch_shorter)

declare conn_events.simps [simp del]

lemma handle_conn_events:
  "handle_conn cd c stream ring = foldl (\<lambda>r e. ring_push c e r) ring (conn_events cd stream)"
proof (induction cd c stream ring rule: handle_conn.induct)
  case (1 cd c stream ring)
  show ?case
  proof (cases "read_batch cd stream")
    case None
    then show ?thesis
      by (subst handle_conn.simps, subst conn_events.simps)
        (auto simp: read_batch_def Let_def split: option.splits if_splits)
  next
    case (Some x)
    then obtain len_buf rest payload rest' where x: "read_exact 4 stream = Some (len_buf, rest)"
      "\<not> MAX_FRAME < unat (u32_from_le_bytes len_buf)"
      "read_exact (unat (u32_from_le_bytes len_buf)) rest = Some (payload, rest')"
      "x = (case cd_decode cd payload of Some b \<Rightarrow> b_events b | None \<Rightarrow> [], rest')"
      by (auto simp: read_batch_def Let_def split: option.splits if_splits)
    have "handle_conn cd c stream ring = handle_conn cd c rest' (push_batch c (cd_decode cd payload) ring)"
      by (subst handle_conn.simps) (simp add: x)
    also have "\<dots> = foldl (\<lambda>r e. ring_push c e r) (push_batch c (cd_decode cd payload) ring) (conn_events cd rest')"
      using 1 x(1-3) by simp
    finally show ?thesis
      using x(4) Some by (simp add: conn_events.simps [of cd stream] push_batch_def split: option.split)
  qed
qed

section \<open>Interleaving\<close>

lemma accepted_snoc:
  "accepted (ls @ [l]) = accepted ls @ (case l of L_Accept s \<Rightarrow> [s] | _ \<Rightarrow> [])"
  by (simp add: accepted_def List.map_filter_def split: recv_label.splits)

text \<open>What connection \<open>i\<close> has pushed in a log of pushes.\<close>

definition pushed_by :: "nat \<Rightarrow> (nat \<times> Event) list \<Rightarrow> Event list" where
  "pushed_by i lg = map snd (filter (\<lambda>p. fst p = i) lg)"

lemma pushed_by_snoc: "pushed_by i (lg @ [(j, e)]) = pushed_by i lg @ (if j = i then [e] else [])"
  by (simp add: pushed_by_def)

lemma pushed_by_none: "list_all (\<lambda>p. fst p < n) lg \<Longrightarrow> pushed_by n lg = []"
  by (auto simp: pushed_by_def list_all_iff filter_empty_conv)

text \<open>
  The invariant of the connections, whatever else happens to the ring: for some log of pushes,
  each connection has pushed what it will not push any more.
\<close>

definition conns_inv ::
  "Codec \<Rightarrow> u8 list list \<Rightarrow> (nat \<times> Event) list \<Rightarrow> (Event list \<times> u8 list) list \<Rightarrow> bool" where
  "conns_inv cd streams lg conns \<longleftrightarrow>
     length conns = length streams \<and> list_all (\<lambda>p. fst p < length streams) lg
   \<and> (\<forall>i < length streams. pushed_by i lg @ fst (conns ! i) @ conn_events cd (snd (conns ! i))
        = conn_events cd (streams ! i))"

lemma conns_inv_Nil: "conns_inv cd [] [] []"
  by (simp add: conns_inv_def)

text \<open>What a step pushes, with the connection that pushes it.\<close>

definition step_pushes :: "('ch, 'fch) Receiver \<Rightarrow> recv_label \<Rightarrow> (nat \<times> Event) list" where
  "step_pushes s l = (case l of L_Push i \<Rightarrow> [(i, hd (fst (rv_conns s ! i)))] | _ \<Rightarrow> [])"

lemma recv_step_ring:
  "recv_step cd c s l s' \<Longrightarrow> rv_ring s' = foldl (\<lambda>r p. ring_push c (snd p) r) (rv_ring s) (step_pushes s l)"
  by (erule recv_step_cases) (simp_all add: step_pushes_def)

lemma conns_inv_step:
  assumes "conns_inv cd (accepted ls) lg (rv_conns s)" "recv_step cd c s l s'"
  shows "conns_inv cd (accepted (ls @ [l])) (lg @ step_pushes s l) (rv_conns s')"
  using assms(2)
proof (cases rule: recv_step.cases)
  case (accept stream)
  then show ?thesis
    using assms(1) pushed_by_none [of "length (accepted ls)" lg]
    by (auto simp: conns_inv_def step_pushes_def accepted_snoc nth_append list_all_iff less_Suc_eq)
next
  case (read i stream x)
  have "conn_events cd stream = fst x @ conn_events cd (snd x)"
    using read(5) by (simp add: conn_events.simps [of cd stream] split: prod.splits)
  then show ?thesis
    using assms(1) read by (auto simp: conns_inv_def step_pushes_def accepted_snoc nth_list_update)
next
  case (push i e es stream)
  then show ?thesis
    using assms(1) by (auto simp: conns_inv_def step_pushes_def accepted_snoc nth_list_update pushed_by_snoc)
next
  case shutdown
  then show ?thesis using assms(1) by (auto simp: conns_inv_def step_pushes_def accepted_snoc)
qed

text \<open>When only the receiver works on the ring, the ring is the start with the log applied in order.\<close>

lemma recv_exec_inv:
  assumes "recv_exec cd c (receiver_new ring0) ls s"
  shows "\<exists>lg. rv_ring s = foldl (\<lambda>r p. ring_push c (snd p) r) ring0 lg \<and> conns_inv cd (accepted ls) lg (rv_conns s)"
  using assms
proof (induction rule: recv_exec.induct)
  case nil
  show ?case
    by (intro exI [of _ "[]"]) (simp add: conns_inv_Nil receiver_new_def accepted_def List.map_filter_def)
next
  case (snoc ls s l s')
  then obtain lg where "rv_ring s = foldl (\<lambda>r p. ring_push c (snd p) r) ring0 lg"
      "conns_inv cd (accepted ls) lg (rv_conns s)"
    by blast
  with recv_step_ring [OF snoc(2)] conns_inv_step [OF _ snoc(2)] show ?case
    by (intro exI [of _ "lg @ step_pushes s l"]) simp
qed

text \<open>No task can go on: each has pushed its frame and has no further one.\<close>

definition quiescent :: "Codec \<Rightarrow> ('ch, 'fch) Receiver \<Rightarrow> bool" where
  "quiescent cd s \<longleftrightarrow> list_all (\<lambda>(es, stream). es = [] \<and> read_batch cd stream = None) (rv_conns s)"

lemma quiescent_iff:
  "quiescent cd s \<longleftrightarrow> (\<forall>i s'. \<not> recv_step cd c s (L_Read i) s' \<and> \<not> recv_step cd c s (L_Push i) s')"
proof
  assume "quiescent cd s"
  then show "\<forall>i s'. \<not> recv_step cd c s (L_Read i) s' \<and> \<not> recv_step cd c s (L_Push i) s'"
    by (auto simp: quiescent_def list_all_length elim!: recv_step_cases)
next
  assume n: "\<forall>i s'. \<not> recv_step cd c s (L_Read i) s' \<and> \<not> recv_step cd c s (L_Push i) s'"
  have "fst (rv_conns s ! i) = [] \<and> read_batch cd (snd (rv_conns s ! i)) = None" if i: "i < length (rv_conns s)" for i
  proof (cases "rv_conns s ! i")
    case (Pair es stream)
    show ?thesis
    proof (cases es)
      case Nil
      have "recv_step cd c s (L_Read i) (s\<lparr>rv_conns := (rv_conns s)[i := x]\<rparr>)"
        if "read_batch cd stream = Some x" for x
        using i Pair Nil that by (intro recv_step.read) simp_all
      then show ?thesis using n Pair Nil by (cases "read_batch cd stream") auto
    next
      case (Cons e es')
      then have "recv_step cd c s (L_Push i)
          (s\<lparr>rv_ring := ring_push c e (rv_ring s), rv_conns := (rv_conns s)[i := (es', stream)]\<rparr>)"
        using i Pair by (intro recv_step.push) simp_all
      then show ?thesis using n by blast
    qed
  qed
  then show "quiescent cd s" by (simp add: quiescent_def list_all_length case_prod_unfold)
qed

text \<open>
  The work that is left: the events to push and the bytes to read. Each step of a task
  takes some of it, and only a new connection adds to it, so the tasks come to rest.
\<close>

definition conn_work :: "Codec \<Rightarrow> Event list \<times> u8 list \<Rightarrow> nat" where
  "conn_work cd x = length (fst x) + length (conn_events cd (snd x)) + length (snd x)"

definition busy :: "recv_label list \<Rightarrow> nat" where
  "busy ls = length (filter (\<lambda>l. case l of L_Read _ \<Rightarrow> True | L_Push _ \<Rightarrow> True | _ \<Rightarrow> False) ls)"

lemma sum_list_map_update:
  fixes f :: "'a \<Rightarrow> nat"
  assumes "i < length xs" "f y < f (xs ! i)"
  shows "sum_list (map f (xs[i := y])) < sum_list (map f xs)"
  using assms by (induction xs arbitrary: i) (auto split: nat.splits)

lemma step_work:
  assumes "recv_step cd c s l s'"
  shows "sum_list (map (conn_work cd) (rv_conns s')) + busy [l]
    \<le> sum_list (map (conn_work cd) (rv_conns s)) + (case l of L_Accept st \<Rightarrow> conn_work cd ([], st) | _ \<Rightarrow> 0)"
  using assms
proof (cases rule: recv_step.cases)
  case (read i stream x)
  obtain es rest where x: "x = (es, rest)" by (cases x)
  then have "conn_work cd x < conn_work cd (rv_conns s ! i)"
    using read(4,5) read_batch_shorter [of cd stream es rest]
    by (simp add: conn_work_def conn_events.simps [of cd stream])
  from sum_list_map_update [of i "rv_conns s" "conn_work cd", OF read(3) this] read(1,2) show ?thesis
    by (simp add: busy_def)
next
  case (push i e es stream)
  then have "conn_work cd (es, stream) < conn_work cd (rv_conns s ! i)" by (simp add: conn_work_def)
  from sum_list_map_update [of i "rv_conns s" "conn_work cd", OF push(3) this] push(1,2) show ?thesis
    by (simp add: busy_def)
qed (simp_all add: busy_def)

lemma exec_work:
  assumes "recv_exec cd c (receiver_new ring0) ls s"
  shows "sum_list (map (conn_work cd) (rv_conns s)) + busy ls
    \<le> sum_list (map (\<lambda>st. conn_work cd ([], st)) (accepted ls))"
  using assms
proof (induction rule: recv_exec.induct)
  case nil
  show ?case by (simp add: receiver_new_def busy_def)
next
  case (snoc ls s l s')
  have "busy (ls @ [l]) = busy ls + busy [l]" by (simp add: busy_def)
  with snoc step_work [of cd c s l s'] show ?case by (cases l) (auto simp: accepted_snoc)
qed

lemma conn_events_wire:
  assumes "codec_ok cd" "list_all (sendable cd) bs" "sendable cd b" "k < length (wire cd b)"
  shows "conn_events cd (concat (map (wire cd) bs) @ take k (wire cd b)) = concat (map b_events bs)"
proof -
  have one: "read_batch cd (wire cd b' @ rest) = Some (b_events b', rest)" if "sendable cd b'" for b' rest
  proof -
    have "length (the (cd_encode cd b')) \<le> MAX_FRAME" using that by (auto simp: sendable_def split: option.splits)
    from frame_length_field [OF this, of "[]"] this show ?thesis
      using decode_encoded [OF assms(1) that]
      by (simp add: read_batch_def wire_frame [OF assms(1) that] frame_def read_exact_def)
  qed
  have "read_batch cd (take k (wire cd b)) = None"
  proof -
    have le: "length (the (cd_encode cd b)) \<le> MAX_FRAME" using assms(3) by (auto simp: sendable_def split: option.splits)
    note w = wire_frame [OF assms(1,3)] frame_def
    show ?thesis
      using assms(4) frame_length_field [OF le, of "[]"] unfolding w
      by (cases "k < 4") (auto simp: read_batch_def read_exact_def Let_def)
  qed
  then have "conn_events cd (take k (wire cd b)) = []" by (simp add: conn_events.simps)
  moreover have "conn_events cd (concat (map (wire cd) bs) @ rest) = concat (map b_events bs) @ conn_events cd rest" for rest
    using assms(2) by (induction bs) (simp_all add: one conn_events.simps [of cd "wire cd _ @ _"])
  ultimately show ?thesis by simp
qed

section \<open>Property\<close>

text \<open>The bytes of a sender that has written some batches and possibly died in the middle of one more.\<close>

definition sent :: "Codec \<Rightarrow> u8 list \<Rightarrow> Batch list \<Rightarrow> bool" where
  "sent cd stream bs \<longleftrightarrow> list_all (sendable cd) bs
     \<and> (\<exists>b k. sendable cd b \<and> k < length (wire cd b) \<and> stream = concat (map (wire cd) bs) @ take k (wire cd b))"

text \<open>What the invariant says of senders that have written batches.\<close>

lemma conns_inv_delivered:
  assumes "codec_ok cd" "conns_inv cd streams lg conns" "list_all2 (sent cd) streams bss" "i < length bss"
  shows "prefix (pushed_by i lg) (concat (map b_events (bss ! i)))"
    and "list_all (\<lambda>(es, stream). es = [] \<and> read_batch cd stream = None) conns \<Longrightarrow>
      pushed_by i lg = concat (map b_events (bss ! i))"
proof -
  have len: "length streams = length bss" using assms(3) by (rule list_all2_lengthD)
  have all: "pushed_by i lg @ fst (conns ! i) @ conn_events cd (snd (conns ! i)) = concat (map b_events (bss ! i))"
    using assms(2,4) len list_all2_nthD2 [OF assms(3,4)] conn_events_wire [OF assms(1)]
    by (auto simp: conns_inv_def sent_def)
  then show "prefix (pushed_by i lg) (concat (map b_events (bss ! i)))" by (metis prefixI)
  assume "list_all (\<lambda>(es, stream). es = [] \<and> read_batch cd stream = None) conns"
  then have "fst (conns ! i) @ conn_events cd (snd (conns ! i)) = []"
    using assms(2,4) len by (auto simp: conns_inv_def list_all_length case_prod_unfold conn_events.simps)
  with all show "pushed_by i lg = concat (map b_events (bss ! i))" by simp
qed

text \<open>
  C14: The receiver under concurrency: any number of injectors are connected at once and their tasks
  interleave in any way, before and after the shutdown of the listener. At every moment the ring is the
  result of pushing, one by one, a merge of what the connections have delivered: each connection
  has pushed a prefix of the events of its complete batches, in order and without a gap, and
  all of them once no task can go on. The tasks do come to rest: the number of their steps is
  bounded by what the accepted connections send.
\<close>

theorem receiver_interleaves:
  assumes "codec_ok cd" "recv_exec cd c (receiver_new ring0) ls s" "list_all2 (sent cd) (accepted ls) bss"
  shows "\<exists>lg. rv_ring s = foldl (\<lambda>r p. ring_push c (snd p) r) ring0 lg
    \<and> list_all (\<lambda>p. fst p < length bss) lg
    \<and> (\<forall>i < length bss. prefix (pushed_by i lg) (concat (map b_events (bss ! i)))
         \<and> (quiescent cd s \<longrightarrow> pushed_by i lg = concat (map b_events (bss ! i))))
    \<and> busy ls \<le> sum_list (map (\<lambda>st. conn_work cd ([], st)) (accepted ls))"
proof -
  obtain lg where r: "rv_ring s = foldl (\<lambda>r p. ring_push c (snd p) r) ring0 lg"
      and lg: "conns_inv cd (accepted ls) lg (rv_conns s)"
    using recv_exec_inv [OF assms(2)] by blast
  have "length (accepted ls) = length bss" using assms(3) by (rule list_all2_lengthD)
  then show ?thesis
    using r lg exec_work [OF assms(2)] conns_inv_delivered [OF assms(1) lg assms(3)]
    by (intro exI [of _ lg]) (auto simp: conns_inv_def quiescent_def)
qed

text \<open>Two injectors that send one event each; the second one is served first.\<close>

definition one_batch :: Batch where
  "one_batch = batch_of [tick_event 1]"

lemma one_batch_ok: "codec_ok unary_codec" "sendable unary_codec one_batch" "sent unary_codec (wire unary_codec one_batch) [one_batch]"
  "read_batch unary_codec (wire unary_codec one_batch) = Some ([tick_event 1], [])" "read_batch unary_codec [] = None"
proof -
  show c: "codec_ok unary_codec" by (auto simp: codec_ok_def unary_codec_def batch_of_def)
  show s: "sendable unary_codec one_batch"
    by (simp add: sendable_def unary_codec_def one_batch_def batch_of_def MAX_FRAME_def)
  have w: "wire unary_codec one_batch = [1, 0, 0, 0, 7]"
    by (simp add: wire_def unary_codec_def one_batch_def batch_of_def u32_to_le_bytes_def)
  show "sent unary_codec (wire unary_codec one_batch) [one_batch]"
    unfolding sent_def using s w by (intro conjI exI [of _ one_batch] exI [of _ 0]) simp_all
  show "read_batch unary_codec (wire unary_codec one_batch) = Some ([tick_event 1], [])"
    unfolding w by (simp add: read_batch_def read_exact_def u32_from_le_bytes_def MAX_FRAME_def unary_codec_def batch_of_def)
  show "read_batch unary_codec [] = None" by (simp add: read_batch_def read_exact_def)
qed

definition two_senders :: "recv_label list" where
  "two_senders = [L_Accept (wire unary_codec one_batch), L_Accept (wire unary_codec one_batch),
     L_Read 1, L_Shutdown, L_Push 1, L_Read 0, L_Push 0]"

lemma two_senders_run:
  fixes c :: "(Event, 'ch) Channel" and ring :: "('ch, 'fch) EventRing"
  shows "\<exists>s. recv_exec unary_codec c (receiver_new ring) two_senders s \<and> quiescent unary_codec s"
proof -
  let ?r = "ring_push c (tick_event 1) (ring_push c (tick_event 1) ring)"
  let ?s = "\<lparr>rv_ring = ?r, rv_conns = [([], []), ([], [])], rv_listening = False\<rparr> :: ('ch, 'fch) Receiver"
  have "recv_runs unary_codec c (receiver_new ring) two_senders = Some ?s"
    by (simp add: two_senders_def receiver_new_def recv_run_def one_batch_ok(4))
  then have "recv_exec unary_codec c (receiver_new ring) two_senders ?s"
    using recv_runs_exec [OF recv_exec.nil] by fastforce
  moreover have "quiescent unary_codec ?s" by (simp add: quiescent_def one_batch_ok(5))
  ultimately show ?thesis by blast
qed

theorem receiver_interleaves_witness:
  "\<exists>s lg. recv_exec unary_codec (queue_channel 8)
      (receiver_new (event_ring_new (\<lambda>n. []) (\<lambda>n. ()) 8)) two_senders s
    \<and> rv_ring s = foldl (\<lambda>r p. ring_push (queue_channel 8) (snd p) r) (event_ring_new (\<lambda>n. []) (\<lambda>n. ()) 8) lg
    \<and> pushed_by 0 lg = [tick_event 1] \<and> pushed_by 1 lg = [tick_event 1]"
proof -
  let ?ring = "event_ring_new (\<lambda>n. []) (\<lambda>n. ()) 8 :: (Event list, unit) EventRing"
  obtain s where s: "recv_exec unary_codec (queue_channel 8) (receiver_new ?ring) two_senders s" "quiescent unary_codec s"
    using two_senders_run by blast
  have "list_all2 (sent unary_codec) (accepted two_senders) [[one_batch], [one_batch]]"
    using one_batch_ok(3) by (simp add: two_senders_def accepted_def List.map_filter_def)
  from receiver_interleaves [OF one_batch_ok(1) s(1) this]
  obtain lg where r: "rv_ring s = foldl (\<lambda>r p. ring_push (queue_channel 8) (snd p) r) ?ring lg"
    and p: "\<forall>i < length [[one_batch], [one_batch]]. prefix (pushed_by i lg) (concat (map b_events ([[one_batch], [one_batch]] ! i)))
         \<and> (quiescent unary_codec s \<longrightarrow> pushed_by i lg = concat (map b_events ([[one_batch], [one_batch]] ! i)))"
    by blast
  have "pushed_by 0 lg = [tick_event 1]" "pushed_by 1 lg = [tick_event 1]"
    using p [rule_format, of 0] p [rule_format, of 1] s(2) by (simp_all add: one_batch_def batch_of_def)
  with s(1) r show ?thesis by blast
qed

end
