(* ===== verification/Pipeline.thy ===== *)
theory Pipeline
  imports Cupti_Receiver Uploader Ingest
begin

text \<open>
  The path of a kernel event from a CUDA program to the database: the receiver and the uploader of
  one agent, the stream to the collector, the collector's ingest task, the sink's channel and the
  sink's task. The parts are those of the other theories; here they run concurrently, as a
  labelled step relation on their common state. The lemmas show by rule induction that at every
  moment every event is in exactly one place, in order, or in one of three accounts of lost
  events.
\<close>

section \<open>The sink's channel\<close>

text \<open>
  What the collector relies on: a bounded first-in first-out channel that is not closed.
\<close>

locale mpsc_channel =
  fixes try_send :: "'m \<Rightarrow> 'ch \<Rightarrow> 'ch \<times> ('m try_send_error + unit)" and recv :: "'ch \<Rightarrow> ('m \<times> 'ch) option"
    and cap :: nat and msgs :: "'ch \<Rightarrow> 'm list"
  assumes send_room: "length (msgs ch) < cap \<Longrightarrow>
      msgs (fst (try_send m ch)) = msgs ch @ [m] \<and> snd (try_send m ch) = Inr ()"
    and send_full: "\<not> length (msgs ch) < cap \<Longrightarrow>
      msgs (fst (try_send m ch)) = msgs ch \<and> snd (try_send m ch) = Inl (Full m)"
    and recv_next: "recv ch = Some (m, ch') \<Longrightarrow> msgs ch = m # msgs ch'"
begin

lemma hands_back: "hands_back try_send"
proof -
  have "snd (try_send m ch) \<in> {Inr (), Inl (Full m), Inl (Closed m)}" for m ch
    using send_room [of ch m] send_full [of ch m] by (cases "length (msgs ch) < cap") simp_all
  then show ?thesis by (simp add: hands_back_def)
qed

end

definition mpsc_try_send :: "nat \<Rightarrow> 'm \<Rightarrow> 'm list \<Rightarrow> 'm list \<times> ('m try_send_error + unit)" where
  "mpsc_try_send cap m ms = (if length ms < cap then (ms @ [m], Inr ()) else (ms, Inl (Full m)))"

definition mpsc_recv :: "'m list \<Rightarrow> ('m \<times> 'm list) option" where
  "mpsc_recv ms = (case ms of [] \<Rightarrow> None | m # ms' \<Rightarrow> Some (m, ms'))"

interpretation mpsc: mpsc_channel "mpsc_try_send cap" mpsc_recv cap "\<lambda>ms. ms"
  by unfold_locales (auto simp: mpsc_try_send_def mpsc_recv_def split: list.splits)

section \<open>The parts together\<close>

text \<open>
  The surroundings: the codec of the injectors, the agent's two lanes, the hash function, the
  uploader's configuration, the sink's channel, the database client and the sink's configuration.
\<close>

record ('ch, 'fch, 'sch, 'w) Env =
  en_codec :: Codec
  en_events :: "(Event, 'ch) Channel"
  en_frames :: "(MetricFrame, 'fch) Channel"
  en_hash :: "string \<Rightarrow> u64"
  en_uploader :: UploaderConfig
  en_try_send :: "SinkMsg \<Rightarrow> 'sch \<Rightarrow> 'sch \<times> (SinkMsg try_send_error + unit)"
  en_recv :: "'sch \<Rightarrow> (SinkMsg \<times> 'sch) option"
  en_client :: "'w Client"
  en_sink :: SinkConfig

text \<open>
  What has happened so far, for the statements only: the pushes of the receiver with their
  connections, the events the ring had no room for, those drained but not delivered because
  the stream broke, those in batches the sink had no room for, the drops reported, and what the
  sink's task has seen.
\<close>

record Ledger =
  ld_log :: "(nat \<times> Event) list"
  ld_overflow :: "Event list"
  ld_cut :: "Event list"
  ld_refused :: "Event list"
  ld_reported :: u64
  ld_sunk :: "sink_event list"

record ('ch, 'fch, 'sch, 'w) System =
  sy_conns :: "(Event list \<times> u8 list) list"
  sy_listening :: bool
  sy_agent :: "('ch, 'fch) AgentState"
  sy_stream :: "Batch list"
  sy_svc :: "'sch CollectorSvc"
  sy_sink :: "'w SinkState"
  sy_ledger :: Ledger

definition receiver_of :: "('ch, 'fch, 'sch, 'w) System \<Rightarrow> ('ch, 'fch) Receiver" where
  "receiver_of s = \<lparr>rv_ring = ag_ring (sy_agent s), rv_conns = sy_conns s, rv_listening = sy_listening s\<rparr>"

lemma receiver_of_sel [simp]:
  "rv_ring (receiver_of s) = ag_ring (sy_agent s)" "rv_conns (receiver_of s) = sy_conns s"
  by (simp_all add: receiver_of_def)

definition put_receiver ::
  "('ch, 'fch) Receiver \<Rightarrow> ('ch, 'fch, 'sch, 'w) System \<Rightarrow> ('ch, 'fch, 'sch, 'w) System" where
  "put_receiver r s =
     s\<lparr>sy_conns := rv_conns r, sy_listening := rv_listening r, sy_agent := (sy_agent s)\<lparr>ag_ring := rv_ring r\<rparr>\<rparr>"

text \<open>The events a log of pushes finds no room for when it meets a ring.\<close>

definition refused_pushes ::
  "(Event, 'ch) Channel \<Rightarrow> ('ch, 'fch) EventRing \<Rightarrow> (nat \<times> Event) list \<Rightarrow> Event list" where
  "refused_pushes c r lg =
     map snd (filter (\<lambda>p. snd (chn_try_send c (snd p) (rg_events r)) = Inl (Cb_Full (snd p))) lg)"

text \<open>
  The result of the collector's push of a batch onto the sink's channel: the service afterwards,
  and the events the channel had no room for.
\<close>

definition hand_to_sink ::
  "(SinkMsg \<Rightarrow> 'sch \<Rightarrow> 'sch \<times> (SinkMsg try_send_error + unit)) \<Rightarrow> Batch \<Rightarrow> 'sch CollectorSvc
     \<Rightarrow> ('sch CollectorSvc \<times> Event list) option" where
  "hand_to_sink try_send b svc =
     (case try_push try_send b (cv_sink svc) of
        Some (ch, Inr _) \<Rightarrow> Some (svc\<lparr>cv_sink := ch\<rparr>, [])
      | Some (ch, Inl (Full b')) \<Rightarrow> Some (svc\<lparr>cv_sink := ch\<rparr>, b_events b')
      | _ \<Rightarrow> None)"

datatype label =
  S_Receive recv_label
  | S_Frame MetricFrame
  | S_Flush bool
  | S_Report
  | S_Disconnect
  | S_Collect "nat \<Rightarrow> u64" "nat \<Rightarrow> u64"
  | S_Other SinkMsg
  | S_Sink_Recv "nat \<Rightarrow> u64"
  | S_Sink_Tick

text \<open>
  The steps: those of the receiver, a frame pushed by a sampler, a flush of the uploader, its report of drops, the end
  of a session, the collector's handling of the next batch, another message for the sink, and the sink's wake-ups. A
  disconnect loses all batches of the stream at once, the worst case of a stream that breaks. The sink's task runs on: a
  channel whose receiver is gone and the last flush of a shutdown are not steps.
\<close>

text \<open>The events that a flush takes off the ring.\<close>

definition drained :: "('ch, 'fch, 'sch, 'w) Env \<Rightarrow> ('ch, 'fch, 'sch, 'w) System \<Rightarrow> Event list" where
  "drained en s = fst (drain_up_to (en_events en) (uc_max_batch_events (en_uploader en)) (ag_ring (sy_agent s)))"

inductive sys_step ::
  "('ch, 'fch, 'sch, 'w) Env \<Rightarrow> ('ch, 'fch, 'sch, 'w) System \<Rightarrow> label \<Rightarrow> ('ch, 'fch, 'sch, 'w) System \<Rightarrow> bool"
  for en :: "('ch, 'fch, 'sch, 'w) Env" where
  receive: "recv_step (en_codec en) (en_events en) (receiver_of s) l r \<Longrightarrow>
    sys_step en s (S_Receive l) ((put_receiver r s)\<lparr>sy_ledger := (sy_ledger s)
      \<lparr>ld_log := ld_log (sy_ledger s) @ step_pushes (receiver_of s) l,
       ld_overflow := ld_overflow (sy_ledger s)
         @ refused_pushes (en_events en) (ag_ring (sy_agent s)) (step_pushes (receiver_of s) l)\<rparr>\<rparr>)"
| frame: "sys_step en s (S_Frame f)
    (s\<lparr>sy_agent := (sy_agent s)\<lparr>ag_ring := ring_push_frame (en_frames en) f (ag_ring (sy_agent s))\<rparr>\<rparr>)"
| flush_sent: "flush_tick (en_events en) (en_frames en) (en_hash en) (en_uploader en) True (sy_agent s) = (a, Flushed) \<Longrightarrow>
    sys_step en s (S_Flush True) (s\<lparr>sy_agent := a, sy_stream := sy_stream s @ [last (ag_sent a)]\<rparr>)"
| flush_nothing: "flush_tick (en_events en) (en_frames en) (en_hash en) (en_uploader en) ok (sy_agent s) = (a, Nothing_To_Send) \<Longrightarrow>
    sys_step en s (S_Flush ok) (s\<lparr>sy_agent := a\<rparr>)"
| flush_failed: "flush_tick (en_events en) (en_frames en) (en_hash en) (en_uploader en) False (sy_agent s) = (a, Send_Failed) \<Longrightarrow>
    sys_step en s (S_Flush False) (s\<lparr>sy_agent := a, sy_ledger := (sy_ledger s)
      \<lparr>ld_cut := ld_cut (sy_ledger s) @ drained en s\<rparr>\<rparr>)"
| report: "sys_step en s S_Report
    (s\<lparr>sy_agent := (sy_agent s)\<lparr>ag_ring := snd (take_dropped_frames (snd (take_dropped (ag_ring (sy_agent s)))))\<rparr>,
       sy_ledger := (sy_ledger s)\<lparr>ld_reported := ld_reported (sy_ledger s) + fst (take_dropped (ag_ring (sy_agent s)))\<rparr>\<rparr>)"
| disconnect: "sys_step en s S_Disconnect
    (s\<lparr>sy_agent := (sy_agent s)\<lparr>ag_interner := interner_reset (ag_interner (sy_agent s))\<rparr>, sy_stream := [],
       sy_ledger := (sy_ledger s)\<lparr>ld_cut := ld_cut (sy_ledger s) @ concat (map b_events (sy_stream s))\<rparr>\<rparr>)"
| collect: "sy_stream s = b # bs \<Longrightarrow> ingest_batch clk_off clk_ev b (sy_svc s) = (svc, out) \<Longrightarrow>
    hand_to_sink (en_try_send en) out svc = Some (svc', lost) \<Longrightarrow>
    sys_step en s (S_Collect clk_off clk_ev) (s\<lparr>sy_stream := bs, sy_svc := svc', sy_ledger := (sy_ledger s)
      \<lparr>ld_refused := ld_refused (sy_ledger s) @ lost\<rparr>\<rparr>)"
| other: "\<nexists>b. m = Msg_Batch b \<Longrightarrow> en_try_send en m (cv_sink (sy_svc s)) = (ch, Inr ()) \<Longrightarrow>
    sys_step en s (S_Other m) (s\<lparr>sy_svc := (sy_svc s)\<lparr>cv_sink := ch\<rparr>\<rparr>)"
| sink_recv: "en_recv en (cv_sink (sy_svc s)) = Some (m, ch) \<Longrightarrow>
    sys_step en s (S_Sink_Recv clk) (s\<lparr>sy_svc := (sy_svc s)\<lparr>cv_sink := ch\<rparr>,
      sy_sink := sink_step (en_client en) (en_sink en) (sy_sink s) (Recv m clk),
      sy_ledger := (sy_ledger s)\<lparr>ld_sunk := ld_sunk (sy_ledger s) @ [Recv m clk]\<rparr>\<rparr>)"
| sink_tick: "sys_step en s S_Sink_Tick
    (s\<lparr>sy_sink := sink_step (en_client en) (en_sink en) (sy_sink s) Tick,
       sy_ledger := (sy_ledger s)\<lparr>ld_sunk := ld_sunk (sy_ledger s) @ [Tick]\<rparr>\<rparr>)"

inductive_cases sys_step_cases: "sys_step en s l s'"

inductive sys_exec ::
  "('ch, 'fch, 'sch, 'w) Env \<Rightarrow> ('ch, 'fch, 'sch, 'w) System \<Rightarrow> label list \<Rightarrow> ('ch, 'fch, 'sch, 'w) System \<Rightarrow> bool"
  for en :: "('ch, 'fch, 'sch, 'w) Env" and s0 :: "('ch, 'fch, 'sch, 'w) System" where
  start: "sys_exec en s0 [] s0"
| step: "sys_exec en s0 ls s \<Longrightarrow> sys_step en s l s' \<Longrightarrow> sys_exec en s0 (ls @ [l]) s'"

text \<open>A step is determined by its label, so it can be run.\<close>

definition sys_flush ::
  "('ch, 'fch, 'sch, 'w) Env \<Rightarrow> bool \<Rightarrow> ('ch, 'fch, 'sch, 'w) System \<Rightarrow> ('ch, 'fch, 'sch, 'w) System option" where
  "sys_flush en ok s =
     (case flush_tick (en_events en) (en_frames en) (en_hash en) (en_uploader en) ok (sy_agent s) of
        (a, Flushed) \<Rightarrow> if ok then Some (s\<lparr>sy_agent := a, sy_stream := sy_stream s @ [last (ag_sent a)]\<rparr>) else None
      | (a, Nothing_To_Send) \<Rightarrow> Some (s\<lparr>sy_agent := a\<rparr>)
      | (a, Send_Failed) \<Rightarrow> if ok then None else Some (s\<lparr>sy_agent := a, sy_ledger := (sy_ledger s)
          \<lparr>ld_cut := ld_cut (sy_ledger s) @ drained en s\<rparr>\<rparr>)
      | (a, Flush_Panic) \<Rightarrow> None)"

definition sys_run ::
  "('ch, 'fch, 'sch, 'w) Env \<Rightarrow> ('ch, 'fch, 'sch, 'w) System \<Rightarrow> label \<Rightarrow> ('ch, 'fch, 'sch, 'w) System option" where
  "sys_run en s l =
     (case l of
        S_Receive rl \<Rightarrow> map_option (\<lambda>r. (put_receiver r s)\<lparr>sy_ledger := (sy_ledger s)
            \<lparr>ld_log := ld_log (sy_ledger s) @ step_pushes (receiver_of s) rl,
             ld_overflow := ld_overflow (sy_ledger s)
               @ refused_pushes (en_events en) (ag_ring (sy_agent s)) (step_pushes (receiver_of s) rl)\<rparr>\<rparr>)
          (recv_run (en_codec en) (en_events en) (receiver_of s) rl)
      | S_Frame f \<Rightarrow> Some
          (s\<lparr>sy_agent := (sy_agent s)\<lparr>ag_ring := ring_push_frame (en_frames en) f (ag_ring (sy_agent s))\<rparr>\<rparr>)
      | S_Flush ok \<Rightarrow> sys_flush en ok s
      | S_Report \<Rightarrow> Some
          (s\<lparr>sy_agent := (sy_agent s)\<lparr>ag_ring := snd (take_dropped_frames (snd (take_dropped (ag_ring (sy_agent s)))))\<rparr>,
             sy_ledger := (sy_ledger s)
               \<lparr>ld_reported := ld_reported (sy_ledger s) + fst (take_dropped (ag_ring (sy_agent s)))\<rparr>\<rparr>)
      | S_Disconnect \<Rightarrow> Some
          (s\<lparr>sy_agent := (sy_agent s)\<lparr>ag_interner := interner_reset (ag_interner (sy_agent s))\<rparr>, sy_stream := [],
             sy_ledger := (sy_ledger s)\<lparr>ld_cut := ld_cut (sy_ledger s) @ concat (map b_events (sy_stream s))\<rparr>\<rparr>)
      | S_Collect clk_off clk_ev \<Rightarrow>
          (case sy_stream s of
             [] \<Rightarrow> None
           | b # bs \<Rightarrow>
               let (svc, out) = ingest_batch clk_off clk_ev b (sy_svc s)
               in map_option (\<lambda>(svc', lost). s\<lparr>sy_stream := bs, sy_svc := svc', sy_ledger := (sy_ledger s)
                    \<lparr>ld_refused := ld_refused (sy_ledger s) @ lost\<rparr>\<rparr>) (hand_to_sink (en_try_send en) out svc))
      | S_Other m \<Rightarrow>
          (case m of
             Msg_Batch _ \<Rightarrow> None
           | _ \<Rightarrow> (case en_try_send en m (cv_sink (sy_svc s)) of
                    (ch, Inr _) \<Rightarrow> Some (s\<lparr>sy_svc := (sy_svc s)\<lparr>cv_sink := ch\<rparr>\<rparr>)
                  | _ \<Rightarrow> None))
      | S_Sink_Recv clk \<Rightarrow> map_option (\<lambda>(m, ch). s\<lparr>sy_svc := (sy_svc s)\<lparr>cv_sink := ch\<rparr>,
            sy_sink := sink_step (en_client en) (en_sink en) (sy_sink s) (Recv m clk),
            sy_ledger := (sy_ledger s)\<lparr>ld_sunk := ld_sunk (sy_ledger s) @ [Recv m clk]\<rparr>\<rparr>)
          (en_recv en (cv_sink (sy_svc s)))
      | S_Sink_Tick \<Rightarrow> Some
          (s\<lparr>sy_sink := sink_step (en_client en) (en_sink en) (sy_sink s) Tick,
             sy_ledger := (sy_ledger s)\<lparr>ld_sunk := ld_sunk (sy_ledger s) @ [Tick]\<rparr>\<rparr>))"

lemma sys_run_step: "sys_run en s l = Some s' \<Longrightarrow> sys_step en s l s'"
  by (cases l)
    (auto simp: sys_run_def sys_flush_def recv_run_iff simp del: sink_step.simps
      split: list.splits prod.splits SinkMsg.splits sum.splits flush_result.splits if_splits
      intro: sys_step.intros)

fun sys_runs ::
  "('ch, 'fch, 'sch, 'w) Env \<Rightarrow> ('ch, 'fch, 'sch, 'w) System \<Rightarrow> label list \<Rightarrow> ('ch, 'fch, 'sch, 'w) System option" where
  "sys_runs en s [] = Some s"
| "sys_runs en s (l # ls) = Option.bind (sys_run en s l) (\<lambda>s'. sys_runs en s' ls)"

lemma sys_runs_exec: "sys_exec en s0 ks s \<Longrightarrow> sys_runs en s ls = Some s' \<Longrightarrow> sys_exec en s0 (ks @ ls) s'"
proof (induction ls arbitrary: ks s)
  case (Cons l ls)
  then obtain t where "sys_run en s l = Some t" "sys_runs en t ls = Some s'"
    by (auto simp: Option.bind_eq_Some_conv)
  with Cons.IH [of "ks @ [l]" t] Cons.prems(1) show ?case
    by (auto intro: sys_exec.step sys_run_step)
qed simp

text \<open>The start: the agent's ring, the collector and the database as they are brought up.\<close>

definition ledger_new :: Ledger where
  "ledger_new = \<lparr>ld_log = [], ld_overflow = [], ld_cut = [], ld_refused = [], ld_reported = 0, ld_sunk = []\<rparr>"

definition system_new ::
  "('ch, 'fch) EventRing \<Rightarrow> ClockOffset \<Rightarrow> 'sch CollectorSvc \<Rightarrow> 'w \<Rightarrow> ('ch, 'fch, 'sch, 'w) System" where
  "system_new ring off svc w =
     \<lparr>sy_conns = [], sy_listening = True,
      sy_agent = \<lparr>ag_ring = ring, ag_interner = interner_new, ag_offsets = handle_new off, ag_sent = []\<rparr>,
      sy_stream = [], sy_svc = svc, sy_sink = sink_init w, sy_ledger = ledger_new\<rparr>"

section \<open>Where the events are\<close>

text \<open>
  An event without its time stamp, which the agent and the collector correct on the way, and
  what a list of events is for the database: without the metrics, and up to time stamps.
\<close>

definition core :: "Event \<Rightarrow> Event" where
  "core e = e\<lparr>e_ts_ns := 0\<rparr>"

definition kept :: "Event list \<Rightarrow> Event list" where
  "kept es = map core (filter (\<lambda>e. \<not> is_cat Cat_Metric e) es)"

lemma kept_append [simp]: "kept [] = []" "kept (es @ es') = kept es @ kept es'"
  by (simp_all add: kept_def)

text \<open>A change of time stamps does not change what is kept.\<close>

lemma core_category: "core e = core e' \<Longrightarrow> e_category e = e_category e'"
  by (cases e; cases e') (simp add: core_def)

lemma kept_list_all2: "list_all2 (\<lambda>e' e. core e' = core e) es' es \<Longrightarrow> kept es' = kept es"
  by (induction rule: list_all2_induct) (auto simp: kept_def is_cat_def dest: core_category)

lemma kept_skew: "kept (map (skew_event t) (filter (\<lambda>e. \<not> is_cat Cat_Metric e) es)) = kept es"
proof -
  have "kept (map (skew_event t) xs) = kept xs" for xs
    by (rule kept_list_all2) (simp add: list_all2_conv_all_nth core_def skew_event_def)
  moreover have "kept (filter (\<lambda>e. \<not> is_cat Cat_Metric e) es) = kept es" by (simp add: kept_def)
  ultimately show ?thesis by metis
qed

lemma correct_event_core: "correct_event off e = Some e' \<Longrightarrow> core e' = core e"
  by (auto simp: correct_event_def core_def split: if_splits)

lemma kept_corrected: "those (map (correct_event off) es) = Some es' \<Longrightarrow> kept es' = kept es"
proof (rule kept_list_all2)
  show "those (map (correct_event off) es) = Some es' \<Longrightarrow> list_all2 (\<lambda>e' e. core e' = core e) es' es"
    by (induction es arbitrary: es') (auto split: option.splits intro: correct_event_core)
qed

text \<open>
  The account of a path: what is on it is a part of what was pushed, in the same order, and
  what is missing is in one of the accounts.
\<close>

definition accounted ::
  "Event list \<Rightarrow> Event list \<Rightarrow> Event list \<Rightarrow> Event list \<Rightarrow> Event list \<Rightarrow> bool" where
  "accounted all path over lost refused \<longleftrightarrow>
     subseq (kept path) (kept all)
   \<and> mset (kept all) = mset (kept path) + mset (kept over) + mset (kept lost) + mset (kept refused)"

lemma accounted_path: "kept path = kept path' \<Longrightarrow> accounted p path o' c r \<longleftrightarrow> accounted p path' o' c r"
  by (simp add: accounted_def)

lemma accounted_push: "accounted p path o' c r \<Longrightarrow> accounted (p @ [e]) (path @ [e]) o' c r"
  by (auto simp: accounted_def intro: list_emb_append_mono)

lemma accounted_overflow: "accounted p path o' c r \<Longrightarrow> accounted (p @ [e]) path (o' @ [e]) c r"
  by (auto simp: accounted_def intro: subseq_order.trans [OF _ list_emb_append2])

lemma subseq_middle: "subseq (a @ b @ d) p \<Longrightarrow> subseq (a @ d) p"
  by (rule subseq_order.trans [of _ "a @ b @ d"]) (simp_all add: subseq_append' list_emb_append2)

lemma accounted_cut: "accounted p (a @ b @ d) o' c r \<Longrightarrow> accounted p (a @ d) o' (c @ b) r"
  by (auto simp: accounted_def intro: subseq_middle)

lemma accounted_refused: "accounted p (a @ b @ d) o' c r \<Longrightarrow> accounted p (a @ d) o' c (r @ b)"
  by (auto simp: accounted_def intro: subseq_middle)

section \<open>What each part does to the path\<close>

lemma push_account:
  assumes "bounded_fifo c cap q"
  shows "q (rg_events (ring_push c e r)) = q (rg_events r) @ (if refused_pushes c r [(i, e)] = [] then [e] else [])
    \<and> rg_dropped (ring_push c e r) = rg_dropped r + of_nat (length (refused_pushes c r [(i, e)]))
    \<and> refused_pushes c r [(i, e)] \<in> {[], [e]}"
  using bounded_fifo.send_ok [OF assms, of "rg_events r" e] bounded_fifo.send_full [OF assms, of "rg_events r" e]
  by (cases "length (q (rg_events r)) < cap") (auto simp: ring_push_def refused_pushes_def Let_def split: prod.splits)

text \<open>A flush takes the oldest events off the ring, and sends them up to time stamps.\<close>

lemma flush_account:
  assumes "bounded_fifo ec cap q" "flush_tick ec fc h cfg ok st = (st', res)" "res \<noteq> Flush_Panic"
  shows "fst (drain_up_to ec (uc_max_batch_events cfg) (ag_ring st)) @ q (rg_events (ag_ring st')) = q (rg_events (ag_ring st))"
    and "rg_dropped (ag_ring st') = rg_dropped (ag_ring st)"
    and "res = Nothing_To_Send \<Longrightarrow> fst (drain_up_to ec (uc_max_batch_events cfg) (ag_ring st)) = []"
    and "res = Flushed \<Longrightarrow> kept (b_events (last (ag_sent st'))) =
      kept (fst (drain_up_to ec (uc_max_batch_events cfg) (ag_ring st)))"
proof -
  let ?n = "uc_max_batch_events cfg"
  obtain es r1 where d: "drain_up_to ec ?n (ag_ring st) = (es, r1)" by fastforce
  have q: "es @ q (rg_events r1) = q (rg_events (ag_ring st))" "rg_dropped r1 = rg_dropped (ag_ring st)"
    using d bounded_fifo.recv_up_to_take [OF assms(1), of ?n "rg_events (ag_ring st)"]
    by (auto simp: drain_up_to_def split: prod.splits)
  have "drain_frames fc r1 \<noteq> None"
    using assms(2,3) by (cases "drain_frames fc r1") (auto simp: flush_tick_def d)
  then obtain fs ch where f: "drain_frames fc r1 = Some (fs, r1\<lparr>rg_frames := ch\<rparr>)"
    by (auto simp: drain_frames_def)
  note flush = assms(2) [unfolded flush_tick_def]
  have ring: "ag_ring st' = r1\<lparr>rg_frames := ch\<rparr>"
    using flush assms(3) by (auto simp: d f Let_def split: if_splits option.splits prod.splits)
  show "fst (drain_up_to ec ?n (ag_ring st)) @ q (rg_events (ag_ring st')) = q (rg_events (ag_ring st))"
    "rg_dropped (ag_ring st') = rg_dropped (ag_ring st)"
    using q by (simp_all add: d ring)
  show "res = Nothing_To_Send \<Longrightarrow> fst (drain_up_to ec ?n (ag_ring st)) = []"
    using flush by (auto simp: d f Let_def split: if_splits option.splits prod.splits)
  show "res = Flushed \<Longrightarrow> kept (b_events (last (ag_sent st'))) = kept (fst (drain_up_to ec ?n (ag_ring st)))"
    using flush by (auto simp: d f Let_def kept_corrected split: if_splits option.splits prod.splits)
qed

definition batch_events :: "SinkMsg \<Rightarrow> Event list" where
  "batch_events m = (case m of Msg_Batch b \<Rightarrow> b_events b | _ \<Rightarrow> [])"

lemma msg_events_Recv: "msg_events (Recv m clk) = batch_events m"
  by (cases m) (simp_all add: batch_events_def)

text \<open>The collector puts what it keeps of a batch into the sink's channel or refuses all of it.\<close>

lemma collect_account:
  assumes "mpsc_channel ts rv cap msgs" "ingest_batch clk_off clk_ev b svc = (svc1, out)"
    and "hand_to_sink ts out svc1 = Some (svc2, lost)"
  shows "(lost = [] \<and> msgs (cv_sink svc2) = msgs (cv_sink svc) @ [Msg_Batch out]
       \<or> lost = b_events out \<and> msgs (cv_sink svc2) = msgs (cv_sink svc))
    \<and> kept (b_events out) = kept (b_events b)"
proof -
  have i: "svc1 = fst (ingest_batch clk_off clk_ev b svc)" "out = snd (ingest_batch clk_off clk_ev b svc)"
    using assms(2) by simp_all
  have s: "cv_sink svc1 = cv_sink svc" by (simp add: i ingest_batch_split)
  have k: "kept (b_events out) = kept (b_events b)" by (simp add: i ingest_batch_split kept_skew)
  have "lost = [] \<and> msgs (cv_sink svc2) = msgs (cv_sink svc) @ [Msg_Batch out]
      \<or> lost = b_events out \<and> msgs (cv_sink svc2) = msgs (cv_sink svc)"
    using assms(3) mpsc_channel.send_room [OF assms(1), of "cv_sink svc" "Msg_Batch out"]
      mpsc_channel.send_full [OF assms(1), of "cv_sink svc" "Msg_Batch out"]
    by (cases "length (msgs (cv_sink svc)) < cap")
      (auto simp: hand_to_sink_def s try_push_result [OF mpsc_channel.hands_back [OF assms(1)]])
  with k show ?thesis by simp
qed

section \<open>The invariant\<close>

text \<open>
  The path from the ring to the sink's task: what the task has taken, what is in its channel,
  what is on the stream and what is in the ring, oldest first.
\<close>

definition on_path ::
  "('ch \<Rightarrow> Event list) \<Rightarrow> ('sch \<Rightarrow> SinkMsg list) \<Rightarrow> ('ch, 'fch, 'sch, 'w) System \<Rightarrow> Event list" where
  "on_path q msgs s =
     concat (map msg_events (ld_sunk (sy_ledger s))) @ concat (map batch_events (msgs (cv_sink (sy_svc s))))
     @ concat (map b_events (sy_stream s)) @ q (rg_events (ag_ring (sy_agent s)))"

text \<open>The part of the trace that concerns the receiver.\<close>

definition received :: "label list \<Rightarrow> recv_label list" where
  "received ls = List.map_filter (\<lambda>l. case l of S_Receive r \<Rightarrow> Some r | _ \<Rightarrow> None) ls"

lemma received_snoc: "received (ls @ [l]) = received ls @ (case l of S_Receive r \<Rightarrow> [r] | _ \<Rightarrow> [])"
  by (simp add: received_def List.map_filter_def split: label.splits)

definition sys_inv ::
  "('ch, 'fch, 'sch, 'w) Env \<Rightarrow> ('ch \<Rightarrow> Event list) \<Rightarrow> ('sch \<Rightarrow> SinkMsg list) \<Rightarrow> 'w \<Rightarrow> label list
     \<Rightarrow> ('ch, 'fch, 'sch, 'w) System \<Rightarrow> bool" where
  "sys_inv en q msgs w ls s \<longleftrightarrow>
     accounted (map snd (ld_log (sy_ledger s))) (on_path q msgs s) (ld_overflow (sy_ledger s))
       (ld_cut (sy_ledger s)) (ld_refused (sy_ledger s))
   \<and> rg_dropped (ag_ring (sy_agent s)) + ld_reported (sy_ledger s) = of_nat (length (ld_overflow (sy_ledger s)))
   \<and> sy_sink s = sink_loop (en_client en) (en_sink en) w (ld_sunk (sy_ledger s))
   \<and> conns_inv (en_codec en) (accepted (received ls)) (ld_log (sy_ledger s)) (sy_conns s)"

lemmas inv_simps = sys_inv_def on_path_def received_snoc

text \<open>
  The channels of the surroundings are bounded queues, of which \<open>q\<close> and \<open>msgs\<close> are the contents.
\<close>

definition channels_ok ::
  "('ch, 'fch, 'sch, 'w) Env \<Rightarrow> nat \<Rightarrow> ('ch \<Rightarrow> Event list) \<Rightarrow> nat \<Rightarrow> ('sch \<Rightarrow> SinkMsg list) \<Rightarrow> bool" where
  "channels_ok en cap q scap msgs \<longleftrightarrow>
     bounded_fifo (en_events en) cap q \<and> mpsc_channel (en_try_send en) (en_recv en) scap msgs"

lemma inv_receive:
  assumes "channels_ok en cap q scap msgs" "sys_inv en q msgs w ls s"
    and "recv_step (en_codec en) (en_events en) (receiver_of s) l r"
  shows "sys_inv en q msgs w (ls @ [S_Receive l]) ((put_receiver r s)\<lparr>sy_ledger := (sy_ledger s)
      \<lparr>ld_log := ld_log (sy_ledger s) @ step_pushes (receiver_of s) l,
       ld_overflow := ld_overflow (sy_ledger s)
         @ refused_pushes (en_events en) (ag_ring (sy_agent s)) (step_pushes (receiver_of s) l)\<rparr>\<rparr>)"
proof -
  note inv = assms(2) [unfolded sys_inv_def on_path_def]
  note ring = recv_step_ring [OF assms(3)]
  have conns: "conns_inv (en_codec en) (accepted (received ls @ [l]))
      (ld_log (sy_ledger s) @ step_pushes (receiver_of s) l) (rv_conns r)"
    using inv by (intro conns_inv_step [OF _ assms(3)]) simp
  show ?thesis
  proof (cases "step_pushes (receiver_of s) l")
    case Nil
    then show ?thesis
      using inv conns ring by (simp add: inv_simps put_receiver_def refused_pushes_def)
  next
    case (Cons p ps)
    then obtain i e where p: "step_pushes (receiver_of s) l = [(i, e)]"
      by (auto simp: step_pushes_def split: recv_label.splits)
    note pa = push_account [of "en_events en" cap q e "ag_ring (sy_agent s)" i]
    let ?R = "refused_pushes (en_events en) (ag_ring (sy_agent s)) [(i, e)]"
    have "?R \<in> {[], [e]}" using pa assms(1) by (simp add: channels_ok_def)
    then consider "?R = []" | "?R = [e]" by blast
    then show ?thesis
    proof cases
      case 1
      then show ?thesis
        using inv conns ring pa assms(1) accounted_push [of "map snd (ld_log (sy_ledger s))" _ _ _ _ e]
        by (simp add: inv_simps put_receiver_def p channels_ok_def flip: append_assoc)
    next
      case 2
      then show ?thesis
        using inv conns ring pa assms(1) accounted_overflow [of "map snd (ld_log (sy_ledger s))" _ _ _ _ e]
        by (simp add: inv_simps put_receiver_def p channels_ok_def ac_simps)
    qed
  qed
qed

text \<open>A change of the state that moves events along the path, or from it into an account.\<close>

lemma inv_flush:
  assumes "channels_ok en cap q scap msgs" "sys_inv en q msgs w ls s" "res \<noteq> Flush_Panic"
    and "flush_tick (en_events en) (en_frames en) (en_hash en) (en_uploader en) ok (sy_agent s) = (a, res)"
  shows "res = Flushed \<Longrightarrow>
      sys_inv en q msgs w (ls @ [S_Flush ok]) (s\<lparr>sy_agent := a, sy_stream := sy_stream s @ [last (ag_sent a)]\<rparr>)"
    and "res = Nothing_To_Send \<Longrightarrow> sys_inv en q msgs w (ls @ [S_Flush ok]) (s\<lparr>sy_agent := a\<rparr>)"
    and "sys_inv en q msgs w (ls @ [S_Flush ok]) (s\<lparr>sy_agent := a, sy_ledger := (sy_ledger s)
      \<lparr>ld_cut := ld_cut (sy_ledger s) @ drained en s\<rparr>\<rparr>)"
proof -
  have fifo: "bounded_fifo (en_events en) cap q" using assms(1) by (simp add: channels_ok_def)
  note fl = flush_account [OF fifo assms(4,3), folded drained_def]
  note inv = assms(2) [unfolded sys_inv_def]
  let ?A = "concat (map msg_events (ld_sunk (sy_ledger s))) @ concat (map batch_events (msgs (cv_sink (sy_svc s))))
     @ concat (map b_events (sy_stream s))"
  have path: "on_path q msgs s = ?A @ drained en s @ q (rg_events (ag_ring a))"
    by (simp add: on_path_def fl(1))
  note acc = conjunct1 [OF inv, unfolded path]
  show "sys_inv en q msgs w (ls @ [S_Flush ok]) (s\<lparr>sy_agent := a, sy_ledger := (sy_ledger s)
      \<lparr>ld_cut := ld_cut (sy_ledger s) @ drained en s\<rparr>\<rparr>)"
    using inv fl(2) accounted_cut [OF acc] by (simp add: inv_simps)
  show "sys_inv en q msgs w (ls @ [S_Flush ok]) (s\<lparr>sy_agent := a\<rparr>)" if "res = Nothing_To_Send"
    using inv fl(2) acc fl(3) [OF that] by (simp add: inv_simps)
  show "sys_inv en q msgs w (ls @ [S_Flush ok]) (s\<lparr>sy_agent := a, sy_stream := sy_stream s @ [last (ag_sent a)]\<rparr>)"
    if "res = Flushed"
  proof -
    have "kept (?A @ b_events (last (ag_sent a)) @ q (rg_events (ag_ring a))) =
        kept (?A @ drained en s @ q (rg_events (ag_ring a)))"
      using fl(4) [OF that] by simp
    from accounted_path [OF this] acc inv fl(2) show ?thesis by (simp add: inv_simps)
  qed
qed

lemma inv_collect:
  assumes "channels_ok en cap q scap msgs" "sys_inv en q msgs w ls s" "sy_stream s = b # bs"
    and "ingest_batch clk_off clk_ev b (sy_svc s) = (svc, out)" "hand_to_sink (en_try_send en) out svc = Some (svc', lost)"
  shows "sys_inv en q msgs w (ls @ [S_Collect clk_off clk_ev]) (s\<lparr>sy_stream := bs, sy_svc := svc',
      sy_ledger := (sy_ledger s)\<lparr>ld_refused := ld_refused (sy_ledger s) @ lost\<rparr>\<rparr>)"
proof -
  have ch: "mpsc_channel (en_try_send en) (en_recv en) scap msgs" using assms(1) by (simp add: channels_ok_def)
  note col = collect_account [OF ch assms(4,5)]
  note inv = assms(2) [unfolded sys_inv_def]
  let ?A = "concat (map msg_events (ld_sunk (sy_ledger s))) @ concat (map batch_events (msgs (cv_sink (sy_svc s))))"
  let ?B = "concat (map b_events bs) @ q (rg_events (ag_ring (sy_agent s)))"
  have "kept (on_path q msgs s) = kept (?A @ b_events out @ ?B)"
    using col by (simp add: on_path_def assms(3))
  from accounted_path [OF this] inv
  have acc: "accounted (map snd (ld_log (sy_ledger s))) (?A @ b_events out @ ?B) (ld_overflow (sy_ledger s))
      (ld_cut (sy_ledger s)) (ld_refused (sy_ledger s))"
    by simp
  from conjunct1 [OF col] show ?thesis
  proof (elim disjE conjE)
    assume "lost = []" "msgs (cv_sink svc') = msgs (cv_sink (sy_svc s)) @ [Msg_Batch out]"
    then show ?thesis using inv acc by (simp add: inv_simps batch_events_def)
  next
    assume "lost = b_events out" "msgs (cv_sink svc') = msgs (cv_sink (sy_svc s))"
    then show ?thesis using inv accounted_refused [OF acc] by (simp add: inv_simps)
  qed
qed

lemma inv_other:
  assumes "channels_ok en cap q scap msgs" "sys_inv en q msgs w ls s"
    and "\<nexists>b. m = Msg_Batch b" "en_try_send en m (cv_sink (sy_svc s)) = (ch, Inr ())"
  shows "sys_inv en q msgs w (ls @ [S_Other m]) (s\<lparr>sy_svc := (sy_svc s)\<lparr>cv_sink := ch\<rparr>\<rparr>)"
proof -
  have mc: "mpsc_channel (en_try_send en) (en_recv en) scap msgs" using assms(1) by (simp add: channels_ok_def)
  have "msgs ch = msgs (cv_sink (sy_svc s)) @ [m]"
    using mpsc_channel.send_room [OF mc, of "cv_sink (sy_svc s)" m]
      mpsc_channel.send_full [OF mc, of "cv_sink (sy_svc s)" m] assms(4)
    by (cases "length (msgs (cv_sink (sy_svc s))) < scap") simp_all
  moreover have "batch_events m = []" using assms(3) by (cases m) (simp_all add: batch_events_def)
  ultimately show ?thesis using assms(2) by (simp add: inv_simps)
qed

theorem sys_inv_step:
  assumes "channels_ok en cap q scap msgs" "sys_inv en q msgs w ls s" "sys_step en s l s'"
  shows "sys_inv en q msgs w (ls @ [l]) s'"
  using assms(3)
proof (cases rule: sys_step.cases)
  case receive
  then show ?thesis using inv_receive [OF assms(1,2)] by blast
next
  case frame
  then show ?thesis
    using assms(2) by (simp add: inv_simps ring_push_frame_def Let_def split: prod.split sum.split cb_send_error.split)
next
  case flush_sent
  then show ?thesis using inv_flush(1) [OF assms(1,2)] by blast
next
  case flush_nothing
  then show ?thesis using inv_flush(2) [OF assms(1,2)] by blast
next
  case flush_failed
  then show ?thesis using inv_flush(3) [OF assms(1,2)] by blast
next
  case report
  then show ?thesis using assms(2) by (simp add: inv_simps take_dropped_def take_dropped_frames_def ac_simps)
next
  case disconnect
  then show ?thesis
    using assms(2) accounted_cut [of _ "concat (map msg_events (ld_sunk (sy_ledger s)))
        @ concat (map batch_events (msgs (cv_sink (sy_svc s))))" "concat (map b_events (sy_stream s))"]
    by (simp add: inv_simps)
next
  case collect
  then show ?thesis using inv_collect [OF assms(1,2)] by blast
next
  case other
  then show ?thesis using inv_other [OF assms(1,2)] by blast
next
  case (sink_recv m ch clk)
  then have "msgs (cv_sink (sy_svc s)) = m # msgs ch"
    using assms(1) mpsc_channel.recv_next by (metis channels_ok_def)
  with sink_recv assms(2) show ?thesis
    by (simp add: inv_simps sink_loop_snoc msg_events_Recv del: sink_step.simps)
next
  case sink_tick
  then show ?thesis using assms(2) by (simp add: inv_simps sink_loop_snoc del: sink_step.simps)
qed

lemma sys_exec_inv:
  assumes "channels_ok en cap q scap msgs" "sys_exec en (system_new ring off svc w) ls s"
    and "q (rg_events ring) = []" "rg_dropped ring = 0" "msgs (cv_sink svc) = []"
  shows "sys_inv en q msgs w ls s"
  using assms(2)
proof (induction rule: sys_exec.induct)
  case start
  show ?case
    using assms(3-5)
    by (simp add: inv_simps system_new_def ledger_new_def accounted_def sink_loop_def received_def accepted_def
        List.map_filter_def conns_inv_Nil)
next
  case (step ls s l s')
  then show ?case using sys_inv_step [OF assms(1)] by blast
qed

section \<open>Properties\<close>

text \<open>The rows of events for the database, and a row without its time stamp.\<close>

definition rows_of_events :: "Event list \<Rightarrow> Row list" where
  "rows_of_events es = map (\<lambda>e. Row_Event (event_row e)) (filter (\<lambda>e. \<not> is_cat Cat_Metric e) es)"

fun row_core :: "Row \<Rightarrow> Row" where
  "row_core (Row_Event r) = Row_Event (r\<lparr>er_ts_ns := 0\<rparr>)"
| "row_core r = r"

lemma event_row_core: "event_row (core e) = (event_row e)\<lparr>er_ts_ns := 0\<rparr>"
  by (simp add: core_def event_row_def event_row_base_def Let_def split: option.split Payload.split)

lemma rows_of_events_core: "map row_core (rows_of_events es) = map (\<lambda>e. Row_Event (event_row e)) (kept es)"
  by (simp add: rows_of_events_def kept_def event_row_core)

lemma sunk_rows: "absorbed ''events'' evs = rows_of_events (concat (map msg_events evs))"
  by (simp add: absorbed_events rows_of_events_def event_rows_def is_cat_def)

text \<open>Nothing is between the receiver and the database, and nothing was lost on the way.\<close>

definition delivered :: "('ch \<Rightarrow> Event list) \<Rightarrow> ('sch \<Rightarrow> SinkMsg list) \<Rightarrow> ('ch, 'fch, 'sch, 'w) System \<Rightarrow> bool" where
  "delivered q msgs s \<longleftrightarrow>
     q (rg_events (ag_ring (sy_agent s))) = [] \<and> sy_stream s = [] \<and> msgs (cv_sink (sy_svc s)) = []
   \<and> pd_events (sk_pending (sy_sink s)) = [] \<and> no_failure (sk_log (sy_sink s))
   \<and> ld_overflow (sy_ledger s) = [] \<and> ld_cut (sy_ledger s) = [] \<and> ld_refused (sy_ledger s) = []"

lemma delivered_rows:
  assumes "sys_inv en q msgs w ls s" "delivered q msgs s"
  shows "map row_core (acked ''events'' (sk_log (sy_sink s))) =
    map (\<lambda>e. Row_Event (event_row e)) (kept (map snd (ld_log (sy_ledger s))))"
proof -
  let ?sunk = "concat (map msg_events (ld_sunk (sy_ledger s)))"
  have "on_path q msgs s = ?sunk" using assms(2) by (simp add: on_path_def delivered_def)
  then have acc: "accounted (map snd (ld_log (sy_ledger s))) ?sunk [] [] []"
    using assms by (simp add: sys_inv_def delivered_def)
  then have "length (kept ?sunk) = length (kept (map snd (ld_log (sy_ledger s))))"
    by (simp add: accounted_def) (metis mset_eq_length)
  then have "kept ?sunk = kept (map snd (ld_log (sy_ledger s)))"
    using acc by (simp add: accounted_def subseq_same_length)
  moreover have "acked ''events'' (sk_log (sy_sink s)) = rows_of_events ?sunk"
    using assms sink_loop_invariants [of "ld_sunk (sy_ledger s)" "en_client en" "en_sink en" w]
    by (auto simp: sys_inv_def delivered_def in_order_def rows_for_def sunk_rows dest!: spec [of _ "''events''"])
  ultimately show ?thesis by (simp add: rows_of_events_core)
qed

text \<open>
  C1: No event disappears between a CUDA program and the database without being accounted for.
  Any number of injectors are connected to one agent, which uploads to a collector; their tasks,
  the uploader's flushes and lost connections, the collector and the sink interleave in any way,
  and any insert may fail. At every moment, up to the corrections of time stamps and leaving out
  metrics: the events that the sink has taken, then those in its channel, on the stream and in
  the ring, in this order, are a subsequence of the events pushed by the receiver; the events
  missing are those that the ring had no room for, those on a stream that broke and those that
  the sink had no room for; the agent's counter and its reports give the number of the first;
  what the sink has taken is acknowledged by the database or pending; and each connection has
  pushed a prefix of the events of its complete batches.
\<close>

theorem events_accounted_for:
  assumes "channels_ok en cap q scap msgs" "q (bounded cap) = []" "msgs (cv_sink svc) = []" "codec_ok (en_codec en)"
    and "sys_exec en (system_new (event_ring_new bounded bounded_f cap) off svc w) ls s"
    and "list_all2 (sent (en_codec en)) (accepted (received ls)) bss"
  shows "subseq (kept (on_path q msgs s)) (kept (map snd (ld_log (sy_ledger s))))
    \<and> mset (kept (map snd (ld_log (sy_ledger s)))) = mset (kept (on_path q msgs s))
        + mset (kept (ld_overflow (sy_ledger s))) + mset (kept (ld_cut (sy_ledger s))) + mset (kept (ld_refused (sy_ledger s)))
    \<and> dropped_count (ag_ring (sy_agent s)) + ld_reported (sy_ledger s) = of_nat (length (ld_overflow (sy_ledger s)))
    \<and> set (rows_of_events (concat (map msg_events (ld_sunk (sy_ledger s))))) =
        set (acked ''events'' (sk_log (sy_sink s))) \<union> set (rows_for ''events'' (sk_pending (sy_sink s)))
    \<and> (\<forall>i < length bss. prefix (pushed_by i (ld_log (sy_ledger s))) (concat (map b_events (bss ! i))))"
proof -
  have inv: "sys_inv en q msgs w ls s"
    using assms(2,3) by (intro sys_exec_inv [OF assms(1,5)]) (simp_all add: event_ring_new_def)
  have "all_held (\<lambda>t. absorbed t (ld_sunk (sy_ledger s))) (sy_sink s)"
      "none_invented (\<lambda>t. absorbed t (ld_sunk (sy_ledger s))) (sy_sink s)"
    using inv sink_loop_invariants by (metis sys_inv_def)+
  then have "set (absorbed ''events'' (ld_sunk (sy_ledger s))) =
      set (acked ''events'' (sk_log (sy_sink s))) \<union> set (rows_for ''events'' (sk_pending (sy_sink s)))"
    by (fastforce simp: all_held_def set_acked dest: none_inventedD)
  with inv conns_inv_delivered(1) [OF assms(4) _ assms(6)] show ?thesis
    by (auto simp: sys_inv_def accounted_def dropped_count_def sunk_rows)
qed

text \<open>
  C15: A run without losses stores everything. When the receiver's tasks have come to rest and
  nothing is on the way any more, when the ring and the sink always had room, no connection
  broke and no insert failed, then the acknowledged rows of the events table are, in order and up
  to time stamps, the rows of the events pushed, and these are for each connection exactly the
  events of its complete batches in their order.
\<close>

theorem lossless_run_stores_all:
  assumes "channels_ok en cap q scap msgs" "q (bounded cap) = []" "msgs (cv_sink svc) = []" "codec_ok (en_codec en)"
    and "sys_exec en (system_new (event_ring_new bounded bounded_f cap) off svc w) ls s"
    and "list_all2 (sent (en_codec en)) (accepted (received ls)) bss"
    and "quiescent (en_codec en) (receiver_of s)" "delivered q msgs s"
  shows "\<exists>lg. map row_core (acked ''events'' (sk_log (sy_sink s))) =
      map (\<lambda>e. Row_Event (event_row e)) (kept (map snd lg))
    \<and> (\<forall>i < length bss. pushed_by i lg = concat (map b_events (bss ! i)))
    \<and> list_all (\<lambda>p. fst p < length bss) lg"
proof -
  have inv: "sys_inv en q msgs w ls s"
    using assms(2,3) by (intro sys_exec_inv [OF assms(1,5)]) (simp_all add: event_ring_new_def)
  then have c: "conns_inv (en_codec en) (accepted (received ls)) (ld_log (sy_ledger s)) (sy_conns s)"
    by (simp add: sys_inv_def)
  moreover have "length (accepted (received ls)) = length bss" using assms(6) by (rule list_all2_lengthD)
  ultimately show ?thesis
    using delivered_rows [OF inv assms(8)] conns_inv_delivered(2) [OF assms(4) c assms(6)] assms(7)
    by (intro exI [of _ "ld_log (sy_ledger s)"]) (auto simp: quiescent_def conns_inv_def)
qed

text \<open>Two injectors, of which one has no chance before the connection to the collector breaks.\<close>

definition demo_env :: "(Event list, MetricFrame list, SinkMsg list, unit) Env" where
  "demo_env =
     \<lparr>en_codec = unary_codec, en_events = queue_channel 8, en_frames = queue_channel 8, en_hash = (\<lambda>s. 0),
      en_uploader = uploader_cfg0, en_try_send = mpsc_try_send 4, en_recv = mpsc_recv, en_client = ok_client,
      en_sink = small_config\<rparr>"

definition demo_start :: "(Event list, MetricFrame list, SinkMsg list, unit) System" where
  "demo_start = system_new (event_ring_new (\<lambda>n. []) (\<lambda>n. []) 8) sample_clock svc0 ()"

definition demo_accept :: "label list" where
  "demo_accept = map S_Receive [L_Accept [1, 0, 0, 0, 7], L_Accept [1, 0, 0, 0, 7], L_Read 1, L_Push 1, L_Read 0]"

definition demo_store :: "label list" where
  "demo_store = [S_Flush True, S_Collect (\<lambda>i. 0) (\<lambda>i. 0), S_Sink_Recv (\<lambda>i. 0), S_Sink_Tick]"

definition demo_whole :: "label list" where
  "demo_whole = demo_accept @ demo_store @ [S_Receive (L_Push 0)] @ demo_store"

definition demo_broken :: "label list" where
  "demo_broken = demo_accept @ [S_Flush True, S_Disconnect] @ [S_Receive (L_Push 0)] @ demo_store"

lemma demo_channels: "channels_ok demo_env 8 (\<lambda>ms. ms) 4 (\<lambda>ms. ms)"
  using queue.bounded_fifo_axioms [of 8] mpsc.mpsc_channel_axioms [of 4] by (simp add: channels_ok_def demo_env_def)

lemma demo_sent:
  "list_all2 (sent unary_codec) (accepted (received demo_whole)) [[one_batch], [one_batch]]"
  "list_all2 (sent unary_codec) (accepted (received demo_broken)) [[one_batch], [one_batch]]"
proof -
  have "wire unary_codec one_batch = [1, 0, 0, 0, 7]" by code_simp
  then have "sent unary_codec [1, 0, 0, 0, 7] [one_batch]" using one_batch_ok(3) by simp
  moreover have "accepted (received demo_whole) = [[1, 0, 0, 0, 7], [1, 0, 0, 0, 7]]"
      "accepted (received demo_broken) = [[1, 0, 0, 0, 7], [1, 0, 0, 0, 7]]"
    by code_simp+
  ultimately show "list_all2 (sent unary_codec) (accepted (received demo_whole)) [[one_batch], [one_batch]]"
    "list_all2 (sent unary_codec) (accepted (received demo_broken)) [[one_batch], [one_batch]]"
    by simp_all
qed

lemma demo_read: "read_batch unary_codec [1, 0, 0, 0, 7] = Some ([tick_event 1], [])"
proof -
  have "wire unary_codec one_batch = [1, 0, 0, 0, 7]" by code_simp
  then show ?thesis using one_batch_ok(4) by simp
qed

text \<open>The state once both injectors are read and the second one has pushed its event.\<close>

definition demo_middle :: "(Event list, MetricFrame list, SinkMsg list, unit) System" where
  "demo_middle = demo_start
     \<lparr>sy_conns := [([tick_event 1], []), ([], [])],
      sy_agent := (sy_agent demo_start)\<lparr>ag_ring := (ag_ring (sy_agent demo_start))\<lparr>rg_events := [tick_event 1]\<rparr>\<rparr>,
      sy_ledger := ledger_new\<lparr>ld_log := [(1, tick_event 1)]\<rparr>\<rparr>"

lemma demo_accepts: "sys_runs demo_env demo_start demo_accept = Some demo_middle"
  by (simp add: demo_accept_def demo_env_def demo_start_def demo_middle_def system_new_def event_ring_new_def
      sys_run_def recv_run_def receiver_of_def put_receiver_def demo_read ring_push_def queue_channel_def
      step_pushes_def refused_pushes_def ledger_new_def)

lemma demo_whole_run:
  "case sys_runs demo_env demo_middle (demo_store @ [S_Receive (L_Push 0)] @ demo_store) of
     Some s \<Rightarrow> quiescent unary_codec (receiver_of s) \<and> delivered (\<lambda>ms. ms) (\<lambda>ms. ms) s
       \<and> length (acked ''events'' (sk_log (sy_sink s))) = 2
   | None \<Rightarrow> False"
  by code_simp

lemma demo_broken_run:
  "case sys_runs demo_env demo_middle ([S_Flush True, S_Disconnect, S_Receive (L_Push 0)] @ demo_store) of
     Some s \<Rightarrow> length (ld_cut (sy_ledger s)) = 1 \<and> length (acked ''events'' (sk_log (sy_sink s))) = 1
   | None \<Rightarrow> False"
  by code_simp

lemma demo_exec:
  assumes "sys_runs demo_env demo_middle ls = Some s"
  shows "sys_exec demo_env (system_new (event_ring_new (\<lambda>n. []) (\<lambda>n. []) 8) sample_clock svc0 ()) (demo_accept @ ls) s"
  using sys_runs_exec [OF sys_runs_exec [OF sys_exec.start demo_accepts] assms] by (simp add: demo_start_def)

lemma demo_empty: "cv_sink svc0 = []" "codec_ok (en_codec demo_env)"
  using one_batch_ok(1) by (simp_all add: svc0_def collector_new_def demo_env_def)

theorem events_accounted_for_witness:
  "\<exists>s. sys_exec demo_env (system_new (event_ring_new (\<lambda>n. []) (\<lambda>n. []) 8) sample_clock svc0 ()) demo_broken s
    \<and> length (ld_cut (sy_ledger s)) = 1 \<and> length (acked ''events'' (sk_log (sy_sink s))) = 1
    \<and> subseq (kept (on_path (\<lambda>ms. ms) (\<lambda>ms. ms) s)) (kept (map snd (ld_log (sy_ledger s))))
    \<and> prefix (pushed_by 0 (ld_log (sy_ledger s))) [tick_event 1]"
proof -
  obtain s where r: "sys_runs demo_env demo_middle ([S_Flush True, S_Disconnect, S_Receive (L_Push 0)] @ demo_store) = Some s"
      and n: "length (ld_cut (sy_ledger s)) = 1" "length (acked ''events'' (sk_log (sy_sink s))) = 1"
    using demo_broken_run by (auto split: option.splits)
  have x: "sys_exec demo_env (system_new (event_ring_new (\<lambda>n. []) (\<lambda>n. []) 8) sample_clock svc0 ()) demo_broken s"
    using demo_exec [OF r] by (simp add: demo_broken_def)
  have "list_all2 (sent (en_codec demo_env)) (accepted (received demo_broken)) [[one_batch], [one_batch]]"
    using demo_sent(2) by (simp add: demo_env_def)
  from events_accounted_for [OF demo_channels _ demo_empty x this] n x show ?thesis
    by (intro exI [of _ s]) (simp add: one_batch_def batch_of_def less_Suc_eq)
qed

theorem lossless_run_stores_all_witness:
  "\<exists>s lg. sys_exec demo_env (system_new (event_ring_new (\<lambda>n. []) (\<lambda>n. []) 8) sample_clock svc0 ()) demo_whole s
    \<and> map row_core (acked ''events'' (sk_log (sy_sink s))) = map (\<lambda>e. Row_Event (event_row e)) (kept (map snd lg))
    \<and> length (acked ''events'' (sk_log (sy_sink s))) = 2
    \<and> pushed_by 0 lg = [tick_event 1] \<and> pushed_by 1 lg = [tick_event 1]"
proof -
  obtain s where r: "sys_runs demo_env demo_middle (demo_store @ [S_Receive (L_Push 0)] @ demo_store) = Some s"
      and d: "quiescent (en_codec demo_env) (receiver_of s)" "delivered (\<lambda>ms. ms) (\<lambda>ms. ms) s"
      and n: "length (acked ''events'' (sk_log (sy_sink s))) = 2"
    using demo_whole_run by (auto simp: demo_env_def split: option.splits)
  have x: "sys_exec demo_env (system_new (event_ring_new (\<lambda>n. []) (\<lambda>n. []) 8) sample_clock svc0 ()) demo_whole s"
    using demo_exec [OF r] by (simp add: demo_whole_def)
  have "list_all2 (sent (en_codec demo_env)) (accepted (received demo_whole)) [[one_batch], [one_batch]]"
    using demo_sent(1) by (simp add: demo_env_def)
  from lossless_run_stores_all [OF demo_channels _ demo_empty x this d] n x show ?thesis
    by (intro exI [of _ s]) (auto simp: one_batch_def batch_of_def less_Suc_eq)
qed

end
