(* ===== verification/Schema.thy ===== *)
theory Schema
  imports Sink Timeline
begin

text \<open>
  The tables of the database as the migrations declare them (\<^verbatim>\<open>migrations/0001_events.sql\<close>, \<^verbatim>\<open>0002_strings.sql\<close>,
  \<^verbatim>\<open>0004_spikes.sql\<close>, \<^verbatim>\<open>0007_markers.sql\<close>, \<^verbatim>\<open>0008_kernel_sol.sql\<close>), and the rows as
  \<^verbatim>\<open>crates/perfweave-server/src/store/sink.rs\<close> serialises them. The comment there asks for the order
  of the fields to match the columns; the lemmas show that it does, with the types, and that the
  values of enumeration columns are declared ones, for every row that the sink ever inserts.
\<close>

section \<open>Tables\<close>

datatype column_type =
  T_UInt8 | T_UInt32 | T_UInt64 | T_Int64 | T_Float32 | T_Float64 | T_String
  | T_Enum8 "(string \<times> int) list" | T_LowCardinality column_type | T_Array column_type

type_synonym table = "(string \<times> column_type) list"

definition events_table_0001 :: table where
  "events_table_0001 =
     [(''ts_ns'', T_UInt64), (''duration_ns'', T_UInt64), (''node_id'', T_UInt32), (''gpu_id'', T_UInt8),
      (''pid'', T_UInt32), (''tid'', T_UInt32), (''ctx_id'', T_UInt32), (''stream_id'', T_UInt32),
      (''category'', T_Enum8 [(''METRIC'', 1), (''API_CALL'', 2), (''KERNEL'', 3), (''MEMCPY'', 4),
         (''MEMSET'', 5), (''SYNC'', 6), (''OVERHEAD'', 7), (''MARKER'', 8)]),
      (''name_id'', T_UInt64), (''correlation_id'', T_UInt64), (''parent_id'', T_UInt64),
      (''metric_id'', T_UInt64), (''metric_value'', T_Float64),
      (''metric_unit'', T_LowCardinality T_String), (''grid_x'', T_UInt32), (''grid_y'', T_UInt32),
      (''grid_z'', T_UInt32), (''block_x'', T_UInt32), (''block_y'', T_UInt32), (''block_z'', T_UInt32),
      (''shared_static'', T_UInt32), (''shared_dynamic'', T_UInt32), (''registers'', T_UInt32),
      (''local_mem'', T_UInt32), (''launch_cbid'', T_UInt32),
      (''memcpy_kind'', T_Enum8 [(''UNKNOWN'', 0), (''H2D'', 1), (''D2H'', 2), (''D2D'', 3), (''H2H'', 4), (''P2P'', 5)]),
      (''memcpy_bytes'', T_UInt64), (''memcpy_src'', T_UInt32), (''memcpy_dst'', T_UInt32),
      (''api_cbid'', T_UInt32), (''api_status'', T_UInt32)]"

text \<open>The columns that \<^verbatim>\<open>0007_markers.sql\<close> adds to the table.\<close>

definition marker_columns :: table where
  "marker_columns =
     [(''marker_domain_id'', T_UInt64), (''marker_color'', T_UInt32), (''marker_message_id'', T_UInt64)]"

definition strings_table :: table where
  "strings_table =
     [(''id'', T_UInt64), (''text'', T_String), (''first_seen_ns'', T_UInt64)]"

definition clock_offsets_table :: table where
  "clock_offsets_table =
     [(''fitted_at_ns'', T_UInt64), (''node_id'', T_UInt32), (''gpu_id'', T_UInt8),
      (''offset_ns'', T_Int64), (''slope_num'', T_Int64), (''slope_den'', T_Int64),
      (''residual_max_ns'', T_UInt64)]"

definition spikes_table :: table where
  "spikes_table =
     [(''bucket_start_ns'', T_UInt64), (''bucket_width_ns'', T_UInt64), (''node_id'', T_UInt32),
      (''gpu_id'', T_UInt8), (''metric_id'', T_UInt64), (''value'', T_Float64), (''median'', T_Float64),
      (''mad'', T_Float64), (''z_mad'', T_Float64)]"

definition kernel_sol_table :: table where
  "kernel_sol_table =
     [(''ts_ns'', T_UInt64), (''node_id'', T_UInt32), (''gpu_id'', T_UInt8),
      (''correlation_id'', T_UInt64), (''sm_active_pct'', T_Float32),
      (''achieved_occupancy_pct'', T_Float32), (''dram_bw_pct'', T_Float32), (''l1_bw_pct'', T_Float32),
      (''l2_bw_pct'', T_Float32), (''inst_throughput_pct'', T_Float32),
      (''theoretical_occupancy_pct'', T_Float32), (''arithmetic_intensity'', T_Float32),
      (''achieved_gflops'', T_Float32),
      (''bound'', T_Enum8 [(''UNKNOWN'', 0), (''MEMORY'', 1), (''COMPUTE'', 2), (''LATENCY'', 3), (''BALANCED'', 4)]),
      (''confidence'', T_Enum8 [(''UNKNOWN'', 0), (''LOW'', 1), (''HIGH'', 2)]),
      (''source'', T_Enum8 [(''UNKNOWN'', 0), (''HOST_SAMPLING'', 1), (''REPLAY'', 2)]),
      (''stall_reasons'', T_Array T_UInt32), (''stall_counts'', T_Array T_UInt32)]"

section \<open>Rows\<close>

text \<open>The fields of the row structures, in their order.\<close>

datatype row_value =
  is_u8: V_U8 u8 | is_u32: V_U32 u32 | is_u64: V_U64 u64 | is_i8: V_I8 (i8_value: i8) | is_i64: V_I64 i64
  | is_f32: V_F32 f32 | is_f64: V_F64 f64 | is_string: V_String string | is_vec: V_Vec "u32 list"

definition event_row_values :: "EventRow \<Rightarrow> (string \<times> row_value) list" where
  "event_row_values r =
     [(''ts_ns'', V_U64 (er_ts_ns r)), (''duration_ns'', V_U64 (er_duration_ns r)),
      (''node_id'', V_U32 (er_node_id r)), (''gpu_id'', V_U8 (er_gpu_id r)), (''pid'', V_U32 (er_pid r)),
      (''tid'', V_U32 (er_tid r)), (''ctx_id'', V_U32 (er_ctx_id r)),
      (''stream_id'', V_U32 (er_stream_id r)), (''category'', V_I8 (er_category r)),
      (''name_id'', V_U64 (er_name_id r)), (''correlation_id'', V_U64 (er_correlation_id r)),
      (''parent_id'', V_U64 (er_parent_id r)), (''metric_id'', V_U64 (er_metric_id r)),
      (''metric_value'', V_F64 (er_metric_value r)), (''metric_unit'', V_String (er_metric_unit r)),
      (''grid_x'', V_U32 (er_grid_x r)), (''grid_y'', V_U32 (er_grid_y r)),
      (''grid_z'', V_U32 (er_grid_z r)), (''block_x'', V_U32 (er_block_x r)),
      (''block_y'', V_U32 (er_block_y r)), (''block_z'', V_U32 (er_block_z r)),
      (''shared_static'', V_U32 (er_shared_static r)), (''shared_dynamic'', V_U32 (er_shared_dynamic r)),
      (''registers'', V_U32 (er_registers r)), (''local_mem'', V_U32 (er_local_mem r)),
      (''launch_cbid'', V_U32 (er_launch_cbid r)), (''memcpy_kind'', V_I8 (er_memcpy_kind r)),
      (''memcpy_bytes'', V_U64 (er_memcpy_bytes r)), (''memcpy_src'', V_U32 (er_memcpy_src r)),
      (''memcpy_dst'', V_U32 (er_memcpy_dst r)), (''api_cbid'', V_U32 (er_api_cbid r)),
      (''api_status'', V_U32 (er_api_status r)), (''marker_domain_id'', V_U64 (er_marker_domain_id r)),
      (''marker_color'', V_U32 (er_marker_color r)),
      (''marker_message_id'', V_U64 (er_marker_message_id r))]"

definition string_row_values :: "StringRow \<Rightarrow> (string \<times> row_value) list" where
  "string_row_values r =
     [(''id'', V_U64 (sr_id r)), (''text'', V_String (sr_text r))]"

definition offset_row_values :: "OffsetRow \<Rightarrow> (string \<times> row_value) list" where
  "offset_row_values r =
     [(''fitted_at_ns'', V_U64 (or_fitted_at_ns r)), (''node_id'', V_U32 (or_node_id r)),
      (''gpu_id'', V_U8 (or_gpu_id r)), (''offset_ns'', V_I64 (or_offset_ns r)),
      (''slope_num'', V_I64 (or_slope_num r)), (''slope_den'', V_I64 (or_slope_den r)),
      (''residual_max_ns'', V_U64 (or_residual_max_ns r))]"

definition kernel_sol_row_values :: "KernelSolRow \<Rightarrow> (string \<times> row_value) list" where
  "kernel_sol_row_values r =
     [(''ts_ns'', V_U64 (kr_ts_ns r)), (''node_id'', V_U32 (kr_node_id r)),
      (''gpu_id'', V_U8 (kr_gpu_id r)), (''correlation_id'', V_U64 (kr_correlation_id r)),
      (''sm_active_pct'', V_F32 (kr_sm_active_pct r)),
      (''achieved_occupancy_pct'', V_F32 (kr_achieved_occupancy_pct r)),
      (''dram_bw_pct'', V_F32 (kr_dram_bw_pct r)), (''l1_bw_pct'', V_F32 (kr_l1_bw_pct r)),
      (''l2_bw_pct'', V_F32 (kr_l2_bw_pct r)), (''inst_throughput_pct'', V_F32 (kr_inst_throughput_pct r)),
      (''theoretical_occupancy_pct'', V_F32 (kr_theoretical_occupancy_pct r)),
      (''arithmetic_intensity'', V_F32 (kr_arithmetic_intensity r)),
      (''achieved_gflops'', V_F32 (kr_achieved_gflops r)), (''bound'', V_I8 (kr_bound r)),
      (''confidence'', V_I8 (kr_confidence r)), (''source'', V_I8 (kr_source r)),
      (''stall_reasons'', V_Vec (kr_stall_reasons r)), (''stall_counts'', V_Vec (kr_stall_counts r))]"

definition spike_row_values :: "SpikeRow \<Rightarrow> (string \<times> row_value) list" where
  "spike_row_values r =
     [(''bucket_start_ns'', V_U64 (sp_bucket_start_ns r)),
      (''bucket_width_ns'', V_U64 (sp_bucket_width_ns r)), (''node_id'', V_U32 (sp_node_id r)),
      (''gpu_id'', V_U8 (sp_gpu_id r)), (''metric_id'', V_U64 (sp_metric_id r)),
      (''value'', V_F64 (sp_value r)), (''median'', V_F64 (sp_median r)), (''mad'', V_F64 (sp_mad r)),
      (''z_mad'', V_F64 (sp_z_mad r))]"

fun row_values :: "Row \<Rightarrow> (string \<times> row_value) list" where
  "row_values (Row_String r) = string_row_values r"
| "row_values (Row_Event r) = event_row_values r"
| "row_values (Row_Offset r) = offset_row_values r"
| "row_values (Row_Sol r) = kernel_sol_row_values r"
| "row_values (Row_Spike r) = spike_row_values r"

section \<open>Fitting\<close>

text \<open>The table that an insert names, after all migrations.\<close>

definition schema :: "string \<Rightarrow> table" where
  "schema t =
     (if t = ''strings'' then strings_table
      else if t = ''events'' then events_table_0001 @ marker_columns
      else if t = ''clock_offsets'' then clock_offsets_table
      else if t = ''kernel_sol'' then kernel_sol_table
      else if t = ''spikes'' then spikes_table else [])"

text \<open>The values that the columns of a type take.\<close>

primrec value_fits :: "column_type \<Rightarrow> row_value \<Rightarrow> bool" where
  "value_fits T_UInt8 v = is_u8 v"
| "value_fits T_UInt32 v = is_u32 v"
| "value_fits T_UInt64 v = is_u64 v"
| "value_fits T_Int64 v = is_i64 v"
| "value_fits T_Float32 v = is_f32 v"
| "value_fits T_Float64 v = is_f64 v"
| "value_fits T_String v = is_string v"
| "value_fits (T_Enum8 vs) v = (is_i8 v \<and> sint (i8_value v) \<in> snd ` set vs)"
| "value_fits (T_LowCardinality t) v = value_fits t v"
| "value_fits (T_Array t) v = (t = T_UInt32 \<and> is_vec v)"

text \<open>The fields of a row are the first columns of the table, in order, with fitting values.\<close>

fun fields_fit :: "table \<Rightarrow> (string \<times> row_value) list \<Rightarrow> bool" where
  "fields_fit cols [] = True"
| "fields_fit ((c, t) # cols) ((n, v) # fs) = (c = n \<and> value_fits t v \<and> fields_fit cols fs)"
| "fields_fit [] (f # fs) = False"

definition row_fits :: "string \<Rightarrow> Row \<Rightarrow> bool" where
  "row_fits t r = fields_fit (schema t) (row_values r)"

lemma category_declared: "sint (category_to_i8 c) \<in> {1, 2, 3, 4, 5, 6, 7, 8}"
  by (cases c) simp_all

lemma memcpy_kind_declared: "sint (memcpy_kind_to_i8 k) \<in> {0, 1, 2, 3, 4, 5}"
  by (cases k) simp_all

lemma sol_enums_declared:
  "sint (ucast (bound_i32 b) :: i8) \<in> {0, 1, 2, 3, 4}" "sint (ucast (confidence_i32 c) :: i8) \<in> {0, 1, 2}"
  "sint (ucast (source_i32 s) :: i8) \<in> {0, 1, 2}"
proof -
  show "sint (ucast (bound_i32 b) :: i8) \<in> {0, 1, 2, 3, 4}" by (cases b) simp_all
  show "sint (ucast (confidence_i32 c) :: i8) \<in> {0, 1, 2}" by (cases c) simp_all
  show "sint (ucast (source_i32 s) :: i8) \<in> {0, 1, 2}" by (cases s) simp_all
qed

lemma event_row_enums:
  "sint (er_category (event_row e)) \<in> {1, 2, 3, 4, 5, 6, 7, 8}" "sint (er_memcpy_kind (event_row e)) \<in> {0, 1, 2, 3, 4, 5}"
proof -
  have "er_category (event_row e) = category_to_i8 (category_of_i32 (e_category e))"
    by (simp add: event_row_def event_row_base_def Let_def split: option.split Payload.split)
  then show "sint (er_category (event_row e)) \<in> {1, 2, 3, 4, 5, 6, 7, 8}" using category_declared by metis
  have "0 \<in> range memcpy_kind_to_i8" using rangeI [of memcpy_kind_to_i8 Kind_Unknown] by simp
  then have "er_memcpy_kind (event_row e) \<in> range memcpy_kind_to_i8"
    by (simp add: event_row_def event_row_base_def Let_def split: option.split Payload.split)
  then show "sint (er_memcpy_kind (event_row e)) \<in> {0, 1, 2, 3, 4, 5}"
    using memcpy_kind_declared by (metis imageE)
qed

lemma event_row_fits: "row_fits ''events'' (Row_Event (event_row e))"
proof -
  have "fields_fit (schema ''events'') (event_row_values r)"
    if "sint (er_category r) \<in> {1, 2, 3, 4, 5, 6, 7, 8}" "sint (er_memcpy_kind r) \<in> {0, 1, 2, 3, 4, 5}" for r
    using that by (simp add: schema_def events_table_0001_def marker_columns_def event_row_values_def)
  then show ?thesis unfolding row_fits_def row_values.simps using event_row_enums by blast
qed

lemma sol_row_fits: "row_fits ''kernel_sol'' (Row_Sol (kernel_sol_row now n k))"
proof -
  have "fields_fit (schema ''kernel_sol'') (kernel_sol_row_values r)"
    if "sint (kr_bound r) \<in> {0, 1, 2, 3, 4}" "sint (kr_confidence r) \<in> {0, 1, 2}" "sint (kr_source r) \<in> {0, 1, 2}" for r
    using that by (simp add: schema_def kernel_sol_table_def kernel_sol_row_values_def)
  moreover have "kr_bound (kernel_sol_row now n k) = ucast (bound_i32 (bound_of_i32 (ks_bound k)))"
      "kr_confidence (kernel_sol_row now n k) = ucast (confidence_i32 (confidence_of_i32 (ks_confidence k)))"
      "kr_source (kernel_sol_row now n k) = ucast (source_i32 (source_of_i32 (ks_source k)))"
    by (simp_all add: kernel_sol_row_def)
  ultimately show ?thesis unfolding row_fits_def row_values.simps using sol_enums_declared by metis
qed

lemma plain_rows_fit:
  "row_fits ''strings'' (Row_String r)" "row_fits ''clock_offsets'' (Row_Offset o')" "row_fits ''spikes'' (Row_Spike p)"
  by (simp_all add: row_fits_def schema_def strings_table_def clock_offsets_table_def spikes_table_def
      string_row_values_def offset_row_values_def spike_row_values_def)

lemma absorbed_row_fits: "r \<in> set (rows_for t (absorb_msg clk m pending_new)) \<Longrightarrow> row_fits t r"
  by (cases m)
    (auto simp: rows_for_def absorb_msg_def absorb_def pending_new_def event_rows_def event_row_fits sol_row_fits
      plain_rows_fit split: if_splits)

text \<open>Only the five tables are ever named.\<close>

lemma insert_tables_named:
  "fst ` set (sk_log (fst (insert_tables c ts st))) \<subseteq> fst ` set (sk_log st) \<union> set ts"
proof (induction ts arbitrary: st)
  case (Cons t ts)
  show ?case
  proof (cases "rows_for t (sk_pending st) = []")
    case True
    then show ?thesis using Cons [of st] by auto
  next
    case False
    obtain w ok where i: "sink_insert c t (rows_for t (sk_pending st)) (sk_world st) = (w, ok)" by fastforce
    let ?st = "st\<lparr>sk_world := w, sk_log := sk_log st @ [(t, rows_for t (sk_pending st), ok)]\<rparr>"
    have "fst (insert_tables c (t # ts) st) = (if ok then fst (insert_tables c ts ?st) else ?st)"
      using False i by simp
    moreover have "fst ` set (sk_log ?st) = insert t (fst ` set (sk_log st))" by simp
    ultimately show ?thesis using Cons [of ?st] by (simp only: list.set split: if_split) blast
  qed
qed simp

lemma sink_flush_named:
  "fst ` set (sk_log st) \<subseteq> set sink_tables \<Longrightarrow> fst ` set (sk_log (sink_flush c st)) \<subseteq> set sink_tables"
proof -
  assume "fst ` set (sk_log st) \<subseteq> set sink_tables"
  then have "fst ` set (sk_log (fst (insert_tables c sink_tables st))) \<subseteq> set sink_tables"
    using insert_tables_named [of c sink_tables st] by (meson Un_least order_refl subset_trans)
  then show ?thesis by (cases "insert_tables c sink_tables st") (simp add: sink_flush_def)
qed

lemma sink_log_tables: "fst ` set (sk_log (sink_run c cfg w evs)) \<subseteq> set sink_tables"
proof -
  have "fst ` set (sk_log (sink_loop c cfg w evs)) \<subseteq> set sink_tables"
  proof (induction evs rule: rev_induct)
    case Nil
    show ?case by (simp add: sink_loop_def sink_init_def)
  next
    case (snoc ev evs)
    then show ?case by (cases ev) (simp_all add: sink_loop_snoc Let_def sink_flush_named)
  qed
  then show ?thesis using sink_flush_named by (simp add: sink_run_def sink_loop_def)
qed

text \<open>
  C11: Every row that is ever inserted fits its table. For every database client and every run of
  the sink, each insert call names a table of the migrations, and the fields of each of its rows
  are the first columns of the table, in the order of the table, with the types of the columns;
  an enumeration column only gets values that its type declares.
\<close>

theorem inserts_fit_tables:
  "list_all (\<lambda>(t, rows, ok). t \<in> set sink_tables \<and> list_all (row_fits t) rows) (sk_log (sink_run c cfg w evs))"
proof -
  have fits: "row_fits t r" if r: "r \<in> set (absorbed t evs)" for t r
  proof -
    obtain ev where "r \<in> set (msg_rows t ev)" using r unfolding absorbed_def by auto
    then show ?thesis by (cases ev) (auto intro: absorbed_row_fits)
  qed
  show ?thesis
    unfolding list_all_iff
  proof (clarify, intro conjI)
    fix t rows ok
    assume l: "(t, rows, ok) \<in> set (sk_log (sink_run c cfg w evs))"
    show "\<forall>r\<in>set rows. row_fits t r"
      using fits none_inventedD(2) [OF sink_run_invariants(3) l] by blast
    show "t \<in> set sink_tables" using sink_log_tables l by force
  qed
qed

section \<open>Tiles\<close>

text \<open>
  The materialised views that fill the table of activity tiles, with the widths of their buckets,
  as \<^verbatim>\<open>0003_tiles.sql\<close> creates them, and what \<^verbatim>\<open>0006_shed_metric_tiles.sql\<close> drops and creates again.
\<close>

definition activity_views_0003 :: "(string \<times> u64) list" where
  "activity_views_0003 =
     [(''tiles_activity_1us_mv'', 1000), (''tiles_activity_8us_mv'', 8000), (''tiles_activity_64us_mv'', 64000),
      (''tiles_activity_512us_mv'', 512000), (''tiles_activity_4ms_mv'', 4096000),
      (''tiles_activity_32ms_mv'', 32768000), (''tiles_activity_262ms_mv'', 262144000),
      (''tiles_activity_2s_mv'', 2097152000)]"

definition dropped_views_0006 :: "string list" where
  "dropped_views_0006 =
     [''tiles_metric_8us_mv'', ''tiles_metric_4ms_mv'', ''tiles_metric_262ms_mv'', ''tiles_metric_2s_mv'',
      ''tiles_activity_1us_mv'', ''tiles_activity_8us_mv'', ''tiles_activity_64us_mv'',
      ''tiles_activity_512us_mv'', ''tiles_activity_4ms_mv'', ''tiles_activity_262ms_mv'']"

definition activity_views_0006 :: "(string \<times> u64) list" where
  "activity_views_0006 = [(''tiles_activity_32ms_mv'', 32768000), (''tiles_activity_2s_mv'', 2097152000)]"

text \<open>The views after all migrations; creating a view that exists changes nothing.\<close>

definition activity_views :: "(string \<times> u64) list" where
  "activity_views =
     (let views = filter (\<lambda>(n, w). n \<notin> set dropped_views_0006) activity_views_0003
      in views @ filter (\<lambda>(n, w). n \<notin> fst ` set views) activity_views_0006)"

lemma activity_views_eq: "activity_views = activity_views_0006"
  by code_simp

text \<open>
  C22: For which zoom levels the timeline has tiles: with at least one pixel, the tile width that
  the server chooses for a request is one that the migrations still fill exactly when the time
  per pixel is above 4.096 ms and at most 32.768 ms, or above 262.144 ms. At all other zoom levels
  the width is one that nothing fills any more, so a query for activity tiles finds none; a query that is answered
  from the raw events, because it asks for them or has less than 1 us per pixel, does not use tiles.
\<close>

theorem tiles_filled_iff:
  assumes "0 < pixels"
  shows "choose_tile range_ns pixels \<in> Some ` snd ` set activity_views \<longleftrightarrow>
    (let t = range_ns div ucast pixels in 4096000 < t \<and> t \<le> 32768000 \<or> 262144000 < t)"
proof -
  have "choose_tile range_ns pixels = Some (let t = range_ns div ucast pixels in
      if t \<le> 1000 then 1000 else if t \<le> 8000 then 8000 else if t \<le> 64000 then 64000
      else if t \<le> 512000 then 512000 else if t \<le> 4096000 then 4096000 else if t \<le> 32768000 then 32768000
      else if t \<le> 262144000 then 262144000 else 2097152000)"
    using assms by (simp add: choose_tile_def Let_def TILE_WIDTHS_NS_def last_opt_def)
  then show ?thesis
    by (simp add: activity_views_eq activity_views_0006_def Let_def word_le_nat_alt word_less_nat_alt)
qed

theorem tiles_filled_iff_witness:
  "choose_tile 1000000000 1024 = Some 4096000 \<and> choose_tile 1000000000 1024 \<notin> Some ` snd ` set activity_views"
proof
  show "choose_tile 1000000000 1024 = Some 4096000" by code_simp
  show "choose_tile 1000000000 1024 \<notin> Some ` snd ` set activity_views"
    using tiles_filled_iff [of 1024 1000000000] by simp
qed

end
