(* ===== verification/Metric_Path.thy ===== *)
theory Metric_Path
  imports Samplers Uploader Ingest
begin

text \<open>
  The path of a metric from the GPU to the live display: a tick of the NVML sampler, a flush of
  the uploader, the collector, the next publication of the ring and the frame built from it. The
  parts are those of the other theories; the lemmas compose them.
\<close>

section \<open>The frame lane\<close>

lemma push_frames_lane:
  assumes "bounded_fifo fc fcap fq" "length (fq (rg_frames r)) + length fs \<le> fcap"
  shows "fq (rg_frames (foldl (\<lambda>r f. ring_push_frame fc f r) r fs)) = fq (rg_frames r) @ fs
    \<and> rg_events (foldl (\<lambda>r f. ring_push_frame fc f r) r fs) = rg_events r"
  using assms(2)
proof (induction fs arbitrary: r)
  case (Cons f fs)
  have "fq (rg_frames (ring_push_frame fc f r)) = fq (rg_frames r) @ [f]"
    "rg_events (ring_push_frame fc f r) = rg_events r"
    using Cons.prems bounded_fifo.send_ok [OF assms(1), of "rg_frames r" f]
    by (auto simp: ring_push_frame_def Let_def split: prod.splits)
  with Cons.IH [of "ring_push_frame fc f r"] Cons.prems show ?case by simp
qed simp

section \<open>One series in the frames of a tick\<close>

lemma pushed_frame_other:
  "(mf_node_id f, mf_gpu_id f) \<noteq> (sk_node_id k, sk_gpu_id k) \<Longrightarrow> pushed k (frame_pushes t f) = []"
proof -
  assume "(mf_node_id f, mf_gpu_id f) \<noteq> (sk_node_id k, sk_gpu_id k)"
  then have "pushed k (map (\<lambda>p. Push \<lparr>sk_node_id = mf_node_id f, sk_gpu_id = mf_gpu_id f, sk_metric_id = mp_metric_id p\<rparr>
      \<lparr>s_ts_ns = ts, s_value = mp_value p\<rparr>) ps) = []" for ps ts
    by (induction ps) auto
  then show ?thesis by (simp add: frame_pushes_def)
qed

lemma pushed_frame_point:
  assumes "distinct (map mp_metric_id (mf_points f))" "p \<in> set (mf_points f)"
  shows "pushed \<lparr>sk_node_id = mf_node_id f, sk_gpu_id = mf_gpu_id f, sk_metric_id = mp_metric_id p\<rparr> (frame_pushes t f) =
    [\<lparr>s_ts_ns = skew_map t (mf_node_id f) (mf_gpu_id f) (mf_ts_ns f), s_value = mp_value p\<rparr>]"
proof -
  let ?k = "\<lambda>p. \<lparr>sk_node_id = mf_node_id f, sk_gpu_id = mf_gpu_id f, sk_metric_id = mp_metric_id p\<rparr>"
  let ?s = "\<lambda>p. \<lparr>s_ts_ns = skew_map t (mf_node_id f) (mf_gpu_id f) (mf_ts_ns f), s_value = mp_value p\<rparr>"
  have none: "mp_metric_id p \<notin> mp_metric_id ` set ps \<Longrightarrow> pushed (?k p) (map (\<lambda>p. Push (?k p) (?s p)) ps) = []" for ps
    by (induction ps) auto
  have "distinct (map mp_metric_id ps) \<Longrightarrow> p \<in> set ps \<Longrightarrow> pushed (?k p) (map (\<lambda>p. Push (?k p) (?s p)) ps) = [?s p]" for ps
  proof (induction ps)
    case (Cons a ps)
    show ?case
    proof (cases "a = p")
      case True
      then show ?thesis using Cons.prems none [of ps] by simp
    next
      case False
      then have "p \<in> set ps" "mp_metric_id a \<noteq> mp_metric_id p" using Cons.prems by auto
      then show ?thesis using Cons by simp
    qed
  qed simp
  then show ?thesis using assms by (simp add: frame_pushes_def)
qed

lemma pushed_concat: "pushed k (concat opss) = concat (map (pushed k) opss)"
  by (induction opss) simp_all

lemma of_nat_u32_inj: "i < unat (n :: u32) \<Longrightarrow> j < unat n \<Longrightarrow> (of_nat i :: u32) = of_nat j \<longleftrightarrow> i = j"
proof -
  assume a: "i < unat n" "j < unat n"
  moreover have "unat n < 2 ^ 32" using unsigned_less [of n] by simp
  ultimately have "unat (of_nat i :: u32) = i" "unat (of_nat j :: u32) = j"
    by (auto simp: unat_of_nat)
  then show ?thesis by metis
qed

text \<open>A tick gives a series one sample, the value that the library returned.\<close>

lemma pushed_tick:
  assumes "inj_on (intern_hash h) (set nvml_names)" "i < unat n" "devs (of_nat i) = Some dev"
    and "p \<in> set (nvml_points dev (nvml_metric_ids h))"
  shows "\<exists>ts. pushed \<lparr>sk_node_id = nv_node_id self, sk_gpu_id = of_nat i, sk_metric_id = mp_metric_id p\<rparr>
      (concat (map (frame_pushes t) (nvml_frames self (nvml_metric_ids h) n (now, devs)))) =
    [\<lparr>s_ts_ns = ts, s_value = mp_value p\<rparr>]"
proof -
  let ?k = "\<lparr>sk_node_id = nv_node_id self, sk_gpu_id = of_nat i, sk_metric_id = mp_metric_id p\<rparr>"
  let ?frame = "\<lambda>idx d. nvml_build_frame d now idx (nv_node_id self) (nvml_metric_ids h)"
  let ?ps = "\<lambda>idx. case devs idx of None \<Rightarrow> [] | Some d \<Rightarrow> pushed ?k (frame_pushes t (?frame idx d))"
  have "distinct (map (intern_hash h) nvml_names)"
    using assms(1) by (simp add: distinct_map) (simp add: nvml_names_def)
  then have "distinct (map mp_metric_id (mf_points (?frame (of_nat i) dev)))"
    using distinct_subseq [OF nvml_point_ids [of dev h]] by (simp add: nvml_build_frame_def)
  then obtain ts where own: "?ps (of_nat i) = [\<lparr>s_ts_ns = ts, s_value = mp_value p\<rparr>]"
    using pushed_frame_point [of "?frame (of_nat i) dev" p t] assms(3,4) by (simp add: nvml_build_frame_def)
  have others: "?ps (of_nat j) = []" if "j < unat n" "j \<noteq> i" for j
    using that of_nat_u32_inj [OF assms(2) that(1)]
    by (auto split: option.split intro!: pushed_frame_other simp: nvml_build_frame_def)
  have "concat (map (\<lambda>j. ?ps (of_nat j)) js) = (if i \<in> set js then ?ps (of_nat i) else [])"
    if "distinct js" "set js \<subseteq> {..<unat n}" for js
    using that others by (induction js) auto
  from this [of "[0..<unat n]"] have "concat (map (\<lambda>j. ?ps (of_nat j)) [0..<unat n]) = ?ps (of_nat i)"
    using assms(2) by (simp add: lessThan_atLeast0)
  moreover have "concat (map (pushed ?k) (map (frame_pushes t) (List.map_filter (\<lambda>idx. map_option (?frame idx) (devs idx)) idxs)))
      = concat (map ?ps idxs)" for idxs
    by (induction idxs) (auto simp: List.map_filter_simps split: option.split)
  ultimately show ?thesis using own by (simp add: nvml_frames_def pushed_concat o_def)
qed

section \<open>Property\<close>

text \<open>The agent after a tick of its NVML sampler.\<close>

definition sampled ::
  "(MetricFrame, 'fch) Channel \<Rightarrow> (string \<Rightarrow> u64) \<Rightarrow> NvmlSampler \<Rightarrow> u32 \<Rightarrow> u64 \<times> (u32 \<Rightarrow> NvmlDevice option)
     \<Rightarrow> ('ch, 'fch) AgentState \<Rightarrow> ('ch, 'fch) AgentState" where
  "sampled fc h self n i st = st\<lparr>ag_ring := nvml_tick fc self (nvml_metric_ids h) n i (ag_ring st)\<rparr>"

text \<open>The live frame at the next publication after the collector has taken a batch.\<close>

definition next_live_frame ::
  "(nat \<Rightarrow> u64) \<Rightarrow> (nat \<Rightarrow> u64) \<Rightarrow> Batch \<Rightarrow> 'sch CollectorSvc \<Rightarrow> u64 \<Rightarrow> u64 \<Rightarrow> SeriesKey list \<Rightarrow> LiveMetricFrame" where
  "next_live_frame clk_off clk_ev b svc published clk ks =
     build_metric_frame clk ks (fast_ring_publish published (cv_fast (fst (ingest_batch clk_off clk_ev b svc))))"

lemma length_nvml_frames: "length (nvml_frames self ids n i) \<le> unat n"
proof -
  have "length (List.map_filter f xs) \<le> length xs" for f :: "u32 \<Rightarrow> MetricFrame option" and xs
    by (induction xs) (auto simp: List.map_filter_simps split: option.split)
  from this [of _ "map of_nat [0..<unat n]"] show ?thesis by (simp add: nvml_frames_def)
qed

lemma nvml_frames_nonempty:
  assumes "i < unat n" "devs (of_nat i) = Some dev"
  shows "nvml_frames self ids n (now, devs) \<noteq> []"
proof -
  have "of_nat i \<in> set (map of_nat [0..<unat n] :: u32 list)" using assms(1) by simp
  moreover have "x \<in> set xs \<Longrightarrow> f x = Some y \<Longrightarrow> List.map_filter f xs \<noteq> []"
    for x :: u32 and xs and f :: "u32 \<Rightarrow> MetricFrame option" and y
    by (induction xs) (auto simp: List.map_filter_simps split: option.split)
  ultimately show ?thesis using assms(2) unfolding nvml_frames_def by fastforce
qed

lemma corrected_category: "clock_ok off \<Longrightarrow> is_cat c (corrected off e) = is_cat c e"
  by (simp add: is_cat_def corrected_def correct_event_def clock_map_affine)

text \<open>
  C5: The dashboard shows what the GPU reports. When the NVML sampler ticks with room for its
  frames in the lane, the uploader's next flush sends them; once the collector has taken that batch
  and published its ring, the live frame has, for every device that answers and every metric
  that it returns, exactly one point, and its value is the one that the device returned at that
  tick, whatever had been in the ring before. (The hash must tell the metric names apart, and no
  metric comes as an event.)
\<close>

theorem dashboard_shows_device:
  assumes "bounded_fifo ec cap q" "bounded_fifo fc fcap fq" "clock_ok (current (ag_offsets st))"
    and "fq (rg_frames (ag_ring st)) = []" "unat n \<le> fcap" "0 < uc_max_batch_events cfg"
    and "list_all (\<lambda>e. \<not> is_cat Cat_Metric e) (q (rg_events (ag_ring st)))"
    and "inj_on (intern_hash h) (set nvml_names)"
    and "i < unat n" "devs (of_nat i) = Some dev" "p \<in> set (nvml_points dev (nvml_metric_ids h))"
    and "cv_fast svc = ring_run ops"
  shows "\<exists>st' b. flush_tick ec fc h cfg True (sampled fc h self n (now, devs) st) = (st', Flushed)
    \<and> ag_sent st' = ag_sent st @ [b]
    \<and> (\<forall>ks. distinct ks \<and> set ks = dom (fr_writer (cv_fast (fst (ingest_batch clk_off clk_ev b svc)))) \<longrightarrow>
        filter (\<lambda>x. fst x = (nv_node_id self, of_nat i) \<and> lp_metric_id (snd x) = mp_metric_id p)
          (frame_points (next_live_frame clk_off clk_ev b svc published clk ks)) =
        [((nv_node_id self, of_nat i), \<lparr>lp_metric_id = mp_metric_id p, lp_latest = mp_value p\<rparr>)])"
proof -
  let ?fs = "nvml_frames self (nvml_metric_ids h) n (now, devs)"
  let ?st = "sampled fc h self n (now, devs) st"
  let ?k = "\<lparr>sk_node_id = nv_node_id self, sk_gpu_id = of_nat i, sk_metric_id = mp_metric_id p\<rparr>"
  have lane: "fq (rg_frames (ag_ring ?st)) = ?fs" "rg_events (ag_ring ?st) = rg_events (ag_ring st)"
    using push_frames_lane [OF assms(2), of "ag_ring st" ?fs] assms(4,5) length_nvml_frames [of self "nvml_metric_ids h" n "(now, devs)"]
    by (simp_all add: sampled_def nvml.tick_pushes del: nvml_tick.simps)
  have off: "ag_offsets ?st = ag_offsets st" "ag_sent ?st = ag_sent st" by (simp_all add: sampled_def)
  obtain st' b where f: "flush_tick ec fc h cfg True ?st = (st', Flushed)" "ag_sent st' = ag_sent st @ [b]"
      and b: "b_events b = map (corrected (current (ag_offsets st))) (take (uc_max_batch_events cfg) (q (rg_events (ag_ring st))))"
        "b_metric_frames b = ?fs"
    using flush_batch [OF assms(1,2), of ?st cfg h] assms(3,6) nvml_frames_nonempty [where devs = devs, OF assms(9,10)] lane off by auto
  let ?t = "absorb_offsets clk_off (b_offsets b) (cv_skew svc)"
  let ?ops = "ops @ concat (map (frame_pushes ?t) ?fs)"
  have "event_pushes e = []" if "e \<in> set (b_events b)" for e
    using that assms(3,7) by (auto simp: b(1) event_pushes_def list_all_iff corrected_category dest: in_set_takeD)
  then have "concat (map event_pushes (b_events b)) = []" by simp
  then have ring: "cv_fast (fst (ingest_batch clk_off clk_ev b svc)) = ring_run ?ops"
    by (simp add: ingest_batch_split b(2) assms(12) ring_run_def del: concat_eq_Nil_conv)
  obtain ts where push: "pushed ?k ?ops = pushed ?k ops @ [\<lparr>s_ts_ns = ts, s_value = mp_value p\<rparr>]"
    using pushed_tick [where h = h and self = self and devs = devs, OF assms(8-11)] by fastforce
  have "filter (\<lambda>x. fst x = (nv_node_id self, of_nat i) \<and> lp_metric_id (snd x) = mp_metric_id p)
        (frame_points (next_live_frame clk_off clk_ev b svc published clk ks)) =
      [((nv_node_id self, of_nat i), \<lparr>lp_metric_id = mp_metric_id p, lp_latest = mp_value p\<rparr>)]"
    if "distinct ks" "set ks = dom (fr_writer (cv_fast (fst (ingest_batch clk_off clk_ev b svc))))" for ks
  proof -
    have "set ks = {k. pushed k ?ops \<noteq> []}"
      using that(2) unfolding ring by (auto simp: writer_run dom_def split: if_splits)
    from live_frame_point [OF that(1) this, of ?k clk published] push show ?thesis
      unfolding ring_run_snoc by (simp add: next_live_frame_def ring)
  qed
  with f show ?thesis by blast
qed

definition quiet_agent :: "(Event list, MetricFrame list) AgentState" where
  "quiet_agent = agent0\<lparr>ag_ring := event_ring_new (\<lambda>n. []) (\<lambda>n. []) 8\<rparr>"

theorem dashboard_shows_device_witness:
  "\<exists>st' b. flush_tick (queue_channel 8) (queue_channel 8) index_hash uploader_cfg0 True
      (sampled (queue_channel 8) index_hash \<lparr>nv_node_id = 1, nv_metric_hz = 10\<rparr> 2 (5, \<lambda>i. Some idle_device) quiet_agent)
      = (st', Flushed)
    \<and> (\<forall>ks. distinct ks \<and> set ks = dom (fr_writer (cv_fast (fst (ingest_batch (\<lambda>i. 0) (\<lambda>i. 0) b svc0)))) \<longrightarrow>
        filter (\<lambda>x. fst x = (1, 1) \<and> lp_metric_id (snd x) = 8)
          (frame_points (next_live_frame (\<lambda>i. 0) (\<lambda>i. 0) b svc0 7 9 ks)) =
        [((1, 1), \<lparr>lp_metric_id = 8, lp_latest = of_word (40 :: u32)\<rparr>)])"
proof -
  have "distinct (map (intern_hash index_hash) nvml_names)"
    by (simp add: intern_hash_def index_hash_def nvml_names_def)
  then have inj: "inj_on (intern_hash index_hash) (set nvml_names)" by (simp add: distinct_map)
  have p: "point 8 (of_word (40 :: u32)) \<in> set (nvml_points idle_device (nvml_metric_ids index_hash))"
    by (simp add: nvml_points_def idle_device_def nvml_metric_ids_def intern_hash_def index_hash_def nvml_names_def point_def)
  have c: "clock_ok (current (ag_offsets quiet_agent))"
    by (simp add: quiet_agent_def agent0_def current_def handle_new_def sample_clock_def clock_ok_def)
  have r: "cv_fast svc0 = ring_run []" by (simp add: svc0_def collector_new_def ring_run_def)
  from dashboard_shows_device [OF queue.bounded_fifo_axioms [of 8] queue.bounded_fifo_axioms [of 8] c _ _ _ _ inj
      _ _ p r, where i = 1 and n = 2 and cfg = uploader_cfg0 and self = "\<lparr>nv_node_id = 1, nv_metric_hz = 10\<rparr>"
      and devs = "\<lambda>i. Some idle_device" and now = 5 and published = 7 and clk = 9 and clk_off = "\<lambda>i. 0" and clk_ev = "\<lambda>i. 0"]
  show ?thesis by (auto simp: quiet_agent_def event_ring_new_def uploader_cfg0_def point_def)
qed

end
