(* ===== verification/Sse.thy ===== *)
theory Sse
  imports Live "HOL-Library.Sublist"
begin

text \<open>
  What a client of the live plane receives: the subscription and the stream of server-sent events
  in \<^verbatim>\<open>crates/perfweave-server/src/live.rs\<close>, while other tasks keep publishing. The broadcast channel
  belongs to a library. What is used of it is the locale \<open>broadcast\<close>: a receiver sees the messages sent
  after its subscription in order, and one that has fallen behind by more than the capacity is
  told how many messages it has missed and continues with the oldest one that is kept.
\<close>

section \<open>Subscriptions\<close>

definition METRICS_CAPACITY :: nat where "METRICS_CAPACITY = 1024"
definition KERNELS_CAPACITY :: nat where "KERNELS_CAPACITY = 8192"

definition subscribe_metrics :: "(LiveFrame list \<Rightarrow> 'rx) \<Rightarrow> LiveBroadcaster \<Rightarrow> 'rx" where
  "subscribe_metrics subscribe bc = subscribe (lb_metrics bc)"

definition subscribe_kernels :: "(LiveKernelEvent list \<Rightarrow> 'rx) \<Rightarrow> LiveBroadcaster \<Rightarrow> 'rx" where
  "subscribe_kernels subscribe bc = subscribe (lb_kernels bc)"

text \<open>
  The stream of one client: the turns of the publishers and of the client in any order; a turn of
  the client takes the next item of its receiver, if there is one.
\<close>

datatype 'm live_turn = Published 'm | Polled

fun broadcast_stream ::
  "('m \<Rightarrow> 'ch \<Rightarrow> 'ch) \<Rightarrow> ('ch \<Rightarrow> 'm list) \<Rightarrow> ('m list \<Rightarrow> 'rx \<Rightarrow> ((nat + 'm) \<times> 'rx) option)
     \<Rightarrow> 'm live_turn list \<Rightarrow> 'ch \<times> 'rx \<Rightarrow> (nat + 'm) list \<times> 'ch \<times> 'rx" where
  "broadcast_stream publish view recv [] (ch, rx) = ([], ch, rx)"
| "broadcast_stream publish view recv (Published m # ts) (ch, rx) =
     broadcast_stream publish view recv ts (publish m ch, rx)"
| "broadcast_stream publish view recv (Polled # ts) (ch, rx) =
     (case recv (view ch) rx of
        None \<Rightarrow> broadcast_stream publish view recv ts (ch, rx)
      | Some (r, rx') \<Rightarrow> apfst (Cons r) (broadcast_stream publish view recv ts (ch, rx')))"

fun published :: "'m live_turn list \<Rightarrow> 'm list" where
  "published [] = []"
| "published (Published m # ts) = m # published ts"
| "published (Polled # ts) = published ts"

definition arrived :: "(nat + 'm) list \<Rightarrow> 'm list" where
  "arrived rs = List.map_filter (case_sum (\<lambda>_. None) Some) rs"

definition missed :: "(nat + 'm) list \<Rightarrow> nat" where
  "missed rs = sum_list (map (case_sum id (\<lambda>_. 0)) rs)"

text \<open>A client with a backlog keeps up when no turn of it finds more messages than are kept.\<close>

fun keeps_up :: "nat \<Rightarrow> nat \<Rightarrow> 'm live_turn list \<Rightarrow> bool" where
  "keeps_up cap backlog [] = True"
| "keeps_up cap backlog (Published m # ts) = keeps_up cap (backlog + 1) ts"
| "keeps_up cap backlog (Polled # ts) = (backlog \<le> cap \<and> keeps_up cap (backlog - 1) ts)"

lemma arrived_simps [simp]:
  "arrived [] = []" "arrived (Inl n # rs) = arrived rs" "arrived (Inr m # rs) = m # arrived rs"
  "missed [] = 0" "missed (Inl n # rs) = n + missed rs" "missed (Inr m # rs) = missed rs"
  by (simp_all add: arrived_def missed_def List.map_filter_simps)

section \<open>The channel\<close>

lemma subseq_take: "subseq (take n xs) xs"
  using subseq_rev_drop_many [of "take n xs" "take n xs" "drop n xs"] by simp

locale broadcast =
  fixes publish :: "'m \<Rightarrow> 'ch \<Rightarrow> 'ch" and view :: "'ch \<Rightarrow> 'm list"
    and subscribe :: "'m list \<Rightarrow> 'rx" and recv :: "'m list \<Rightarrow> 'rx \<Rightarrow> ((nat + 'm) \<times> 'rx) option"
    and cap :: nat and pos :: "'rx \<Rightarrow> nat"
  assumes publish_view: "view (publish m ch) = view ch @ [m]"
    and pos_subscribe: "pos (subscribe ms) = length ms"
    and recv_empty: "length ms \<le> pos rx \<Longrightarrow> recv ms rx = None"
    and recv_next: "pos rx < length ms \<Longrightarrow> length ms - pos rx \<le> cap \<Longrightarrow>
      \<exists>rx'. recv ms rx = Some (Inr (ms ! pos rx), rx') \<and> pos rx' = Suc (pos rx)"
    and recv_lagged: "cap < length ms - pos rx \<Longrightarrow>
      \<exists>rx'. recv ms rx = Some (Inl (length ms - pos rx - cap), rx') \<and> pos rx' = length ms - cap"
begin

lemma recv_cases:
  assumes "pos rx \<le> length ms"
  obtains "recv ms rx = None" "length ms = pos rx"
  | rx' where "recv ms rx = Some (Inr (ms ! pos rx), rx')" "pos rx' = Suc (pos rx)" "pos rx < length ms"
      "length ms - pos rx \<le> cap"
  | rx' where "recv ms rx = Some (Inl (length ms - pos rx - cap), rx')" "pos rx' = length ms - cap"
      "cap < length ms - pos rx"
  using assms recv_empty [of ms rx] recv_next [of rx ms] recv_lagged [of ms rx]
  by (metis le_neq_implies_less not_le_imp_less order_refl)

lemma stream_view:
  "broadcast_stream publish view recv ts (ch, rx) = (rs, ch', rx') \<Longrightarrow> view ch' = view ch @ published ts"
proof (induction ts arbitrary: ch rx rs)
  case (Cons t ts)
  then show ?case
    by (cases t) (auto simp: publish_view apfst_def map_prod_def split: option.splits prod.splits)
qed simp

text \<open>Every message is delivered, reported as missed, or still waiting; what is delivered is in order.\<close>

lemma stream_position:
  assumes "broadcast_stream publish view recv ts (ch, rx) = (rs, ch', rx')" "pos rx \<le> length (view ch)"
  shows "pos rx' = pos rx + length (arrived rs) + missed rs \<and> pos rx' \<le> length (view ch')
    \<and> subseq (arrived rs) (take (length (arrived rs) + missed rs) (drop (pos rx) (view ch')))"
  using assms
proof (induction ts arbitrary: ch rx rs)
  case (Cons t ts)
  show ?case
  proof (cases t)
    case (Published m)
    then show ?thesis using Cons.IH [of "publish m ch" rx rs] Cons.prems by (simp add: publish_view)
  next
    case Polled
    from Cons.prems(2) show ?thesis
    proof (cases rule: recv_cases)
      case 1
      then show ?thesis using Cons.IH [of ch rx rs] Cons.prems Polled by simp
    next
      case (2 rx1)
      then obtain rs1 where rs: "rs = Inr (view ch ! pos rx) # rs1"
          and s: "broadcast_stream publish view recv ts (ch, rx1) = (rs1, ch', rx')"
        using Cons.prems(1) Polled by (auto simp: apfst_def map_prod_def split: prod.splits)
      have "view ch' ! pos rx = view ch ! pos rx" "pos rx < length (view ch')"
        using stream_view [OF s] 2(3) by (simp_all add: nth_append)
      then show ?thesis
        using Cons.IH [OF s] 2(2,3) by (auto simp: rs Cons_nth_drop_Suc [symmetric] Suc_diff_le)
    next
      case (3 rx1)
      then obtain rs1 where rs: "rs = Inl (length (view ch) - pos rx - cap) # rs1"
          and s: "broadcast_stream publish view recv ts (ch, rx1) = (rs1, ch', rx')"
        using Cons.prems(1) Polled by (auto simp: apfst_def map_prod_def split: prod.splits)
      let ?k = "length (view ch) - pos rx - cap"
      have k: "pos rx1 = ?k + pos rx" using 3(2,3) by simp
      have ih: "pos rx' = pos rx1 + length (arrived rs1) + missed rs1" "pos rx' \<le> length (view ch')"
          "subseq (arrived rs1) (take (length (arrived rs1) + missed rs1) (drop (pos rx1) (view ch')))"
        using Cons.IH [OF s] 3(2) by auto
      have "take (?k + (length (arrived rs1) + missed rs1)) (drop (pos rx) (view ch')) =
          take ?k (drop (pos rx) (view ch')) @ take (length (arrived rs1) + missed rs1) (drop (pos rx1) (view ch'))"
        by (simp only: take_add k drop_drop)
      then have "subseq (arrived rs1) (take (?k + (length (arrived rs1) + missed rs1)) (drop (pos rx) (view ch')))"
        using subseq_drop_many [OF ih(3), of "take ?k (drop (pos rx) (view ch'))"] by simp
      then show ?thesis using ih(1,2) k by (simp add: rs ac_simps)
    qed
  qed
qed simp

lemma stream_keeps_up:
  assumes "broadcast_stream publish view recv ts (ch, rx) = (rs, ch', rx')" "pos rx \<le> length (view ch)"
    and "keeps_up cap (length (view ch) - pos rx) ts"
  shows "missed rs = 0"
  using assms
proof (induction ts arbitrary: ch rx rs)
  case (Cons t ts)
  show ?case
  proof (cases t)
    case (Published m)
    then show ?thesis using Cons.IH [of "publish m ch" rx rs] Cons.prems by (simp add: publish_view Suc_diff_le)
  next
    case Polled
    from Cons.prems(2) show ?thesis
    proof (cases rule: recv_cases)
      case 1
      then show ?thesis using Cons.IH [of ch rx rs] Cons.prems Polled by simp
    next
      case (2 rx1)
      then show ?thesis
        using Cons.IH [of ch rx1] Cons.prems Polled by (auto simp: apfst_def map_prod_def split: prod.splits)
    qed (use Cons.prems(3) Polled in simp)
  qed
qed simp

text \<open>The stream of a client that subscribes first.\<close>

lemma subscriber_stream:
  assumes "broadcast_stream publish view recv ts (ch, subscribe (view ch)) = (rs, ch', rx')"
  defines "waiting \<equiv> length (view ch') - pos rx'"
  shows "length (arrived rs) + missed rs + waiting = length (published ts)"
    and "subseq (arrived rs) (published ts)"
    and "keeps_up cap 0 ts \<Longrightarrow> arrived rs = take (length (published ts) - waiting) (published ts)"
proof -
  have v: "view ch' = view ch @ published ts" using stream_view [OF assms(1)] .
  have p: "pos rx' = length (view ch) + length (arrived rs) + missed rs" "pos rx' \<le> length (view ch')"
      and s: "subseq (arrived rs) (take (length (arrived rs) + missed rs) (published ts))"
    using stream_position [OF assms(1)] v by (auto simp: pos_subscribe)
  show n: "length (arrived rs) + missed rs + waiting = length (published ts)"
    using p v by (simp add: waiting_def)
  show "subseq (arrived rs) (published ts)"
    using s subseq_take subseq_order.order_trans by blast
  show "arrived rs = take (length (published ts) - waiting) (published ts)" if "keeps_up cap 0 ts"
  proof -
    have "missed rs = 0" using stream_keeps_up [OF assms(1)] that by (simp add: pos_subscribe)
    moreover have "length (published ts) - waiting = length (arrived rs)" using n calculation by simp
    ultimately show ?thesis using s n by (intro subseq_same_length) simp_all
  qed
qed

end

text \<open>A channel that keeps its log, and receivers that are positions in it.\<close>

definition log_recv :: "nat \<Rightarrow> 'm list \<Rightarrow> nat \<Rightarrow> ((nat + 'm) \<times> nat) option" where
  "log_recv cap ms next =
     (if length ms \<le> next then None
      else if length ms - next \<le> cap then Some (Inr (ms ! next), next + 1)
      else Some (Inl (length ms - next - cap), length ms - cap))"

interpretation frames: broadcast publish_frame lb_metrics length "log_recv METRICS_CAPACITY" METRICS_CAPACITY "\<lambda>n. n"
  by unfold_locales (auto simp: publish_frame_def log_recv_def)

interpretation kernels: broadcast publish_kernel lb_kernels length "log_recv KERNELS_CAPACITY" KERNELS_CAPACITY "\<lambda>n. n"
  by unfold_locales (auto simp: publish_kernel_def log_recv_def)

section \<open>Property\<close>

lemma sse_live_arrived: "sse_live jm js rs = map (frame_to_sse jm js) (arrived rs)"
  by (induction rs) (auto simp: sse_live_def arrived_def List.map_filter_simps split: sum.splits)

lemma sse_kernels_arrived:
  "sse_live_kernels json rs =
     map (\<lambda>k. \<lparr>sse_event = ''kernel'', sse_data = (case json k of Some d \<Rightarrow> d | None \<Rightarrow> '''')\<rparr>) (arrived rs)"
  by (induction rs) (auto simp: sse_live_kernels_def arrived_def List.map_filter_simps split: sum.splits)

text \<open>
  C18: What a client of the live plane sees. However its turns interleave with those of the
  publishers, the events of its stream are those of frames published after it subscribed, each
  at most once and in their order, and every such frame has been delivered, is still waiting, or
  is one of those reported to the server as missed, which the stream passes over in silence. As
  long as no turn of the client finds more than 1024 frames waiting, nothing is missed: the events
  are exactly those of the first frames published. The same holds of the stream of kernels, with
  8192 for 1024.
\<close>

theorem sse_clients_see:
  assumes "broadcast publish_frame lb_metrics subscribe recv METRICS_CAPACITY pos"
    and "broadcast publish_kernel lb_kernels subscribe_k recv_k KERNELS_CAPACITY pos_k"
    and "broadcast_stream publish_frame lb_metrics recv ts (bc, subscribe_metrics subscribe bc) = (rs, bc', rx)"
    and "broadcast_stream publish_kernel lb_kernels recv_k ts_k (bc, subscribe_kernels subscribe_k bc) = (rs_k, bc_k, rx_k)"
  shows "subseq (sse_live jm js rs) (map (frame_to_sse jm js) (published ts))
    \<and> length (sse_live jm js rs) + missed rs + (length (lb_metrics bc') - pos rx) = length (published ts)
    \<and> (keeps_up 1024 0 ts \<longrightarrow> sse_live jm js rs =
         map (frame_to_sse jm js) (take (length (published ts) - (length (lb_metrics bc') - pos rx)) (published ts)))
    \<and> subseq (sse_live_kernels json rs_k) (sse_live_kernels json (map Inr (published ts_k) :: (nat + LiveKernelEvent) list))
    \<and> length (sse_live_kernels json rs_k) + missed rs_k + (length (lb_kernels bc_k) - pos_k rx_k) = length (published ts_k)
    \<and> (keeps_up 8192 0 ts_k \<longrightarrow> sse_live_kernels json rs_k = sse_live_kernels json
         (map Inr (take (length (published ts_k) - (length (lb_kernels bc_k) - pos_k rx_k)) (published ts_k))
            :: (nat + LiveKernelEvent) list))"
proof -
  have a: "arrived (map Inr ms :: (nat + LiveKernelEvent) list) = ms" for ms by (induction ms) simp_all
  note f = broadcast.subscriber_stream [OF assms(1), OF assms(3) [unfolded subscribe_metrics_def]]
  note k = broadcast.subscriber_stream [OF assms(2), OF assms(4) [unfolded subscribe_kernels_def]]
  have "subseq (sse_live jm js rs) (map (frame_to_sse jm js) (published ts))"
    "subseq (sse_live_kernels json rs_k) (sse_live_kernels json (map Inr (published ts_k) :: (nat + LiveKernelEvent) list))"
    unfolding sse_live_arrived sse_kernels_arrived a
    by (rule subseq_map [OF f(2)], rule subseq_map [OF k(2)])
  then show ?thesis
    using f(1,3) k(1,3) by (simp add: sse_live_arrived sse_kernels_arrived a METRICS_CAPACITY_def KERNELS_CAPACITY_def)
qed

definition two_frames :: "LiveFrame live_turn list" where
  "two_frames =
     (let f = \<lambda>n. Live_Metric \<lparr>lm_ts_ns = n, lm_server_now_ns = n, lm_gpus = []\<rparr>
      in [Polled, Published (f 1), Published (f 2), Polled])"

definition first_json :: "LiveMetricFrame \<Rightarrow> string option" where
  "first_json m = (if lm_ts_ns m = 1 then Some ''one'' else None)"

theorem sse_clients_see_witness:
  "sse_live first_json (\<lambda>s. None)
     (fst (broadcast_stream publish_frame lb_metrics (log_recv METRICS_CAPACITY) two_frames
       (broadcaster_new, subscribe_metrics length broadcaster_new))) = [\<lparr>sse_event = ''metric'', sse_data = ''one''\<rparr>]"
proof -
  obtain rs bc' rx where s: "broadcast_stream publish_frame lb_metrics (log_recv METRICS_CAPACITY) two_frames
       (broadcaster_new, subscribe_metrics length broadcaster_new) = (rs, bc', rx)" by (metis prod.exhaust)
  have k: "broadcast_stream publish_kernel lb_kernels (log_recv KERNELS_CAPACITY) []
       (broadcaster_new, subscribe_kernels length broadcaster_new) = ([], broadcaster_new, subscribe_kernels length broadcaster_new)"
    by simp
  have w: "length (lb_metrics bc') = 2" "rx = 1" "keeps_up 1024 0 two_frames"
    using s by (auto simp: two_frames_def Let_def log_recv_def METRICS_CAPACITY_def broadcaster_new_def
        publish_frame_def subscribe_metrics_def)
  from sse_clients_see [OF frames.broadcast_axioms kernels.broadcast_axioms s k, of first_json "\<lambda>s. None" "\<lambda>k. None"] w
  have "sse_live first_json (\<lambda>s. None) rs = map (frame_to_sse first_json (\<lambda>s. None)) (take (length (published two_frames) - 1) (published two_frames))"
    by simp
  then show ?thesis unfolding s by (simp add: two_frames_def Let_def frame_to_sse_def first_json_def)
qed

end
