(* ===== verification/Logging.thy ===== *)
theory Logging
  imports Text
begin

text \<open>
  Setting up the log of a process, \<^verbatim>\<open>crates/perfweave-common/src/logging.rs\<close>: which filter and which
  format the environment selects. The subscriber belongs to a library; \<open>parse\<close> is its parser of
  filters, \<open>new\<close> its parser that skips what it does not understand.
\<close>

section \<open>Model\<close>

definition eq_ignore_ascii_case :: "string \<Rightarrow> string \<Rightarrow> bool" where
  "eq_ignore_ascii_case s t \<longleftrightarrow> to_ascii_lowercase s = to_ascii_lowercase t"

definition log_filter ::
  "(string \<Rightarrow> string option) \<Rightarrow> (string \<Rightarrow> 'f option) \<Rightarrow> (string \<Rightarrow> 'f) \<Rightarrow> 'f" where
  "log_filter var parse new =
     (case Option.bind (var ''PERFWEAVE_LOG'') parse of
        Some f \<Rightarrow> f
      | None \<Rightarrow>
          (case Option.bind (var ''RUST_LOG'') parse of
             Some f \<Rightarrow> f
           | None \<Rightarrow> new ''info,perfweave=debug''))"

text \<open>\<open>isatty\<close> is the function of the C library, which only Unix builds call.\<close>

definition atty_stderr :: "bool \<Rightarrow> (int \<Rightarrow> int) \<Rightarrow> bool" where
  "atty_stderr unix isatty = (unix \<and> isatty 2 \<noteq> 0)"

definition format_is_json :: "(string \<Rightarrow> string option) \<Rightarrow> bool \<Rightarrow> bool" where
  "format_is_json var tty =
     (case var ''PERFWEAVE_LOG_FORMAT'' of
        Some v \<Rightarrow> eq_ignore_ascii_case v ''json''
      | None \<Rightarrow> \<not> tty)"

text \<open>What is installed: the filter, the options set on the layer, and the first record.\<close>

record 'f LogSetup =
  ls_filter :: 'f
  ls_json :: bool
  ls_options :: "(string \<times> bool) list"
  ls_component :: string
  ls_version :: string

definition logging_init ::
  "(string \<Rightarrow> string option) \<Rightarrow> (string \<Rightarrow> 'f option) \<Rightarrow> (string \<Rightarrow> 'f) \<Rightarrow> bool \<Rightarrow> (int \<Rightarrow> int) \<Rightarrow> string
     \<Rightarrow> string \<Rightarrow> 'f LogSetup" where
  "logging_init var parse new unix isatty version component =
     (let json = format_is_json var (atty_stderr unix isatty)
      in \<lparr>ls_filter = log_filter var parse new, ls_json = json,
          ls_options =
            (if json then [(''with_current_span'', True), (''with_span_list'', False), (''with_target'', True),
                           (''with_file'', False), (''with_line_number'', False)]
             else [(''with_target'', True), (''with_line_number'', True)]),
          ls_component = component, ls_version = version\<rparr>)"

section \<open>Properties\<close>

text \<open>
  The variable of the product decides before the one of the library, a variable that does not
  parse counts as unset, and without a choice of format only a terminal gets the plain one.
\<close>

lemma logging_precedence:
  "var ''PERFWEAVE_LOG'' = Some s \<Longrightarrow> parse s = Some f \<Longrightarrow>
     ls_filter (logging_init var parse new unix isatty version component) = f"
  "Option.bind (var ''PERFWEAVE_LOG'') parse = None \<Longrightarrow> Option.bind (var ''RUST_LOG'') parse = None \<Longrightarrow>
     ls_filter (logging_init var parse new unix isatty version component) = new ''info,perfweave=debug''"
  "var ''PERFWEAVE_LOG_FORMAT'' = None \<Longrightarrow>
     ls_json (logging_init var parse new unix isatty version component) \<longleftrightarrow> \<not> (unix \<and> isatty 2 \<noteq> 0)"
  by (simp_all add: logging_init_def log_filter_def format_is_json_def atty_stderr_def Let_def)

lemma format_ignores_case: "eq_ignore_ascii_case ''JSON'' ''json''" "\<not> eq_ignore_ascii_case ''pretty'' ''json''"
  by code_simp+

end
