(* ===== verification/Buffers.thy ===== *)
theory Buffers
  imports Prelude
begin

text \<open>
  The buffers that the injector hands to CUPTI, \<^verbatim>\<open>ActivityBuffer\<close> in
  \<^verbatim>\<open>crates/perfweave-cupti-inject/src/activity.rs\<close>: allocation and release. The heap maps the address of a
  block to the layout it was allocated with and its bytes; which address the allocator chooses is a
  parameter, zero being its failure. The lemmas show that a buffer is released with the layout it
  was allocated with, which is what the allocator requires.
\<close>

section \<open>Model\<close>

definition BUF_SIZE :: nat where
  "BUF_SIZE = 8 * 1024 * 1024"

record Layout =
  ly_size :: nat
  ly_align :: nat

text \<open>The check of the standard library: a power of two, and a rounded size that fits \<^verbatim>\<open>isize\<close>.\<close>

definition from_size_align :: "nat \<Rightarrow> nat \<Rightarrow> Layout option" where
  "from_size_align sz align =
     (if (\<exists>k < 64. align = 2 ^ k) \<and> sz \<le> 2 ^ 63 - align
      then Some \<lparr>ly_size = sz, ly_align = align\<rparr> else None)"

type_synonym heap = "nat \<rightharpoonup> Layout \<times> u8 list"

record ActivityBuffer =
  ab_ptr :: nat
  ab_size :: nat

text \<open>The ends of an allocation: a panic, the abort on a failed allocation, or the buffer.\<close>

datatype alloc_end = Alloc_Panic | Alloc_Abort | Allocated ActivityBuffer heap

definition activity_buffer_alloc :: "(Layout \<Rightarrow> heap \<Rightarrow> nat) \<Rightarrow> heap \<Rightarrow> alloc_end" where
  "activity_buffer_alloc pick h =
     (case from_size_align BUF_SIZE 8 of
        None \<Rightarrow> Alloc_Panic
      | Some layout \<Rightarrow>
          let p = pick layout h in
          if p = 0 then Alloc_Abort
          else Allocated \<lparr>ab_ptr = p, ab_size = BUF_SIZE\<rparr> (h(p \<mapsto> (layout, replicate (ly_size layout) 0))))"

text \<open>
  The release. \<open>None\<close> is what the allocator does not define: no block at the address, or one
  that was allocated with another layout.
\<close>

definition activity_buffer_drop :: "ActivityBuffer \<Rightarrow> heap \<Rightarrow> heap option" where
  "activity_buffer_drop b h =
     (case from_size_align (ab_size b) 8 of
        None \<Rightarrow> None
      | Some layout \<Rightarrow>
          (case h (ab_ptr b) of
             Some (l, _) \<Rightarrow> if l = layout then Some (h(ab_ptr b := None)) else None
           | None \<Rightarrow> None))"

section \<open>Life of a buffer\<close>

text \<open>An allocator that returns an aligned address outside all blocks, or fails.\<close>

definition allocator_ok :: "(Layout \<Rightarrow> heap \<Rightarrow> nat) \<Rightarrow> bool" where
  "allocator_ok pick \<longleftrightarrow>
     (\<forall>l h. pick l h = 0 \<or> (pick l h mod ly_align l = 0 \<and> h (pick l h) = None))"

lemma buffer_layout: "from_size_align BUF_SIZE 8 = Some \<lparr>ly_size = BUF_SIZE, ly_align = 8\<rparr>"
proof -
  have "(\<exists>k<64. (8 :: nat) = 2 ^ k)" by (intro exI [of _ 3]) simp
  then show ?thesis by (simp add: from_size_align_def BUF_SIZE_def)
qed

text \<open>
  A buffer is 8 MiB of zeros at an address that is a multiple of eight (not of eight MiB), and
  whatever CUPTI writes into it, releasing it is defined, frees exactly its block, and gives back
  the heap as it was before.
\<close>

theorem buffer_lifecycle:
  assumes "allocator_ok pick" "activity_buffer_alloc pick h = Allocated b h'" "length bytes = BUF_SIZE"
  shows "\<exists>l. h' (ab_ptr b) = Some (l, replicate BUF_SIZE 0) \<and> ab_size b = 8 * 1024 * 1024 \<and> ab_ptr b mod 8 = 0
    \<and> activity_buffer_drop b (h'(ab_ptr b \<mapsto> (l, bytes))) = Some h"
proof -
  let ?l = "\<lparr>ly_size = BUF_SIZE, ly_align = 8\<rparr>"
  note l = buffer_layout
  let ?p = "pick ?l h"
  have b: "?p \<noteq> 0" "b = \<lparr>ab_ptr = ?p, ab_size = BUF_SIZE\<rparr>" "h' = h(?p \<mapsto> (?l, replicate BUF_SIZE 0))"
    using assms(2) by (auto simp: activity_buffer_alloc_def l Let_def split: if_splits)
  have fresh: "?p mod 8 = 0" "h ?p = None"
    using assms(1) b(1) by (metis allocator_ok_def Layout.select_convs(2))+
  have "activity_buffer_drop b (h'(ab_ptr b \<mapsto> (?l, bytes))) = Some (h(?p := None))"
    by (simp add: activity_buffer_drop_def b l)
  also have "h(?p := None) = h" using fresh(2) by auto
  finally have "activity_buffer_drop b (h'(ab_ptr b \<mapsto> (?l, bytes))) = Some h" .
  moreover have "h' (ab_ptr b) = Some (?l, replicate BUF_SIZE 0)" "ab_ptr b mod 8 = 0"
    using fresh(1) by (simp_all add: b(2,3))
  moreover have "ab_size b = 8 * 1024 * 1024" by (simp add: b(2) BUF_SIZE_def)
  ultimately show ?thesis by (intro exI [of _ ?l] conjI)
qed

definition bump_allocator :: "Layout \<Rightarrow> heap \<Rightarrow> nat" where
  "bump_allocator l h = (if h (ly_align l) = None then ly_align l else 0)"

theorem buffer_lifecycle_witness:
  "\<exists>b h'. activity_buffer_alloc bump_allocator (\<lambda>p. None) = Allocated b h'
    \<and> (\<exists>l. activity_buffer_drop b (h'(ab_ptr b \<mapsto> (l, replicate BUF_SIZE 7))) = Some (\<lambda>p. None))"
proof -
  obtain b h' where a: "activity_buffer_alloc bump_allocator (\<lambda>p. None) = Allocated b h'"
    by (auto simp: activity_buffer_alloc_def buffer_layout bump_allocator_def Let_def)
  have "allocator_ok bump_allocator" by (simp add: allocator_ok_def bump_allocator_def)
  from buffer_lifecycle [OF this a, of "replicate BUF_SIZE 7"] a show ?thesis by auto
qed

end
