(* ===== verification/Stages.thy ===== *)
theory Stages
  imports Pipeline
begin

text \<open>
  What the path from the agent's ring to the sink promises, as a small machine that can be run: four
  stages, a bounded ring, a stream of batches, a bounded channel and what the sink has taken. An event
  moves from one stage to the next, in order and in whole batches, and is lost in four ways only,
  each with its cause: a push onto a full ring, a flush whose send fails, a broken connection, a full
  channel. The path of theory \<open>Pipeline\<close>, with its lanes, counters, tables and tasks, is shown to refine it step
  by step, up to the corrections of time stamps.
\<close>

section \<open>The machine\<close>

record Stages =
  sg_ring :: "Event list"
  sg_stream :: "Event list list"
  sg_channel :: "Event list list"
  sg_taken :: "Event list"

definition stages_new :: Stages where
  "stages_new = \<lparr>sg_ring = [], sg_stream = [], sg_channel = [], sg_taken = []\<rparr>"

datatype stage_act = A_Push Event | A_Send | A_Send_Fails | A_Nothing | A_Break | A_Collect | A_Enqueue | A_Take | A_Idle

text \<open>
  The capacities of the ring and the channel, and the size of a batch. A flush with nothing to send
  has to find nothing in the ring. Messages for the sink that carry no events take room in its channel too.
\<close>

definition stage_next :: "nat \<Rightarrow> nat \<Rightarrow> nat \<Rightarrow> stage_act \<Rightarrow> Stages \<Rightarrow> Stages option" where
  "stage_next cap scap n a g =
     (case a of
        A_Push e \<Rightarrow> Some (if length (sg_ring g) < cap then g\<lparr>sg_ring := sg_ring g @ [e]\<rparr> else g)
      | A_Send \<Rightarrow> Some (g\<lparr>sg_ring := drop n (sg_ring g), sg_stream := sg_stream g @ [take n (sg_ring g)]\<rparr>)
      | A_Send_Fails \<Rightarrow> Some (g\<lparr>sg_ring := drop n (sg_ring g)\<rparr>)
      | A_Nothing \<Rightarrow> if take n (sg_ring g) = [] then Some g else None
      | A_Break \<Rightarrow> Some (g\<lparr>sg_stream := []\<rparr>)
      | A_Collect \<Rightarrow>
          (case sg_stream g of
             [] \<Rightarrow> None
           | b # bs \<Rightarrow> Some (if length (sg_channel g) < scap
               then g\<lparr>sg_stream := bs, sg_channel := sg_channel g @ [filter (\<lambda>e. \<not> is_cat Cat_Metric e) b]\<rparr>
               else g\<lparr>sg_stream := bs\<rparr>))
      | A_Enqueue \<Rightarrow> if length (sg_channel g) < scap then Some (g\<lparr>sg_channel := sg_channel g @ [[]]\<rparr>) else None
      | A_Take \<Rightarrow>
          (case sg_channel g of
             [] \<Rightarrow> None
           | b # bs \<Rightarrow> Some (g\<lparr>sg_channel := bs, sg_taken := sg_taken g @ b\<rparr>))
      | A_Idle \<Rightarrow> Some g)"

fun stage_run :: "nat \<Rightarrow> nat \<Rightarrow> nat \<Rightarrow> stage_act list \<Rightarrow> Stages \<Rightarrow> Stages option" where
  "stage_run cap scap n [] g = Some g"
| "stage_run cap scap n (a # as) g = Option.bind (stage_next cap scap n a g) (stage_run cap scap n as)"

lemma stage_run_snoc:
  "stage_run cap scap n (as @ [a]) g = Option.bind (stage_run cap scap n as g) (stage_next cap scap n a)"
  by (induction cap scap n as g rule: stage_run.induct) (simp_all add: Option.bind_assoc split: bind_splits)

text \<open>Which act a step of the system is, by its label, and what the acts offer to the ring.\<close>

fun label_act :: "label \<Rightarrow> stage_act \<Rightarrow> bool" where
  "label_act (S_Receive (L_Push i)) a \<longleftrightarrow> (case a of A_Push e \<Rightarrow> True | _ \<Rightarrow> False)"
| "label_act (S_Flush ok) a \<longleftrightarrow> a \<in> {A_Nothing, if ok then A_Send else A_Send_Fails}"
| "label_act S_Disconnect a \<longleftrightarrow> a = A_Break"
| "label_act (S_Collect c c') a \<longleftrightarrow> a = A_Collect"
| "label_act (S_Other m) a \<longleftrightarrow> a = A_Enqueue"
| "label_act (S_Sink_Recv c) a \<longleftrightarrow> a = A_Take"
| "label_act _ a \<longleftrightarrow> a = A_Idle"

definition offered :: "stage_act list \<Rightarrow> Event list" where
  "offered as = List.map_filter (\<lambda>a. case a of A_Push e \<Rightarrow> Some e | _ \<Rightarrow> None) as"

lemma offered_snoc [simp]:
  "offered [] = []" "offered (as @ [a]) = offered as @ (case a of A_Push e \<Rightarrow> [e] | _ \<Rightarrow> [])"
  by (simp_all add: offered_def List.map_filter_def split: stage_act.split)

section \<open>The refinement\<close>

text \<open>The stages of a state of the system, events up to their time stamps.\<close>

definition stages ::
  "('ch \<Rightarrow> Event list) \<Rightarrow> ('sch \<Rightarrow> SinkMsg list) \<Rightarrow> ('ch, 'fch, 'sch, 'w) System \<Rightarrow> Stages" where
  "stages q msgs s =
     \<lparr>sg_ring = map core (q (rg_events (ag_ring (sy_agent s)))),
      sg_stream = map (\<lambda>b. map core (b_events b)) (sy_stream s),
      sg_channel = map (\<lambda>m. kept (batch_events m)) (msgs (cv_sink (sy_svc s))),
      sg_taken = kept (concat (map msg_events (ld_sunk (sy_ledger s))))\<rparr>"

lemma kept_core: "kept es = filter (\<lambda>e. \<not> is_cat Cat_Metric e) (map core es)"
proof -
  have "is_cat Cat_Metric (core e) = is_cat Cat_Metric e" for e by (simp add: is_cat_def core_def)
  then show ?thesis by (simp add: kept_def filter_map o_def)
qed

lemma corrected_core: "those (map (correct_event off) es) = Some es' \<Longrightarrow> map core es' = map core es"
  by (induction es arbitrary: es') (auto split: option.splits intro: correct_event_core)

text \<open>A flush takes the oldest events off the ring, up to the size of a batch, and sends all of them.\<close>

lemma flush_stages:
  assumes "bounded_fifo ec cap q" "flush_tick ec fc h cfg ok st = (st', res)" "res \<noteq> Flush_Panic"
  defines "n \<equiv> uc_max_batch_events cfg" and "es \<equiv> q (rg_events (ag_ring st))"
  shows "q (rg_events (ag_ring st')) = drop n es"
    and "res = Nothing_To_Send \<Longrightarrow> take n es = []"
    and "res = Flushed \<Longrightarrow> map core (b_events (last (ag_sent st'))) = map core (take n es)"
proof -
  obtain ds r1 where d: "drain_up_to ec n (ag_ring st) = (ds, r1)" by fastforce
  have q: "ds = take n es" "q (rg_events r1) = drop n es"
    using d bounded_fifo.recv_up_to_take [OF assms(1), of n "rg_events (ag_ring st)"]
    by (auto simp: drain_up_to_def es_def split: prod.splits)
  note flush = assms(2) [unfolded flush_tick_def, folded n_def, unfolded d]
  have "drain_frames fc r1 \<noteq> None" using flush assms(3) by (cases "drain_frames fc r1") auto
  then obtain fs ch where f: "drain_frames fc r1 = Some (fs, r1\<lparr>rg_frames := ch\<rparr>)" by (auto simp: drain_frames_def)
  show "q (rg_events (ag_ring st')) = drop n es"
    using flush assms(3) by (auto simp: f q(2) Let_def split: if_splits option.splits prod.splits)
  show "res = Nothing_To_Send \<Longrightarrow> take n es = []"
    using flush by (auto simp: f q(1) [symmetric] Let_def split: if_splits option.splits prod.splits)
  show "res = Flushed \<Longrightarrow> map core (b_events (last (ag_sent st'))) = map core (take n es)"
    using flush by (auto simp: f q(1) [symmetric] Let_def corrected_core split: if_splits option.splits prod.splits)
qed

text \<open>The collector hands on a batch when the channel has room, and only then.\<close>

lemma collect_stages:
  assumes "mpsc_channel ts rv scap msgs" "ingest_batch clk_off clk_ev b svc = (svc1, out)"
    and "hand_to_sink ts out svc1 = Some (svc2, lost)"
  shows "map (\<lambda>m. kept (batch_events m)) (msgs (cv_sink svc2)) =
    map (\<lambda>m. kept (batch_events m)) (msgs (cv_sink svc))
      @ (if length (msgs (cv_sink svc)) < scap then [kept (b_events b)] else [])"
proof -
  have i: "svc1 = fst (ingest_batch clk_off clk_ev b svc)" "out = snd (ingest_batch clk_off clk_ev b svc)"
    using assms(2) by simp_all
  have s: "cv_sink svc1 = cv_sink svc" by (simp add: i ingest_batch_split)
  have k: "kept (b_events out) = kept (b_events b)" by (simp add: i ingest_batch_split kept_skew)
  show ?thesis
    using assms(3) k mpsc_channel.send_room [OF assms(1), of "cv_sink svc" "Msg_Batch out"]
      mpsc_channel.send_full [OF assms(1), of "cv_sink svc" "Msg_Batch out"]
    by (cases "length (msgs (cv_sink svc)) < scap")
      (auto simp: hand_to_sink_def s try_push_result [OF mpsc_channel.hands_back [OF assms(1)]] batch_events_def)
qed

lemma push_stages:
  assumes "bounded_fifo c cap q"
  shows "q (rg_events (ring_push c e r)) = (if length (q (rg_events r)) < cap then q (rg_events r) @ [e] else q (rg_events r))"
  using bounded_fifo.send_ok [OF assms, of "rg_events r" e] bounded_fifo.send_full [OF assms, of "rg_events r" e]
  by (auto simp: ring_push_def Let_def split: prod.splits)

text \<open>Every step of the system is an act of the machine, and a push offers the event that the log records.\<close>

lemma step_refines:
  fixes en :: "('ch, 'fch, 'sch, 'w) Env"
  assumes "channels_ok en cap q scap msgs" "sys_step en s l s'"
  shows "\<exists>a. label_act l a
    \<and> stage_next cap scap (uc_max_batch_events (en_uploader en)) a (stages q msgs s) = Some (stages q msgs s')
    \<and> map core (map snd (ld_log (sy_ledger s'))) = map core (map snd (ld_log (sy_ledger s)))
        @ (case a of A_Push e \<Rightarrow> [e] | _ \<Rightarrow> [])"
proof -
  have fifo: "bounded_fifo (en_events en) cap q" and mc: "mpsc_channel (en_try_send en) (en_recv en) scap msgs"
    using assms(1) by (simp_all add: channels_ok_def)
  note d = stage_next_def stages_def
  from assms(2) show ?thesis
  proof (cases rule: sys_step.cases)
    case (receive rl r)
    show ?thesis
    proof (cases rl)
      case (L_Push i)
      let ?e = "hd (fst (sy_conns s ! i))"
      have "rv_ring r = ring_push (en_events en) ?e (ag_ring (sy_agent s))"
        using recv_step_ring [OF receive(3)] by (simp add: L_Push step_pushes_def)
      then show ?thesis
        using receive
        by (intro exI [of _ "A_Push (core ?e)"]) (simp add: d L_Push put_receiver_def step_pushes_def push_stages [OF fifo])
    qed (use receive recv_step_ring [OF receive(3)] in
        \<open>simp_all add: d put_receiver_def step_pushes_def\<close>)
  next
    case frame
    then show ?thesis
      by (simp add: d ring_push_frame_def Let_def split: prod.split sum.split cb_send_error.split)
  next
    case (flush_sent a)
    then show ?thesis
      using flush_stages(1,3) [OF fifo flush_sent(3)]
      by (intro exI [of _ A_Send]) (simp add: d drop_map take_map)
  next
    case (flush_nothing ok a)
    then show ?thesis
      using flush_stages(1,2) [OF fifo flush_nothing(3)]
      by (intro exI [of _ A_Nothing]) (auto simp: d take_map)
  next
    case (flush_failed a)
    then show ?thesis
      using flush_stages(1) [OF fifo flush_failed(3)]
      by (intro exI [of _ A_Send_Fails]) (simp add: d drop_map)
  next
    case report
    then show ?thesis by (simp add: d take_dropped_def take_dropped_frames_def)
  next
    case disconnect
    then show ?thesis by (simp add: d)
  next
    case (collect b bs clk_off clk_ev svc out svc' lost)
    then show ?thesis using collect_stages [OF mc collect(4,5)] by (simp add: d kept_core)
  next
    case (other m ch)
    have "length (msgs (cv_sink (sy_svc s))) < scap" "msgs ch = msgs (cv_sink (sy_svc s)) @ [m]"
      using mpsc_channel.send_room [OF mc, of "cv_sink (sy_svc s)" m] mpsc_channel.send_full [OF mc, of "cv_sink (sy_svc s)" m] other
      by (cases "length (msgs (cv_sink (sy_svc s))) < scap"; simp)+
    moreover have "batch_events m = []" using other by (cases m) (simp_all add: batch_events_def)
    ultimately show ?thesis using other by (simp add: d)
  next
    case (sink_recv m ch clk)
    then have "msgs (cv_sink (sy_svc s)) = m # msgs ch" using mpsc_channel.recv_next [OF mc] by metis
    then show ?thesis using sink_recv by (simp add: d msg_events_Recv)
  next
    case sink_tick
    then show ?thesis by (simp add: d)
  qed
qed

section \<open>Property\<close>

text \<open>
  C2: The path from the agent's ring to the sink refines the staged queue. Every run of the receiver, the
  uploader, the collector and the sink, in any interleaving, is a run of the machine, step for
  step and with the same stages at its end: a push fills the ring unless it is full, a flush moves the oldest events,
  as many as a batch may have, onto the stream as one batch or, when its send fails, drops exactly these; the
  collector moves whole batches, without their metrics, and drops one only when the channel is full;
  the sink takes them in order. So no event is lost but by these causes and a broken connection.
\<close>

theorem path_refines_stages:
  assumes "channels_ok en cap q scap msgs" "q (bounded cap) = []" "msgs (cv_sink svc) = []"
    and "sys_exec en (system_new (event_ring_new bounded bounded_f cap) off svc w) ls s"
  shows "\<exists>as. list_all2 label_act ls as \<and> offered as = map core (map snd (ld_log (sy_ledger s)))
    \<and> stage_run cap scap (uc_max_batch_events (en_uploader en)) as stages_new = Some (stages q msgs s)"
  using assms(4)
proof (induction rule: sys_exec.induct)
  case start
  show ?case
    using assms(2,3)
    by (intro exI [of _ "[]"]) (simp add: stages_def stages_new_def system_new_def ledger_new_def event_ring_new_def)
next
  case (step ls s l s')
  then obtain as where "list_all2 label_act ls as" "offered as = map core (map snd (ld_log (sy_ledger s)))"
      "stage_run cap scap (uc_max_batch_events (en_uploader en)) as stages_new = Some (stages q msgs s)"
    by blast
  moreover from step_refines [OF assms(1) step.hyps(2)] obtain a where "label_act l a"
      "stage_next cap scap (uc_max_batch_events (en_uploader en)) a (stages q msgs s) = Some (stages q msgs s')"
      "map core (map snd (ld_log (sy_ledger s'))) = map core (map snd (ld_log (sy_ledger s)))
        @ (case a of A_Push e \<Rightarrow> [e] | _ \<Rightarrow> [])"
    by blast
  ultimately show ?case
    by (intro exI [of _ "as @ [a]"]) (simp add: stage_run_snoc list_all2_appendI)
qed

theorem path_refines_stages_witness:
  "\<exists>s as. sys_exec demo_env (system_new (event_ring_new (\<lambda>n. []) (\<lambda>n. []) 8) sample_clock svc0 ()) demo_broken s
    \<and> list_all2 label_act demo_broken as \<and> A_Break \<in> set as
    \<and> stage_run 8 4 (uc_max_batch_events (en_uploader demo_env)) as stages_new = Some (stages (\<lambda>ms. ms) (\<lambda>ms. ms) s)"
proof -
  obtain s where r: "sys_runs demo_env demo_middle ([S_Flush True, S_Disconnect, S_Receive (L_Push 0)] @ demo_store) = Some s"
    using demo_broken_run by (auto split: option.splits)
  have x: "sys_exec demo_env (system_new (event_ring_new (\<lambda>n. []) (\<lambda>n. []) 8) sample_clock svc0 ()) demo_broken s"
    using demo_exec [OF r] by (simp add: demo_broken_def)
  from path_refines_stages [OF demo_channels _ demo_empty(1) x]
  obtain as where as: "list_all2 label_act demo_broken as"
      "stage_run 8 4 (uc_max_batch_events (en_uploader demo_env)) as stages_new = Some (stages (\<lambda>ms. ms) (\<lambda>ms. ms) s)"
    by auto
  have "S_Disconnect \<in> set demo_broken" by (simp add: demo_broken_def)
  then have "A_Break \<in> set as"
    using as(1) by (metis label_act.simps(3) in_set_conv_nth list_all2_conv_all_nth)
  with x as show ?thesis by blast
qed

end
