(* ===== verification/Spec2Isabelle.thy ===== *)
theory Spec2Isabelle
  imports Spike_Detect Ingest Uploader Cupti_Pipe Activity Host_Sampler Timeline Migrations
    Graphql Cli Cupti_Receiver Pipeline Schema Metric_Path Sse Logging Buffers
    Stages
begin

text \<open>
  PerfWeave observes GPUs. An \<^emph>\<open>agent\<close> on every node samples metrics and receives kernel
  records from an \<^emph>\<open>injector\<close> inside CUDA programs; it uploads both to a \<^emph>\<open>server\<close>, which keeps
  recent metrics in memory, looks for spikes in them, stores events in ClickHouse and answers the
  user interface over HTTP. This development models the Rust crates under \<^verbatim>\<open>src/crates\<close>
  as HOL functions on records and states the properties that make each part correct.

  \<^bold>\<open>The theories and the code\<close> (paths below \<^verbatim>\<open>src/crates\<close>).

  \<^item> \<open>Prelude\<close>, \<open>Floats\<close>, \<open>Text\<close>: what the code uses of the language. Integers are words of their
    width, \<open>sat_sub\<close> and \<open>sat_add\<close> saturate, \<open>i128\<close> is \<open>int\<close> with the wrap written out; floating-point numbers
    are rationals rounded to the format after each operation, with signed zeros, infinities
    and NaN; texts are character lists with the string functions of the standard library.
  \<^item> \<open>Proto\<close>: the messages of \<^verbatim>\<open>proto/perfweave.proto\<close>, an enumeration field being the \<^verbatim>\<open>i32\<close> on the wire.
  \<^item> \<open>Clock\<close>, \<open>Clock_Sync\<close>, \<open>Skew\<close>: \<^verbatim>\<open>perfweave-common/src/clock.rs\<close>, the agent's \<^verbatim>\<open>clock_sync.rs\<close>, the
    collector's \<^verbatim>\<open>ingest/skew.rs\<close>. The fit recovers a constant shift exactly, the map is monotone
    within the bounds of the fit (locale \<open>fitted_clock\<close>, a sublocale of \<open>affine_clock\<close>), and the collector
    computes what the agent computes. \<open>Clock_Robust\<close> shows that the fit is robust: pairs off the line do
    not change it while the good pairs are enough (about 29 percent may be off), and at times as large
    as today's, where the rounding of \<^verbatim>\<open>f64\<close> is coarse, it is off by 256 nanoseconds at most.
  \<^item> \<open>Fast_Ring\<close>, \<open>Live\<close>, \<open>Spike_Detect\<close>: the server's \<^verbatim>\<open>fast_ring.rs\<close>, \<^verbatim>\<open>live.rs\<close>, \<^verbatim>\<open>spike_detect.rs\<close>. The
    circular buffers refine two sliding windows (locale \<open>sliding_window\<close>), which for real time stamps are the last
    samples and the last samples thinned to one per 950 ms; a live frame shows the last
    values; exactly the outliers are reported as spikes, up to the rate limit. \<open>Sse\<close> adds the clients of the live plane
    over any broadcast channel (locale \<open>broadcast\<close>): what they receive, in which order, and what they miss.
  \<^item> \<open>Store_Rows\<close>, \<open>Sink\<close>, \<open>Migrations\<close>: \<^verbatim>\<open>store/sink.rs\<close>, \<^verbatim>\<open>store/migrations.rs\<close>. No row is lost or invented whatever
    inserts fail; a migration file is cut after each line that closes a statement, and the statements run in order, one
    per request, up to the first failure. \<open>Schema\<close> has the tables of
    \<^verbatim>\<open>migrations/\<close>: every row inserted fits its table, and which zoom levels still have tiles.
  \<^item> \<open>Ingest\<close>, \<open>Replay\<close>, \<open>Graphql\<close>: \<^verbatim>\<open>ingest/grpc.rs\<close>, \<^verbatim>\<open>replay.rs\<close>, \<^verbatim>\<open>api/graphql.rs\<close>. A batch is split without loss
    and every acknowledgement accounts for every event; a replay request is followed from
    the mutation through the registry (locale \<open>keyed_store\<close>) and the agent to the sink.
  \<^item> \<open>Arrow_Tile\<close>, \<open>Timeline\<close>: \<^verbatim>\<open>api/arrow_tile.rs\<close>, \<^verbatim>\<open>api/lod.rs\<close>, \<^verbatim>\<open>api/timeline.rs\<close>. No filter text can inject SQL, and
    a client decodes exactly the rows of the database.
  \<^item> \<open>Server_App\<close>: \<^verbatim>\<open>api/app.rs\<close>, \<^verbatim>\<open>api/imports.rs\<close>, \<^verbatim>\<open>store/ch.rs\<close>, the server's \<^verbatim>\<open>main.rs\<close>. Start-up order, routes,
    which database each part talks to, and the calls an upload makes, in order, for every way they may fail.
  \<^item> \<open>Intern\<close>, \<open>Event_Ring\<close>, \<open>Uploader\<close>, \<open>Rpc_Server\<close>: \<^verbatim>\<open>perfweave-common/src/intern.rs\<close> and the agent's \<^verbatim>\<open>ring.rs\<close>, \<^verbatim>\<open>grpc_client.rs\<close>,
    \<^verbatim>\<open>rpc_server.rs\<close>. The ring is proved over any channel that is a bounded queue (locale
    \<open>bounded_fifo\<close>): every event is drained, queued or counted as dropped.
  \<^item> \<open>Samplers\<close>, \<open>Tegra\<close>, \<open>Synthetic\<close>: the agent's \<^verbatim>\<open>sampler/\<close>. What each sampler pushes; the synthetic one is a
    state monad over its random generator, and the ones that push frames share the
    locale \<open>frame_sampler\<close>.
  \<^item> \<open>Cupti_Pipe\<close>, \<open>Cupti_Receiver\<close>, \<open>Activity\<close>, \<open>Host_Sampler\<close>: the injector (\<^verbatim>\<open>transport.rs\<close>, \<^verbatim>\<open>lib.rs\<close>, \<^verbatim>\<open>activity.rs\<close>, \<^verbatim>\<open>callback.rs\<close>, \<^verbatim>\<open>pm.rs\<close>) and
    the agent's receiver \<^verbatim>\<open>sampler/cupti.rs\<close>. Framing is a round trip, and record parsing is given byte by byte; the
    receiver's connections are a labelled step relation, whose invariant holds for every
    interleaving.
  \<^item> \<open>Agent_Main\<close>, \<open>Doctor\<close>, \<open>Validate_Clocks\<close>, \<open>Cli\<close>: the agent's \<^verbatim>\<open>main.rs\<close> and \<^verbatim>\<open>config.rs\<close>, and \<^verbatim>\<open>perfweave-cli\<close>. What
    each command starts, prints and returns, and the exit status of each for every outcome; the clock check passes at
    today's times, with the lag recovered up to the rounding of \<^verbatim>\<open>f64\<close>.
  \<^item> \<open>Logging\<close>, \<open>Buffers\<close>: \<^verbatim>\<open>perfweave-common/src/logging.rs\<close>, which filter and format a process installs, and the
    buffers of the injector's \<^verbatim>\<open>activity.rs\<close>, from allocation to release.
  \<^item> \<open>Pipeline\<close>: the receiver, the ring, the uploader, the stream, the collector, the sink's channel (locale
    \<open>mpsc_channel\<close>) and the sink as one labelled step relation. Its invariant, by rule induction, places
    every event: on the path in order, or in one of three accounts of lost events; a run without
    losses stores everything. \<open>Stages\<close> gives its abstract specification, an executable machine of bounded
    queues (ring, stream, channel) that moves events from one to the next and loses some only for a cause (a full ring,
    a failed send, a broken stream, a full channel), and shows that every run of the system is a run of that machine with the same causes.
  \<^item> \<open>Metric_Path\<close>: a metric from the device through sampler, uploader, collector and ring to the live frame.
  \<^item> This theory: two more theorems that span components.

  \<^bold>\<open>Conventions.\<close> A task that loops over \<^verbatim>\<open>select!\<close> is a function of the list of its wake-ups, so a
  theorem about it holds for every interleaving of timer, input and shutdown. Code that is not
  in the repository (ClickHouse, tonic, axum, arrow, NVML, CUPTI, channels, hash functions, the
  random generator, the file system, the environment) is an argument of the definitions; what a
  property needs of it is a named hypothesis with a concrete instance in its witness. Clock
  readings and the iteration order of hash maps are arguments too. Integer arithmetic wraps as
  in a release build. Panics are \<open>None\<close> or a left of a sum, errors are values. SQL texts are lists
  of lines without their indentation. Log lines and metrics counters that nothing reads are left out.

  \<^bold>\<open>Termination.\<close> All definitions are total. The loops over a buffer (\<open>handle_conn\<close>, the text
  functions) have measures; loops over wake-ups end with their list; the connection loop of the
  injector runs on the list of attempts and is shown to return once the deadline has passed.

  \<^bold>\<open>Not modelled.\<close> Generated protobuf code and the wire encoding (a codec is an argument); HTTP, gRPC
  and SSE plumbing inside the libraries, keep-alives, CORS; the CUPTI and NVTX entry points
  (\<^verbatim>\<open>extern "C"\<close> functions) around the modelled parsing; the argument parser and the log subscriber, which are
  libraries; of the SQL files the engines, indexes and views other than those of the activity tiles;
  the web front end. Texts are limited to characters up to U+00FF. Sorting with a NaN among the elements leaves the order
  unspecified in Rust; the model fixes one order.
\<close>

section \<open>From the agent to the database\<close>

text \<open>What the sink's task receives when it takes the queued batches one by one.\<close>

definition sink_input :: "Batch list \<Rightarrow> sink_event list" where
  "sink_input bs = map (\<lambda>b. Recv (Msg_Batch b) (\<lambda>i. 0)) bs"

lemma sink_input_events: "concat (map msg_events (sink_input bs)) = concat (map b_events bs)"
  by (simp add: sink_input_def o_def)

lemma ingest_batches_no_metric:
  "list_all (\<lambda>b. list_all (\<lambda>e. \<not> is_cat Cat_Metric e) (b_events b)) (snd (ingest_batches ms svc))"
proof (induction ms svc rule: ingest_batches.induct)
  case (2 b clk_off clk_ev ok ms svc)
  obtain svc1 out where o: "ingest_batch clk_off clk_ev b svc = (svc1, out)" by fastforce
  then have "list_all (\<lambda>e. \<not> is_cat Cat_Metric e) (b_events out)"
    using ingest_batch_split [of clk_off clk_ev b svc] by (auto simp: list_all_iff)
  moreover have "list_all (\<lambda>b. list_all (\<lambda>e. \<not> is_cat Cat_Metric e) (b_events b)) (snd (ingest_batches ms svc1))"
    using 2 o by simp
  ultimately show ?case by (simp add: o case_prod_unfold Let_def)
qed simp_all

text \<open>
  From the agent's stream to the database: when the collector splits a stream of batches
  and the sink's task takes the resulting messages one by one, then, unless an insert fails,
  the rows acknowledged for the events table are the rows of all events that the splits hand
  on, each exactly once and in the order of the stream.
\<close>

theorem accepted_events_are_stored:
  assumes "no_failure (sk_log (sink_run c cfg w (sink_input (snd (ingest_batches ms svc)))))"
  shows "acked ''events'' (sk_log (sink_run c cfg w (sink_input (snd (ingest_batches ms svc))))) =
    map (\<lambda>e. Row_Event (event_row e)) (concat (map b_events (snd (ingest_batches ms svc))))"
proof -
  let ?bs = "snd (ingest_batches ms svc)"
  have "filter (\<lambda>e. e_category e \<noteq> category_i32 Cat_Metric) (concat (map b_events ?bs)) = concat (map b_events ?bs)"
    using ingest_batches_no_metric [of ms svc] by (auto simp: filter_id_conv list_all_iff is_cat_def)
  then show ?thesis
    using sink_delivers [OF assms, of "''events''"]
    by (simp add: absorbed_events sink_input_events event_rows_def)
qed

theorem accepted_events_are_stored_witness:
  "acked ''events'' (sk_log (sink_run ok_client small_config ()
     (sink_input (snd (ingest_batches [In_Batch batch0 (\<lambda>i. 0) (\<lambda>i. 0) True] svc0))))) =
   [Row_Event (event_row event0)]"
proof -
  let ?ms = "[In_Batch batch0 (\<lambda>i. 0) (\<lambda>i. 0) True]"
  have b: "snd (ingest_batches ?ms svc0) =
      [\<lparr>b_events = [event0], b_strings = b_strings batch0, b_offsets = [], b_metric_frames = []\<rparr>]"
    by code_simp
  have "no_failure (sk_log (sink_run ok_client small_config () (sink_input (snd (ingest_batches ?ms svc0)))))"
    unfolding b by code_simp
  from accepted_events_are_stored [OF this] show ?thesis unfolding b by simp
qed

section \<open>Two corrections of one clock\<close>

lemma affine_unit: "n \<noteq> 0 \<Longrightarrow> affine off n n src = off + src"
  by (simp add: affine_def trunc_div_self)

text \<open>
  C40: The agent and the collector both correct the same event. For a clock that runs at host
  speed and is \<open>d\<close> nanoseconds behind, a kernel event of GPU 0 that the agent has corrected
  and sent together with its offset, as every flush does, reaches the sink with \<open>d\<close> added
  twice.
\<close>

theorem agent_and_collector_correct_twice:
  assumes "clock_ok c" "0 \<le> clk_offset_ns c" "clk_slope_num c = clk_slope_den c"
    and "latest_proto (handle_new c) node = Some m"
    and "is_cat Cat_Kernel e" "e_node_id e = node" "e_gpu_id e = 0"
    and "uint (e_ts_ns e) + 2 * clk_offset_ns c < 2 ^ 64"
    and "b = \<lparr>b_events = [corrected c e], b_strings = [], b_offsets = [m], b_metric_frames = []\<rparr>"
  shows "map (\<lambda>e. uint (e_ts_ns e)) (b_events (snd (ingest_batch clk_off clk_ev b svc))) =
    [uint (e_ts_ns e) + 2 * clk_offset_ns c]"
proof -
  let ?d = "clk_offset_ns c" and ?n = "clk_slope_den c"
  have n: "0 < ?n" "?n < 2 ^ 62" using assms(1,3) unfolding clock_ok_def by linarith+
  then have num: "0 \<le> clk_slope_num c" "clk_slope_den c < 2 ^ 64" using assms(3) by simp_all
  have "clock_map c (e_ts_ns e) = Some (as_u64 (?d + uint (e_ts_ns e)))"
    using clock_map_affine [OF assms(1), of "e_ts_ns e"] n(1) assms(2,3) by (simp add: affine_unit)
  then have c: "corrected c e = e\<lparr>e_ts_ns := as_u64 (?d + uint (e_ts_ns e))\<rparr>"
    using assms(5) by (simp add: corrected_def correct_event_def is_cat_def)
  have lt: "?d + uint (e_ts_ns e) < 2 ^ 64" using assms(2,8) by linarith
  have u: "uint (as_u64 (?d + uint (e_ts_ns e))) = ?d + uint (e_ts_ns e)"
    using lt assms(2) by (intro uint_as_u64) simp_all
  have m: "skew_map (skew_upsert now t m) node 0 src = as_u64 (?d + uint src)" for now t src
    using skew_map_proto [OF assms(1) num assms(4)] n(1) assms(3) by (simp add: affine_unit)
  have u2: "uint (as_u64 (?d + (?d + uint (e_ts_ns e)))) = uint (e_ts_ns e) + 2 * ?d"
    using assms(2,8) by (subst uint_as_u64) simp_all
  show ?thesis
    using assms(5,6,7) m u u2
    by (simp add: ingest_batch_split assms(9) c absorb_offsets_def skew_event_def is_cat_def)
qed

definition behind_clock :: ClockOffset where
  "behind_clock = \<lparr>clk_offset_ns = 1000, clk_slope_num = 2 ^ 30, clk_slope_den = 2 ^ 30,
                   clk_residual_max_ns = 0, clk_fitted_at_host_ns = 0\<rparr>"

definition behind_msg :: ClockOffsetMsg where
  "behind_msg = \<lparr>co_node_id = 1, co_gpu_id = 0, co_offset_ns = 1000, co_slope_num = 2 ^ 30,
                 co_slope_den = 2 ^ 30, co_residual_max_ns = 0\<rparr>"

theorem agent_and_collector_correct_twice_witness:
  "map (\<lambda>e. uint (e_ts_ns e)) (b_events (snd (ingest_batch (\<lambda>i. 0) (\<lambda>i. 0)
     \<lparr>b_events = [corrected behind_clock event0], b_strings = [], b_offsets = [behind_msg],
      b_metric_frames = []\<rparr> svc0))) = [2005]"
proof -
  have "latest_proto (handle_new behind_clock) 1 = Some behind_msg" by code_simp
  moreover have "clock_ok behind_clock" by (simp add: clock_ok_def behind_clock_def)
  ultimately show ?thesis
    using agent_and_collector_correct_twice [of behind_clock 1 behind_msg event0 _ "\<lambda>i. 0" "\<lambda>i. 0" svc0, OF _ _ _ _ _ _ _ _ refl]
    by (simp add: behind_clock_def event0_def is_cat_def)
qed

end
